(* ===== verification/Bionic_Prelude.thy ===== *)
theory Bionic_Prelude
  imports Main "HOL-Library.Word" "HOL-Library.List_Lexorder" "HOL-Library.Product_Lexorder"
begin

text \<open>
  Shared vocabulary of the development: machine-integer type synonyms, C strings and the
  standard-library string functions the sources call, alignment arithmetic, and the generic
  lemmas on lists and maps that the component theories use.

  A C string is a HOL \<open>string\<close> without its terminating NUL; reading past its last
  character yields the byte 0, as the terminator does. A buffer of known size is a
  \<open>char list\<close> of that length.
\<close>

unbundle bit_operations_syntax

type_synonym u8 = "8 word"
type_synonym u16 = "16 word"
type_synonym u32 = "32 word"
type_synonym u64 = "64 word"

named_theorems bionic_simps \<open>rewrite rules for the operations of the model\<close>
named_theorems bionic_intros \<open>introduction rules for the invariants of the model\<close>

subsection \<open>Alignment\<close>

definition align_up :: "nat \<Rightarrow> nat \<Rightarrow> nat" where
  "align_up n a = ((n + a - 1) div a) * a"

definition align_down :: "nat \<Rightarrow> nat \<Rightarrow> nat" where
  "align_down n a = (n div a) * a"

lemma align_up_ge: "0 < a \<Longrightarrow> n \<le> align_up n a"
proof -
  assume a: "0 < a"
  have "n + a - 1 = (n + a - 1) div a * a + (n + a - 1) mod a" by simp
  moreover have "(n + a - 1) mod a < a" using a by simp
  ultimately show ?thesis unfolding align_up_def using a by linarith
qed

lemma align_up_dvd [simp]: "a dvd align_up n a"
  by (simp add: align_up_def)

lemma align_up_less: "0 < a \<Longrightarrow> align_up n a < n + a"
proof -
  assume a: "0 < a"
  have "(n + a - 1) div a * a \<le> n + a - 1" by simp
  then show ?thesis unfolding align_up_def using a by linarith
qed

lemma align_down_dvd [simp]: "a dvd align_down n a"
  by (simp add: align_down_def)

lemma align_down_le [simp]: "align_down n a \<le> n"
  by (simp add: align_down_def)

lemma align_down_gt: "0 < a \<Longrightarrow> n < align_down n a + a"
  by (metis align_down_def div_mult_mod_eq mod_less_divisor nat_add_left_cancel_less)

subsection \<open>C strings\<close>

text \<open>The byte a C string holds at its start: the first character, or the terminator.\<close>

definition c_head :: "string \<Rightarrow> nat" where
  "c_head s = (case s of [] \<Rightarrow> 0 | c # _ \<Rightarrow> of_char c)"

text \<open>A string that a NUL-terminated buffer can hold.\<close>

definition c_string :: "string \<Rightarrow> bool" where
  "c_string s \<longleftrightarrow> CHR 0x00 \<notin> set s"

text \<open>\<open>strncmp\<close> of the C standard: the sign of the result is what callers use.\<close>

fun strncmp :: "string \<Rightarrow> string \<Rightarrow> nat \<Rightarrow> int" where
  "strncmp a b 0 = 0"
| "strncmp a b (Suc n) =
     (if c_head a \<noteq> c_head b then int (c_head a) - int (c_head b)
      else if c_head a = 0 then 0
      else strncmp (tl a) (tl b) n)"

definition strcmp :: "string \<Rightarrow> string \<Rightarrow> int" where
  "strcmp a b = strncmp a b (Suc (max (length a) (length b)))"

text \<open>\<open>strchr\<close> as an index: the position of the first \<open>c\<close>, if there is one.\<close>

definition strchr :: "string \<Rightarrow> char \<Rightarrow> nat option" where
  "strchr s c = (let n = length (takeWhile (\<lambda>d. d \<noteq> c) s) in if n < length s then Some n else None)"

lemma strchr_None [simp]: "strchr s c = None \<longleftrightarrow> c \<notin> set s"
  by (induction s) (auto simp: strchr_def Let_def)

lemma takeWhile_neq_append [simp]: "c \<notin> set s \<Longrightarrow> takeWhile (\<lambda>d. d \<noteq> c) (s @ c # t) = s"
  by (induction s) auto

lemma c_string_simps [simp]:
  "c_string []" "c_string (c # s) \<longleftrightarrow> c \<noteq> CHR 0x00 \<and> c_string s"
  "c_string (s @ t) \<longleftrightarrow> c_string s \<and> c_string t"
  by (auto simp: c_string_def)

lemma c_string_take [simp, intro]: "c_string s \<Longrightarrow> c_string (take n s)"
  by (auto simp: c_string_def dest: in_set_takeD)

lemma c_string_drop [simp, intro]: "c_string s \<Longrightarrow> c_string (drop n s)"
  by (auto simp: c_string_def dest: in_set_dropD)

lemma of_char_eq_0_iff [simp]: "(of_char c :: nat) = 0 \<longleftrightarrow> c = CHR 0x00"
proof -
  have "(of_char (CHR 0x00) :: nat) = 0" by simp
  then show ?thesis by (metis of_char_eq_iff)
qed

lemma of_char_pos_iff [simp]:
  "0 < (of_char c :: nat) \<longleftrightarrow> c \<noteq> CHR 0x00" "0 < (of_char c :: int) \<longleftrightarrow> c \<noteq> CHR 0x00"
proof -
  show nat: "0 < (of_char c :: nat) \<longleftrightarrow> c \<noteq> CHR 0x00"
    using of_char_eq_0_iff [of c] by linarith
  have "(of_char c :: int) = int (of_char c)" by (simp add: of_nat_of_char)
  with nat show "0 < (of_char c :: int) \<longleftrightarrow> c \<noteq> CHR 0x00" by linarith
qed

lemma strncmp_eq_0_iff:
  "c_string a \<Longrightarrow> c_string b \<Longrightarrow> strncmp a b n = 0 \<longleftrightarrow> take n a = take n b"
proof (induction a b n rule: strncmp.induct)
  case (2 a b n)
  then show ?case by (cases a; cases b) (auto simp: c_head_def)
qed simp

text \<open>The strict order of \<open>strncmp\<close> is the lexicographic order of the bytes.\<close>

abbreviation bytes :: "string \<Rightarrow> nat list" where
  "bytes s \<equiv> map of_char s"

lemma strncmp_less_0_iff:
  "c_string a \<Longrightarrow> c_string b \<Longrightarrow> strncmp a b n < 0 \<longleftrightarrow> bytes (take n a) < bytes (take n b)"
proof (induction a b n rule: strncmp.induct)
  case (2 a b n)
  then show ?case by (cases a; cases b) (auto simp: c_head_def)
qed simp

lemma inj_bytes: "bytes a = bytes b \<longleftrightarrow> a = b"
  by (simp add: inj_of_char)

subsection \<open>Byte buffers\<close>

text \<open>\<open>memcpy\<close> of \<open>n\<close> elements onto the start of a buffer, and the C string a buffer holds.\<close>

definition memcpy :: "'a list \<Rightarrow> 'a list \<Rightarrow> nat \<Rightarrow> 'a list" where
  "memcpy dst src n = take n src @ drop n dst"

definition c_str :: "char list \<Rightarrow> string" where
  "c_str b = takeWhile (\<lambda>c. c \<noteq> CHR 0x00) b"

lemma length_memcpy [simp]:
  "n \<le> length src \<Longrightarrow> n \<le> length dst \<Longrightarrow> length (memcpy dst src n) = length dst"
  by (simp add: memcpy_def)

lemma c_str_append_NUL [simp]: "c_string s \<Longrightarrow> c_str (s @ CHR 0x00 # t) = s"
  by (induction s) (auto simp: c_str_def)

lemma c_string_c_str [simp]: "c_string (c_str b)"
  by (auto simp: c_string_def c_str_def dest: set_takeWhileD)

lemma memcpy_c_str [simp]:
  "c_string s \<Longrightarrow> c_str (memcpy dst (s @ [CHR 0x00]) (Suc (length s))) = s"
  by (simp add: memcpy_def)

subsection \<open>Heaps as partial maps\<close>

text \<open>Two heaps that agree outside a set of addresses: the frame of an update.\<close>

definition agree_outside :: "'a set \<Rightarrow> ('a \<Rightarrow> 'b) \<Rightarrow> ('a \<Rightarrow> 'b) \<Rightarrow> bool" where
  "agree_outside S h h' \<longleftrightarrow> (\<forall>x. x \<notin> S \<longrightarrow> h' x = h x)"

lemma agree_outside_refl [simp, intro]: "agree_outside S h h"
  by (simp add: agree_outside_def)

lemma agree_outsideD: "agree_outside S h h' \<Longrightarrow> x \<notin> S \<Longrightarrow> h' x = h x"
  by (simp add: agree_outside_def)

lemma agree_outside_mono: "agree_outside S h h' \<Longrightarrow> S \<subseteq> T \<Longrightarrow> agree_outside T h h'"
  by (auto simp: agree_outside_def)

lemma agree_outside_trans:
  "agree_outside S h h' \<Longrightarrow> agree_outside T h' h'' \<Longrightarrow> agree_outside (S \<union> T) h h''"
  by (simp add: agree_outside_def)

lemma agree_outside_upd [simp, intro]: "x \<in> S \<Longrightarrow> agree_outside S h (h(x := v))"
  by (auto simp: agree_outside_def)

lemma agree_outside_upd_right:
  "agree_outside S h h' \<Longrightarrow> x \<in> S \<Longrightarrow> agree_outside S h (h'(x := v))"
  by (auto simp: agree_outside_def)

subsection \<open>Bits of words\<close>

lemma high_bits_clear:
  "(c::'a::len word) AND NOT (mask k) = 0 \<longleftrightarrow> (\<forall>n. k \<le> n \<longrightarrow> \<not> bit c n)"
  by (auto simp: bit_eq_iff bit_simps dest: bit_imp_le_length)
     (meson bit_imp_le_length linorder_not_less)

lemma and_not_mask_less:
  "k < LENGTH('a) \<Longrightarrow> (c::'a::len word) AND NOT (mask k) = 0 \<longleftrightarrow> unat c < 2 ^ k"
proof -
  assume "k < LENGTH('a)"
  have "c AND NOT (mask k) = 0 \<longleftrightarrow> take_bit k c = c"
    unfolding high_bits_clear by (auto simp: bit_eq_iff bit_take_bit_iff dest: bit_imp_le_length)
      (meson bit_imp_le_length linorder_not_less)+
  also have "\<dots> \<longleftrightarrow> take_bit k (unat c) = unat c"
    by (metis unsigned_take_bit_eq word_unat_eq_iff)
  also have "\<dots> \<longleftrightarrow> unat c < 2 ^ k"
    by (simp add: take_bit_nat_eq_self_iff)
  finally show ?thesis .
qed

lemma unat_and_mask: "unat ((b::'a::len word) AND mask k) < 2 ^ k"
  by (simp add: unsigned_take_bit_eq flip: take_bit_eq_mask)

lemma unat_drop_bit: "unat (drop_bit k (c :: 'a::len word)) = unat c div 2 ^ k"
proof -
  have "take_bit LENGTH('a) (unat c) = unat c"
    using unsigned_less [of c, where 'a = nat] by (simp only: take_bit_nat_eq_self_iff)
  then show ?thesis
    by (simp only: unsigned_drop_bit_eq) (simp add: drop_bit_eq_div)
qed

subsection \<open>Outcomes\<close>

text \<open>
  An operation is \<open>Ok\<close> with its result, \<open>Abort\<close> where the code aborts the process (\<open>abort\<close> or a failed
  CHECK), and \<open>Undef\<close> where it has no defined behaviour.
\<close>

datatype 'a res = Ok 'a | Abort | Undef

fun res_bind :: "'a res \<Rightarrow> ('a \<Rightarrow> 'b res) \<Rightarrow> 'b res" where
  "res_bind (Ok x) f = f x"
| "res_bind Abort f = Abort"
| "res_bind Undef f = Undef"

lemma res_bind_cong [fundef_cong]:
  "r = r' \<Longrightarrow> (\<And>x. r' = Ok x \<Longrightarrow> f x = g x) \<Longrightarrow> res_bind r f = res_bind r' g"
  by (cases r') auto

lemma res_bind_Ok: "res_bind r f = Ok y \<longleftrightarrow> (\<exists>x. r = Ok x \<and> f x = Ok y)"
  by (cases r) auto

definition of_option :: "'a option \<Rightarrow> 'a res" where
  "of_option r = (case r of Some x \<Rightarrow> Ok x | None \<Rightarrow> Undef)"

end
