(* ===== verification/Prop_Area.thy ===== *)
theory Prop_Area
  imports Bionic_Prelude
begin

text \<open>
  The property area: \<open>prop_info\<close> (libc/system_properties/prop_info.cpp and its header) and
  \<open>prop_area\<close> (prop_area.cpp and its header). A property area is a bump-allocated block of
  shared memory that holds a hybrid trie/binary tree of names; nodes refer to each other by
  offset. The model keeps the offsets: the block is a heap from offsets to typed objects.

  The area is created by \<open>ftruncate\<close>, so its memory is zero before an object is constructed in
  it, and no object is ever freed; this is why a new trie node has four zero offsets although
  its constructor does not store them. \<open>nullptr\<close> is \<open>None\<close>. The outer \<open>option\<close> of a search is
  \<open>None\<close> where the code has no defined behaviour: it follows an offset that holds no object of
  the expected type, or it follows offsets for ever.

  Sizes are \<open>size_t\<close> of a 64-bit build and do not wrap at the values that occur;
  \<open>bytes_used_\<close> and stored offsets are \<open>uint32_t\<close>, with the wrap-around written out. The length of a part of
  a name, \<open>substr_size\<close>, is a \<open>uint32_t\<close> too but is not truncated here: names are shorter than 4 GiB.
  The heap is typed and objects have no extent in it, so that two objects are the same or disjoint; the
  extents appear in the allocator, which advances by the aligned size of each object. \<open>PA_SIZE\<close> is the size
  of an area unless LARGE_SYSTEM_PROPERTY_NODE is defined, which makes it eight times as large.
\<close>

subsection \<open>Property records\<close>

definition PROP_VALUE_MAX :: nat where "PROP_VALUE_MAX = 92"
definition PROP_NAME_MAX :: nat where "PROP_NAME_MAX = 32"

definition kLongFlag :: u32 where "kLongFlag = push_bit 16 1"

definition kLongLegacyError :: string where
  "kLongLegacyError = ''Must use __system_property_read_callback() to read''"

text \<open>The union of the short value and the long-property descriptor.\<close>

datatype prop_value = Value "char list" | LongProperty "char list" nat

record prop_info =
  pi_serial :: u32
  pi_value :: prop_value
  pi_name :: string

definition zero_bytes :: "nat \<Rightarrow> char list" where
  "zero_bytes n = replicate n (CHR 0x00)"

text \<open>
  The 92 bytes of the union, as \<open>pi->value\<close> reads them: of a long property they are its error message
  in a buffer of 56 bytes, then the four bytes of the offset, least significant first.
\<close>

definition kLongLegacyErrorBufferSize :: nat where "kLongLegacyErrorBufferSize = 56"

definition le32 :: "nat \<Rightarrow> char list" where
  "le32 n = map (\<lambda>i. char_of (n div 256 ^ i)) [0..<4]"

fun value_bytes :: "prop_value \<Rightarrow> char list" where
  "value_bytes (Value b) = b"
| "value_bytes (LongProperty e off) =
     e @ zero_bytes (kLongLegacyErrorBufferSize - length e) @ le32 off
       @ zero_bytes (PROP_VALUE_MAX - kLongLegacyErrorBufferSize - 4)"

definition is_long :: "prop_info \<Rightarrow> bool" where
  "is_long pi = (pi_serial pi AND kLongFlag \<noteq> 0)"

definition prop_info_short :: "string \<Rightarrow> nat \<Rightarrow> string \<Rightarrow> nat \<Rightarrow> prop_info" where
  "prop_info_short nm namelen v valuelen =
     \<lparr>pi_serial = push_bit 24 (of_nat valuelen),
      pi_value = Value ((memcpy (zero_bytes PROP_VALUE_MAX) v valuelen)[valuelen := CHR 0x00]),
      pi_name = take namelen nm\<rparr>"

definition prop_info_long :: "string \<Rightarrow> nat \<Rightarrow> nat \<Rightarrow> prop_info" where
  "prop_info_long nm namelen long_offset =
     \<lparr>pi_serial = push_bit 24 (of_nat (length kLongLegacyError)) OR kLongFlag,
      pi_value = LongProperty (kLongLegacyError @ [CHR 0x00]) long_offset,
      pi_name = take namelen nm\<rparr>"

subsection \<open>The area and its allocator\<close>

record prop_trie_node =
  tn_namelen :: nat
  tn_prop :: nat
  tn_left :: nat
  tn_right :: nat
  tn_children :: nat
  tn_name :: string

datatype pa_obj = TrieNode prop_trie_node | Info prop_info | LongValue string

record prop_area =
  pa_data_size :: nat
  bytes_used :: nat
  pa_serial :: u32
  pa_magic :: u32
  pa_version :: u32
  dirty_backup_area :: "char list"
  pa_data :: "nat \<rightharpoonup> pa_obj"

definition PA_SIZE :: nat where "PA_SIZE = 128 * 1024"
definition PROP_AREA_MAGIC :: u32 where "PROP_AREA_MAGIC = 0x504f5250"
definition PROP_AREA_VERSION :: u32 where "PROP_AREA_VERSION = 0xfc6ed0ab"

definition sizeof_prop_trie_node :: nat where "sizeof_prop_trie_node = 20"
definition sizeof_prop_info :: nat where "sizeof_prop_info = 96"
definition sizeof_prop_area :: nat where "sizeof_prop_area = 128"

text \<open>The node constructor, on zero memory.\<close>

definition new_trie_node :: "string \<Rightarrow> nat \<Rightarrow> prop_trie_node" where
  "new_trie_node nm namelen =
     \<lparr>tn_namelen = namelen, tn_prop = 0, tn_left = 0, tn_right = 0, tn_children = 0,
      tn_name = take namelen nm\<rparr>"

definition new_prop_area :: "u32 \<Rightarrow> u32 \<Rightarrow> nat \<Rightarrow> prop_area" where
  "new_prop_area magic version data_size =
     \<lparr>pa_data_size = data_size,
      bytes_used = sizeof_prop_trie_node + align_up PROP_VALUE_MAX 4,
      pa_serial = 0, pa_magic = magic, pa_version = version,
      dirty_backup_area = zero_bytes PROP_VALUE_MAX,
      pa_data = [0 \<mapsto> TrieNode (new_trie_node [] 0)]\<rparr>"

definition allocate_obj :: "prop_area \<Rightarrow> nat \<Rightarrow> prop_area \<times> nat option" where
  "allocate_obj pa sz =
     (let aligned = align_up sz 4 in
      if bytes_used pa + aligned > pa_data_size pa then (pa, None)
      else (pa\<lparr>bytes_used := (bytes_used pa + aligned) mod 2 ^ 32\<rparr>, Some (bytes_used pa)))"

definition store_obj :: "prop_area \<Rightarrow> nat \<Rightarrow> pa_obj \<Rightarrow> prop_area" where
  "store_obj pa off obj = pa\<lparr>pa_data := (pa_data pa)(off \<mapsto> obj)\<rparr>"

definition new_prop_trie_node :: "prop_area \<Rightarrow> string \<Rightarrow> nat \<Rightarrow> prop_area \<times> nat option" where
  "new_prop_trie_node pa nm namelen =
     (case allocate_obj pa (sizeof_prop_trie_node + namelen + 1) of
        (pa', None) \<Rightarrow> (pa', None)
      | (pa', Some new_offset) \<Rightarrow>
          (store_obj pa' new_offset (TrieNode (new_trie_node nm namelen)), Some new_offset))"

definition new_prop_info ::
  "prop_area \<Rightarrow> string \<Rightarrow> nat \<Rightarrow> string \<Rightarrow> nat \<Rightarrow> prop_area \<times> nat option" where
  "new_prop_info pa nm namelen v valuelen =
     (case allocate_obj pa (sizeof_prop_info + namelen + 1) of
        (pa', None) \<Rightarrow> (pa', None)
      | (pa', Some new_offset) \<Rightarrow>
          if valuelen \<ge> PROP_VALUE_MAX then
            (case allocate_obj pa' ((valuelen + 1) mod 2 ^ 32) of
               (pa'', None) \<Rightarrow> (pa'', None)
             | (pa'', Some long_value_offset) \<Rightarrow>
                 (store_obj
                    (store_obj pa'' long_value_offset (LongValue (take valuelen v)))
                    new_offset (Info (prop_info_long nm namelen (long_value_offset - new_offset))),
                  Some new_offset))
          else (store_obj pa' new_offset (Info (prop_info_short nm namelen v valuelen)),
                Some new_offset))"

definition to_prop_obj :: "prop_area \<Rightarrow> nat \<Rightarrow> nat option" where
  "to_prop_obj pa off = (if off > pa_data_size pa then None else Some off)"

definition node_at :: "prop_area \<Rightarrow> nat \<Rightarrow> prop_trie_node option" where
  "node_at pa off = (case pa_data pa off of Some (TrieNode nd) \<Rightarrow> Some nd | _ \<Rightarrow> None)"

definition info_at :: "prop_area \<Rightarrow> nat \<Rightarrow> prop_info option" where
  "info_at pa off = (case pa_data pa off of Some (Info pi) \<Rightarrow> Some pi | _ \<Rightarrow> None)"

subsection \<open>Searching and inserting\<close>

definition cmp_prop_name :: "string \<Rightarrow> nat \<Rightarrow> string \<Rightarrow> nat \<Rightarrow> int" where
  "cmp_prop_name one one_len two two_len =
     (if one_len < two_len then -1 else if one_len > two_len then 1 else strncmp one two one_len)"

partial_function (option) find_prop_trie_node ::
  "prop_area \<Rightarrow> nat option \<Rightarrow> string \<Rightarrow> nat \<Rightarrow> bool \<Rightarrow> (prop_area \<times> nat option) option" where
  "find_prop_trie_node pa trie nm namelen alloc_if_needed =
     (case trie of
        None \<Rightarrow> Some (pa, None)
      | Some current \<Rightarrow>
          (case node_at pa current of
             None \<Rightarrow> None
           | Some nd \<Rightarrow>
               (let ret = cmp_prop_name nm namelen (tn_name nd) (tn_namelen nd) in
                if ret = 0 then Some (pa, Some current)
                else if ret < 0 then
                  (if tn_left nd \<noteq> 0
                   then find_prop_trie_node pa (to_prop_obj pa (tn_left nd)) nm namelen alloc_if_needed
                   else if \<not> alloc_if_needed then Some (pa, None)
                   else (case new_prop_trie_node pa nm namelen of
                           (pa', None) \<Rightarrow> Some (pa', None)
                         | (pa', Some new_offset) \<Rightarrow>
                             Some (store_obj pa' current (TrieNode (nd\<lparr>tn_left := new_offset\<rparr>)),
                                   Some new_offset)))
                else
                  (if tn_right nd \<noteq> 0
                   then find_prop_trie_node pa (to_prop_obj pa (tn_right nd)) nm namelen alloc_if_needed
                   else if \<not> alloc_if_needed then Some (pa, None)
                   else (case new_prop_trie_node pa nm namelen of
                           (pa', None) \<Rightarrow> Some (pa', None)
                         | (pa', Some new_offset) \<Rightarrow>
                             Some (store_obj pa' current (TrieNode (nd\<lparr>tn_right := new_offset\<rparr>)),
                                   Some new_offset))))))"

text \<open>The first part of one round of the loop of \<open>find_property\<close>: the root of the children.\<close>

definition children_root ::
  "prop_area \<Rightarrow> nat \<Rightarrow> prop_trie_node \<Rightarrow> string \<Rightarrow> nat \<Rightarrow> bool \<Rightarrow> prop_area \<times> nat option" where
  "children_root pa current nd remaining_name substr_size alloc_if_needed =
     (if tn_children nd \<noteq> 0 then (pa, to_prop_obj pa (tn_children nd))
      else if alloc_if_needed then
        (case new_prop_trie_node pa remaining_name substr_size of
           (pa', None) \<Rightarrow> (pa', None)
         | (pa', Some new_offset) \<Rightarrow>
             (store_obj pa' current (TrieNode (nd\<lparr>tn_children := new_offset\<rparr>)), Some new_offset))
      else (pa, None))"

partial_function (option) find_property_loop ::
  "prop_area \<Rightarrow> nat \<Rightarrow> string \<Rightarrow> bool \<Rightarrow> (prop_area \<times> nat option) option" where
  "find_property_loop pa current remaining_name alloc_if_needed =
     (let sep = strchr remaining_name (CHR ''.'');
          substr_size = (case sep of Some n \<Rightarrow> n | None \<Rightarrow> length remaining_name) in
      if substr_size = 0 then Some (pa, None)
      else
        (case node_at pa current of
           None \<Rightarrow> None
         | Some nd \<Rightarrow>
             (case children_root pa current nd remaining_name substr_size alloc_if_needed of
                (pa', None) \<Rightarrow> Some (pa', None)
              | (pa', Some root) \<Rightarrow>
                  Option.bind
                    (find_prop_trie_node pa' (Some root) remaining_name substr_size alloc_if_needed)
                    (\<lambda>(pa'', found).
                       case found of
                         None \<Rightarrow> Some (pa'', None)
                       | Some current' \<Rightarrow>
                           (case sep of
                              None \<Rightarrow> Some (pa'', Some current')
                            | Some n \<Rightarrow>
                                find_property_loop pa'' current' (drop (n + 1) remaining_name)
                                  alloc_if_needed)))))"

definition find_property ::
  "prop_area \<Rightarrow> nat option \<Rightarrow> string \<Rightarrow> nat \<Rightarrow> string \<Rightarrow> nat \<Rightarrow> bool \<Rightarrow> (prop_area \<times> nat option) option"
where
  "find_property pa trie nm namelen v valuelen alloc_if_needed =
     (case trie of
        None \<Rightarrow> Some (pa, None)
      | Some current \<Rightarrow>
          (case find_property_loop pa current nm alloc_if_needed of
             None \<Rightarrow> None
           | Some (pa', None) \<Rightarrow> Some (pa', None)
           | Some (pa', Some current') \<Rightarrow>
               (case node_at pa' current' of
                  None \<Rightarrow> None
                | Some nd \<Rightarrow>
                    if tn_prop nd \<noteq> 0 then Some (pa', to_prop_obj pa' (tn_prop nd))
                    else if alloc_if_needed then
                      (case new_prop_info pa' nm namelen v valuelen of
                         (pa'', None) \<Rightarrow> Some (pa'', None)
                       | (pa'', Some new_offset) \<Rightarrow>
                           Some (store_obj pa'' current' (TrieNode (nd\<lparr>tn_prop := new_offset\<rparr>)),
                                 Some new_offset))
                    else Some (pa', None))))"

definition root_node :: "prop_area \<Rightarrow> nat option" where
  "root_node pa = to_prop_obj pa 0"

definition pa_find :: "prop_area \<Rightarrow> string \<Rightarrow> nat option option" where
  "pa_find pa nm = map_option snd (find_property pa (root_node pa) nm (length nm) [] 0 False)"

definition pa_add :: "prop_area \<Rightarrow> string \<Rightarrow> nat \<Rightarrow> string \<Rightarrow> nat \<Rightarrow> (prop_area \<times> bool) option" where
  "pa_add pa nm namelen v valuelen =
     map_option (\<lambda>(pa', r). (pa', r \<noteq> None))
       (find_property pa (root_node pa) nm namelen v valuelen True)"

subsection \<open>Visiting every property\<close>

text \<open>
  \<open>propfn\<close> is a callback that updates the cookie; it gets the offset of the property record.
\<close>

partial_function (option) foreach_property ::
  "prop_area \<Rightarrow> nat option \<Rightarrow> (nat \<Rightarrow> 'c \<Rightarrow> 'c) \<Rightarrow> 'c \<Rightarrow> ('c \<times> bool) option" where
  "foreach_property pa trie propfn cookie =
     (case trie of
        None \<Rightarrow> Some (cookie, False)
      | Some off \<Rightarrow>
          (case node_at pa off of
             None \<Rightarrow> None
           | Some nd \<Rightarrow>
               Option.bind
                 (if tn_left nd \<noteq> 0
                  then foreach_property pa (to_prop_obj pa (tn_left nd)) propfn cookie
                  else Some (cookie, True))
                 (\<lambda>(cookie1, ok1).
                    if \<not> ok1 then Some (cookie1, False)
                    else if tn_prop nd \<noteq> 0 \<and> to_prop_obj pa (tn_prop nd) = None
                    then Some (cookie1, False)
                    else
                      Option.bind
                        (let cookie2 = (if tn_prop nd \<noteq> 0 then propfn (tn_prop nd) cookie1 else cookie1) in
                         if tn_children nd \<noteq> 0
                         then foreach_property pa (to_prop_obj pa (tn_children nd)) propfn cookie2
                         else Some (cookie2, True))
                        (\<lambda>(cookie3, ok3).
                           if \<not> ok3 then Some (cookie3, False)
                           else if tn_right nd \<noteq> 0
                           then foreach_property pa (to_prop_obj pa (tn_right nd)) propfn cookie3
                           else Some (cookie3, True)))))"

definition pa_foreach :: "prop_area \<Rightarrow> (nat \<Rightarrow> 'c \<Rightarrow> 'c) \<Rightarrow> 'c \<Rightarrow> ('c \<times> bool) option" where
  "pa_foreach pa propfn cookie = foreach_property pa (root_node pa) propfn cookie"

end
