(* ===== verification/Prop_Trie.thy ===== *)
theory Prop_Trie
  imports Prop_Area
begin

text \<open>
  The abstract view of a property area and the proof that the offset-linked structure of
  \<open>Prop_Area\<close> implements it. A \<open>ptree\<close> is the structure the offsets describe; \<open>tree_at\<close> relates
  it to the heap; \<open>tfind\<close> is the lookup of a dotted name in it. The invariant \<open>wf_area\<close> holds of
  a new area and is kept by \<open>pa_add\<close>, and under it every search ends with a defined result.
\<close>

subsection \<open>Dotted names\<close>

function segs :: "string \<Rightarrow> string list" where
  "segs s = (case strchr s (CHR ''.'') of
               None \<Rightarrow> [s]
             | Some n \<Rightarrow> take n s # segs (drop (n + 1) s))"
  by pat_completeness auto
termination
  by (relation "measure length") (auto simp: strchr_def Let_def split: if_splits)

declare segs.simps [simp del]

fun join_dots :: "string list \<Rightarrow> string" where
  "join_dots [] = []"
| "join_dots [s] = s"
| "join_dots (s # t # ss) = s @ CHR ''.'' # join_dots (t # ss)"

definition valid_name :: "string \<Rightarrow> bool" where
  "valid_name nm \<longleftrightarrow> c_string nm \<and> [] \<notin> set (segs nm)"

subsection \<open>The tree the offsets describe\<close>

text \<open>Offset, left sibling, name, property offset, children, right sibling.\<close>

datatype ptree = PLeaf | PNode nat ptree string nat ptree ptree

definition seg_key :: "string \<Rightarrow> nat \<times> nat list" where
  "seg_key s = (length s, bytes s)"

fun offs :: "ptree \<Rightarrow> nat list" where
  "offs PLeaf = []"
| "offs (PNode off l nm p c r) = off # offs l @ offs c @ offs r"

fun sib_names :: "ptree \<Rightarrow> string set" where
  "sib_names PLeaf = {}"
| "sib_names (PNode off l nm p c r) = insert nm (sib_names l \<union> sib_names r)"

text \<open>Siblings are a binary search tree, at every level.\<close>

fun bst :: "ptree \<Rightarrow> bool" where
  "bst PLeaf = True"
| "bst (PNode off l nm p c r) =
     ((\<forall>x \<in> sib_names l. seg_key x < seg_key nm) \<and> (\<forall>x \<in> sib_names r. seg_key nm < seg_key x)
      \<and> bst l \<and> bst c \<and> bst r)"

fun tree_at :: "(nat \<rightharpoonup> pa_obj) \<Rightarrow> nat \<Rightarrow> ptree \<Rightarrow> bool" where
  "tree_at h x PLeaf = (x = 0)"
| "tree_at h x (PNode off l nm p c r) =
     (x = off \<and> off \<noteq> 0 \<and> c_string nm \<and> nm \<noteq> [] \<and> CHR ''.'' \<notin> set nm \<and>
      (\<exists>nd. h off = Some (TrieNode nd) \<and> tn_name nd = nm \<and> tn_namelen nd = length nm \<and>
            tn_prop nd = p \<and> tree_at h (tn_left nd) l \<and> tree_at h (tn_children nd) c \<and>
            tree_at h (tn_right nd) r))"

text \<open>Every property offset of the tree holds a record that carries the name of its path.\<close>

definition info_ok :: "(nat \<rightharpoonup> pa_obj) \<Rightarrow> nat \<Rightarrow> string \<Rightarrow> bool" where
  "info_ok h p nm \<longleftrightarrow> (\<exists>pi. h p = Some (Info pi) \<and> pi_name pi = nm)"

fun infos_ok :: "(nat \<rightharpoonup> pa_obj) \<Rightarrow> string list \<Rightarrow> ptree \<Rightarrow> bool" where
  "infos_ok h pre PLeaf = True"
| "infos_ok h pre (PNode off l nm p c r) =
     ((p \<noteq> 0 \<longrightarrow> info_ok h p (join_dots (pre @ [nm]))) \<and>
      infos_ok h pre l \<and> infos_ok h (pre @ [nm]) c \<and> infos_ok h pre r)"

subsection \<open>Lookup and update of a tree\<close>

fun sib_find :: "ptree \<Rightarrow> string \<Rightarrow> (nat \<times> nat \<times> ptree) option" where
  "sib_find PLeaf s = None"
| "sib_find (PNode off l nm p c r) s =
     (if s = nm then Some (off, p, c)
      else if seg_key s < seg_key nm then sib_find l s else sib_find r s)"

fun sib_insert :: "ptree \<Rightarrow> string \<Rightarrow> nat \<Rightarrow> ptree" where
  "sib_insert PLeaf s n = PNode n PLeaf s 0 PLeaf PLeaf"
| "sib_insert (PNode off l nm p c r) s n =
     (if s = nm then PNode off l nm p c r
      else if seg_key s < seg_key nm then PNode off (sib_insert l s n) nm p c r
      else PNode off l nm p c (sib_insert r s n))"

fun sib_set :: "ptree \<Rightarrow> string \<Rightarrow> nat \<Rightarrow> ptree \<Rightarrow> ptree" where
  "sib_set PLeaf s p' c' = PLeaf"
| "sib_set (PNode off l nm p c r) s p' c' =
     (if s = nm then PNode off l nm p' c' r
      else if seg_key s < seg_key nm then PNode off (sib_set l s p' c') nm p c r
      else PNode off l nm p c (sib_set r s p' c'))"

text \<open>The property offset stored under a path, 0 if there is none.\<close>

fun tfind :: "ptree \<Rightarrow> string list \<Rightarrow> nat" where
  "tfind t [] = 0"
| "tfind t (s # ss) =
     (case sib_find t s of
        None \<Rightarrow> 0
      | Some (off, p, c) \<Rightarrow> if ss = [] then p else tfind c ss)"

text \<open>The offset of the node of a path.\<close>

fun tnode :: "ptree \<Rightarrow> string list \<Rightarrow> nat option" where
  "tnode t [] = None"
| "tnode t (s # ss) =
     (case sib_find t s of
        None \<Rightarrow> None
      | Some (off, p, c) \<Rightarrow> if ss = [] then Some off else tnode c ss)"

fun tset :: "ptree \<Rightarrow> string list \<Rightarrow> nat \<Rightarrow> ptree" where
  "tset t [] q = t"
| "tset t (s # ss) q =
     (case sib_find t s of
        None \<Rightarrow> t
      | Some (off, p, c) \<Rightarrow> if ss = [] then sib_set t s q c else sib_set t s p (tset c ss q))"

subsection \<open>Facts about names\<close>

lemma segs_not_Nil [simp]: "segs s \<noteq> []"
  by (subst segs.simps) (simp split: option.split)

lemma join_segs [simp]: "join_dots (segs s) = s"
proof (induction s rule: segs.induct)
  case (1 s)
  show ?case
  proof (cases "strchr s (CHR ''.'')")
    case None
    then show ?thesis by (subst segs.simps) (simp del: strchr_None)
  next
    case (Some n)
    then have n: "n < length s" "s ! n = CHR ''.''"
      using nth_length_takeWhile [of "\<lambda>d. d \<noteq> CHR ''.''" s]
      by (auto simp: strchr_def Let_def split: if_splits)
    obtain t ts where ts: "segs (drop (n + 1) s) = t # ts"
      using segs_not_Nil by (metis list.exhaust)
    have "join_dots (segs s) = take n s @ CHR ''.'' # drop (n + 1) s"
      using 1 [OF Some] ts Some by (subst segs.simps) simp
    also have "\<dots> = s" using n id_take_nth_drop [of n s] by simp
    finally show ?thesis .
  qed
qed

lemma segs_inj: "segs a = segs b \<longleftrightarrow> a = b"
  by (metis join_segs)

lemma cmp_prop_name_eq:
  assumes "c_string a" "c_string b" "n \<le> length a"
  shows "cmp_prop_name a n b (length b) = 0 \<longleftrightarrow> take n a = b"
  using assms by (auto simp: cmp_prop_name_def strncmp_eq_0_iff)

lemma cmp_prop_name_less:
  assumes "c_string a" "c_string b" "n \<le> length a"
  shows "cmp_prop_name a n b (length b) < 0 \<longleftrightarrow> seg_key (take n a) < seg_key b"
  using assms by (auto simp: cmp_prop_name_def strncmp_less_0_iff seg_key_def less_prod_def)

lemma inj_seg_key [simp]: "seg_key a = seg_key b \<longleftrightarrow> a = b"
  by (auto simp: seg_key_def inj_bytes)

subsection \<open>Facts about trees\<close>

lemma sib_find_insert:
  "sib_find (sib_insert t s n) s' =
     (if s' = s \<and> sib_find t s = None then Some (n, 0, PLeaf) else sib_find t s')"
  by (induction t s n rule: sib_insert.induct) auto

lemma sib_find_set:
  "sib_find (sib_set t s p c) s' =
     (if s' = s then map_option (\<lambda>x. (fst x, p, c)) (sib_find t s) else sib_find t s')"
  by (induction t s p c rule: sib_set.induct) auto

lemma tfind_insert [simp]: "tfind (sib_insert t s n) q = tfind t q"
proof (cases q)
  case (Cons a as)
  have "tfind PLeaf as = 0" by (cases as) auto
  with Cons show ?thesis by (auto simp: sib_find_insert)
qed simp

lemma tfind_tset:
  "tnode t ss = Some n \<Longrightarrow> tfind (tset t ss q) ss' = (if ss' = ss then q else tfind t ss')"
proof (induction t ss q arbitrary: ss' rule: tset.induct)
  case (2 t s ss q)
  then show ?case
    by (cases ss') (auto simp: sib_find_set split: option.splits prod.splits if_splits)
qed simp


lemma sib_find_None_iff:
  "bst t \<Longrightarrow> sib_find t s = None \<longleftrightarrow> s \<notin> sib_names t"
  by (induction t s rule: sib_find.induct) (auto dest: less_trans)

lemma sib_names_insert [simp]: "sib_names (sib_insert t s n) = insert s (sib_names t)"
  by (induction t s n rule: sib_insert.induct) auto

lemma sib_names_set [simp]: "sib_names (sib_set t s p c) = sib_names t"
  by (induction t s p c rule: sib_set.induct) auto

lemma bst_insert: "bst t \<Longrightarrow> bst (sib_insert t s n)"
  by (induction t s n rule: sib_insert.induct) (auto simp: not_less le_less)

lemma bst_set: "bst t \<Longrightarrow> bst c \<Longrightarrow> bst (sib_set t s p c)"
  by (induction t s p c rule: sib_set.induct) auto

lemma bst_sib_find: "bst t \<Longrightarrow> sib_find t s = Some (off, p, c) \<Longrightarrow> bst c"
  by (induction t s rule: sib_find.induct) (auto split: if_splits)

lemma sib_find_offs:
  "sib_find t s = Some (off, p, c) \<Longrightarrow> insert off (set (offs c)) \<subseteq> set (offs t)"
  by (induction t s rule: sib_find.induct) (auto split: if_splits)

lemma sib_find_distinct:
  "sib_find t s = Some (off, p, c) \<Longrightarrow> distinct (offs t) \<Longrightarrow> distinct (off # offs c)"
  by (induction t s rule: sib_find.induct) (auto split: if_splits)

lemma offs_insert:
  "sib_find t s = None \<Longrightarrow> set (offs (sib_insert t s n)) = insert n (set (offs t))"
  by (induction t s n rule: sib_insert.induct) (auto split: if_splits)

lemma distinct_insert:
  "sib_find t s = None \<Longrightarrow> distinct (offs t) \<Longrightarrow> n \<notin> set (offs t) \<Longrightarrow> distinct (offs (sib_insert t s n))"
  by (induction t s n rule: sib_insert.induct) (auto simp: offs_insert split: if_splits)

lemma offs_set:
  "sib_find t s = Some (off, p, c) \<Longrightarrow>
     set (offs (sib_set t s p' c')) \<subseteq> set (offs t) \<union> set (offs c')"
  by (induction t s p' c' rule: sib_set.induct) (auto split: if_splits)

lemma distinct_set:
  "sib_find t s = Some (off, p, c) \<Longrightarrow> distinct (offs t) \<Longrightarrow> distinct (off # offs c') \<Longrightarrow>
     set (offs c') \<inter> set (offs t) \<subseteq> set (offs c) \<Longrightarrow> distinct (offs (sib_set t s p' c'))"
proof (induction t s p' c' rule: sib_set.induct)
  case (2 o1 l nm p1 c1 r s p' c')
  have sub: "set (offs c) \<subseteq> set (offs (if s = nm then c1 else if seg_key s < seg_key nm then l else r))"
    using "2.prems"(1) by (auto split: if_splits dest!: sib_find_offs)
  consider "s = nm" | "s \<noteq> nm" "seg_key s < seg_key nm" | "s \<noteq> nm" "\<not> seg_key s < seg_key nm" by blast
  then show ?case
  proof cases
    case 1
    with "2.prems" sub show ?thesis by (auto; blast)
  next
    case 2
    with "2.prems" have d: "distinct (offs (sib_set l s p' c'))"
      by (intro "2.IH"(1)) auto
    have "set (offs (sib_set l s p' c')) \<subseteq> set (offs l) \<union> set (offs c')"
      using 2 "2.prems"(1) by (intro offs_set) auto
    with 2 "2.prems" d sub show ?thesis by (auto; blast)
  next
    case 3
    with "2.prems" have d: "distinct (offs (sib_set r s p' c'))"
      by (intro "2.IH"(2)) auto
    have "set (offs (sib_set r s p' c')) \<subseteq> set (offs r) \<union> set (offs c')"
      using 3 "2.prems"(1) by (intro offs_set) auto
    with 3 "2.prems" d sub show ?thesis by (auto; blast)
  qed
qed simp

subsection \<open>Trees in the heap\<close>

lemma tree_at_frame:
  "tree_at h x t \<Longrightarrow> (\<And>off. off \<in> set (offs t) \<Longrightarrow> h' off = h off) \<Longrightarrow> tree_at h' x t"
proof (induction t arbitrary: x)
  case (PNode off l nm p c r)
  then show ?case by auto
qed simp

lemma tree_at_dom: "tree_at h x t \<Longrightarrow> off \<in> set (offs t) \<Longrightarrow> off \<noteq> 0 \<and> (\<exists>nd. h off = Some (TrieNode nd))"
  by (induction t arbitrary: x) auto

lemma tree_at_leaf: "tree_at h x t \<Longrightarrow> x = 0 \<longleftrightarrow> t = PLeaf"
  by (cases t) auto

lemma tree_at_root: "tree_at h x t \<Longrightarrow> x \<noteq> 0 \<Longrightarrow> x \<in> set (offs t)"
  by (cases t) auto

lemma tree_at_sib_find:
  "tree_at h x t \<Longrightarrow> sib_find t s = Some (off, p, c) \<Longrightarrow>
     \<exists>nd. h off = Some (TrieNode nd) \<and> tn_prop nd = p \<and> tree_at h (tn_children nd) c \<and> off \<noteq> 0"
  by (induction t s arbitrary: x rule: sib_find.induct) (auto split: if_splits)

definition infos_kept :: "(nat \<rightharpoonup> pa_obj) \<Rightarrow> (nat \<rightharpoonup> pa_obj) \<Rightarrow> bool" where
  "infos_kept h h' \<longleftrightarrow> (\<forall>x pi. h x = Some (Info pi) \<longrightarrow> h' x = Some (Info pi)) \<and>
     (\<forall>x s. h x = Some (LongValue s) \<longrightarrow> h' x = Some (LongValue s))"

lemma infos_kept_refl [simp]: "infos_kept h h"
  by (simp add: infos_kept_def)

lemma infos_kept_trans: "infos_kept h h' \<Longrightarrow> infos_kept h' h'' \<Longrightarrow> infos_kept h h''"
  by (simp add: infos_kept_def)

lemma infos_kept_upd:
  "(\<And>pi. h x \<noteq> Some (Info pi)) \<Longrightarrow> (\<And>s. h x \<noteq> Some (LongValue s)) \<Longrightarrow> infos_kept h (h(x \<mapsto> v))"
  by (auto simp: infos_kept_def)

lemma infos_ok_kept: "infos_ok h pre t \<Longrightarrow> infos_kept h h' \<Longrightarrow> infos_ok h' pre t"
  by (induction t arbitrary: pre) (auto simp: info_ok_def infos_kept_def)

lemma infos_ok_insert: "infos_ok h pre t \<Longrightarrow> infos_ok h pre (sib_insert t s n)"
  by (induction t s n rule: sib_insert.induct) auto

lemma infos_ok_sib_find:
  "infos_ok h pre t \<Longrightarrow> sib_find t s = Some (off, p, c) \<Longrightarrow>
     infos_ok h (pre @ [s]) c \<and> (p \<noteq> 0 \<longrightarrow> info_ok h p (join_dots (pre @ [s])))"
  by (induction t s rule: sib_find.induct) (auto split: if_splits)

lemma infos_ok_set:
  "infos_ok h pre t \<Longrightarrow> infos_ok h (pre @ [s]) c' \<Longrightarrow>
     (p' \<noteq> 0 \<Longrightarrow> info_ok h p' (join_dots (pre @ [s]))) \<Longrightarrow> infos_ok h pre (sib_set t s p' c')"
  by (induction t s p' c' rule: sib_set.induct) auto

text \<open>Replacing one node's property and children: the rest of the tree is framed.\<close>

lemma tree_at_set:
  assumes "tree_at h x t" "sib_find t s = Some (off, p, c)" "distinct (offs t)"
    and "agree_outside (insert off (set (offs c)) \<union> N) h h'" "N \<inter> set (offs t) = {}"
    and "h off = Some (TrieNode nd)"
    and "h' off = Some (TrieNode (nd\<lparr>tn_prop := p', tn_children := ch\<rparr>))" "tree_at h' ch c'"
  shows "tree_at h' x (sib_set t s p' c')"
  using assms
proof (induction t arbitrary: x)
  case (PNode o1 l nm p1 c1 r)
  have keep: "tree_at h' y u"
    if "tree_at h y u" "set (offs u) \<inter> (insert off (set (offs c)) \<union> N) = {}" for y u
    by (rule tree_at_frame [OF that(1)])
      (use that(2) PNode.prems(4) in \<open>auto simp: agree_outside_def\<close>)
  consider (eq) "s = nm" | (lt) "s \<noteq> nm" "seg_key s < seg_key nm"
    | (gt) "s \<noteq> nm" "\<not> seg_key s < seg_key nm" by blast
  then show ?case
  proof cases
    case eq
    with PNode.prems have "tree_at h' (tn_left nd) l" "tree_at h' (tn_right nd) r"
      by (auto intro!: keep)
    with eq PNode.prems show ?thesis by auto
  next
    case lt
    with PNode.prems have f: "sib_find l s = Some (off, p, c)" by simp
    note sub = sib_find_offs [OF f]
    from PNode.prems obtain nd1 where nd1: "h o1 = Some (TrieNode nd1)" "tree_at h (tn_left nd1) l"
      "tree_at h (tn_children nd1) c1" "tree_at h (tn_right nd1) r" by auto
    have "h' o1 = h o1" using PNode.prems sub by (auto simp: agree_outside_def)
    moreover have "tree_at h' (tn_children nd1) c1" "tree_at h' (tn_right nd1) r"
      using nd1 PNode.prems sub by (auto intro!: keep)
    moreover have "tree_at h' (tn_left nd1) (sib_set l s p' c')"
      using nd1 f PNode.prems by (intro PNode.IH(1)) auto
    ultimately show ?thesis using lt PNode.prems nd1 by auto
  next
    case gt
    with PNode.prems have f: "sib_find r s = Some (off, p, c)" by simp
    note sub = sib_find_offs [OF f]
    from PNode.prems obtain nd1 where nd1: "h o1 = Some (TrieNode nd1)" "tree_at h (tn_left nd1) l"
      "tree_at h (tn_children nd1) c1" "tree_at h (tn_right nd1) r" by auto
    have "h' o1 = h o1" using PNode.prems sub by (auto simp: agree_outside_def)
    moreover have "tree_at h' (tn_children nd1) c1" "tree_at h' (tn_left nd1) l"
      using nd1 PNode.prems sub by (auto intro!: keep)
    moreover have "tree_at h' (tn_right nd1) (sib_set r s p' c')"
      using nd1 f PNode.prems by (intro PNode.IH(3)) auto
    ultimately show ?thesis using gt PNode.prems nd1 by auto
  qed
qed simp


subsection \<open>Allocation\<close>

definition heap_ok :: "(nat \<rightharpoonup> pa_obj) \<Rightarrow> nat \<Rightarrow> bool" where
  "heap_ok h b \<longleftrightarrow> 0 < b \<and> (\<forall>x \<in> dom h. x < b)"

definition area_ok :: "prop_area \<Rightarrow> bool" where
  "area_ok pa \<longleftrightarrow> heap_ok (pa_data pa) (bytes_used pa) \<and> bytes_used pa \<le> pa_data_size pa \<and>
     pa_data_size pa < 2 ^ 32"

lemma heap_ok_fresh: "heap_ok h b \<Longrightarrow> b \<le> x \<Longrightarrow> h x = None"
  by (force simp: heap_ok_def dom_def)

lemma heap_ok_mono: "heap_ok h b \<Longrightarrow> b \<le> b' \<Longrightarrow> heap_ok h b'"
  unfolding heap_ok_def by (meson less_le_trans)

lemma heap_ok_upd: "heap_ok h b \<Longrightarrow> x < b' \<Longrightarrow> b \<le> b' \<Longrightarrow> heap_ok (h(x \<mapsto> v)) b'"
  by (force simp: heap_ok_def dom_def)

lemma heap_ok_tree: "heap_ok h b \<Longrightarrow> tree_at h x t \<Longrightarrow> off \<in> set (offs t) \<Longrightarrow> off < b"
  by (auto simp: heap_ok_def dest: tree_at_dom)

lemma to_prop_obj_tree:
  "area_ok pa \<Longrightarrow> tree_at (pa_data pa) x t \<Longrightarrow> x \<noteq> 0 \<Longrightarrow> to_prop_obj pa x = Some x"
  using heap_ok_tree [of "pa_data pa" "bytes_used pa" x t x] tree_at_root [of "pa_data pa" x t]
  by (auto simp: area_ok_def to_prop_obj_def)

lemma allocate_obj_cases:
  assumes "area_ok pa" "0 < sz"
  obtains (full) "allocate_obj pa sz = (pa, None)"
    | (alloc) b where "allocate_obj pa sz = (pa\<lparr>bytes_used := b\<rparr>, Some (bytes_used pa))"
        "bytes_used pa < b" "b \<le> pa_data_size pa"
proof (cases "bytes_used pa + align_up sz 4 > pa_data_size pa")
  case True
  then show ?thesis by (intro full) (simp add: allocate_obj_def)
next
  case False
  have "sz \<le> align_up sz 4" by (rule align_up_ge) simp
  with False assms show ?thesis
    by (intro alloc [of "bytes_used pa + align_up sz 4"]) (auto simp: allocate_obj_def area_ok_def)
qed

lemma new_prop_trie_node_cases:
  assumes "area_ok pa"
  obtains (full) "new_prop_trie_node pa nm nl = (pa, None)"
    | (alloc) b where "new_prop_trie_node pa nm nl =
         (pa\<lparr>bytes_used := b, pa_data := (pa_data pa)(bytes_used pa \<mapsto> TrieNode (new_trie_node nm nl))\<rparr>,
          Some (bytes_used pa))"
        "bytes_used pa < b" "b \<le> pa_data_size pa"
proof (rule allocate_obj_cases [OF assms, of "sizeof_prop_trie_node + nl + 1"])
  fix b assume "allocate_obj pa (sizeof_prop_trie_node + nl + 1) = (pa\<lparr>bytes_used := b\<rparr>, Some (bytes_used pa))"
    "bytes_used pa < b" "b \<le> pa_data_size pa"
  then show ?thesis by (intro alloc [of b]) (simp_all add: new_prop_trie_node_def store_obj_def)
qed (auto simp: new_prop_trie_node_def intro: full)

subsection \<open>Searching the siblings\<close>

lemma node_at_simps [simp]:
  "pa_data pa x = Some (TrieNode nd) \<Longrightarrow> node_at pa x = Some nd"
  by (simp add: node_at_def)

lemma find_prop_trie_node_step:
  assumes "pa_data pa x = Some (TrieNode nd)" "tn_namelen nd = length (tn_name nd)" "c_string (tn_name nd)"
    and "c_string nm" "nl \<le> length nm"
  shows "take nl nm = tn_name nd \<Longrightarrow> find_prop_trie_node pa (Some x) nm nl alloc = Some (pa, Some x)"
    and "seg_key (take nl nm) < seg_key (tn_name nd) \<Longrightarrow>
      find_prop_trie_node pa (Some x) nm nl alloc =
        (if tn_left nd \<noteq> 0 then find_prop_trie_node pa (to_prop_obj pa (tn_left nd)) nm nl alloc
         else if \<not> alloc then Some (pa, None)
         else (case new_prop_trie_node pa nm nl of
                 (pa', None) \<Rightarrow> Some (pa', None)
               | (pa', Some n) \<Rightarrow> Some (store_obj pa' x (TrieNode (nd\<lparr>tn_left := n\<rparr>)), Some n)))"
    and "seg_key (tn_name nd) < seg_key (take nl nm) \<Longrightarrow>
      find_prop_trie_node pa (Some x) nm nl alloc =
        (if tn_right nd \<noteq> 0 then find_prop_trie_node pa (to_prop_obj pa (tn_right nd)) nm nl alloc
         else if \<not> alloc then Some (pa, None)
         else (case new_prop_trie_node pa nm nl of
                 (pa', None) \<Rightarrow> Some (pa', None)
               | (pa', Some n) \<Rightarrow> Some (store_obj pa' x (TrieNode (nd\<lparr>tn_right := n\<rparr>)), Some n)))"
proof -
  note cmp = cmp_prop_name_eq [OF assms(4,3,5)] cmp_prop_name_less [OF assms(4,3,5)]
  note eqn = find_prop_trie_node.simps [of pa "Some x" nm nl alloc]
  show "take nl nm = tn_name nd \<Longrightarrow> find_prop_trie_node pa (Some x) nm nl alloc = Some (pa, Some x)"
    using assms cmp by (subst eqn) simp
  show "find_prop_trie_node pa (Some x) nm nl alloc =
        (if tn_left nd \<noteq> 0 then find_prop_trie_node pa (to_prop_obj pa (tn_left nd)) nm nl alloc
         else if \<not> alloc then Some (pa, None)
         else (case new_prop_trie_node pa nm nl of
                 (pa', None) \<Rightarrow> Some (pa', None)
               | (pa', Some n) \<Rightarrow> Some (store_obj pa' x (TrieNode (nd\<lparr>tn_left := n\<rparr>)), Some n)))"
    if lt: "seg_key (take nl nm) < seg_key (tn_name nd)"
  proof -
    have "take nl nm \<noteq> tn_name nd" using lt by auto
    with assms cmp lt show ?thesis by (subst eqn) (simp add: Let_def)
  qed
  show "find_prop_trie_node pa (Some x) nm nl alloc =
        (if tn_right nd \<noteq> 0 then find_prop_trie_node pa (to_prop_obj pa (tn_right nd)) nm nl alloc
         else if \<not> alloc then Some (pa, None)
         else (case new_prop_trie_node pa nm nl of
                 (pa', None) \<Rightarrow> Some (pa', None)
               | (pa', Some n) \<Rightarrow> Some (store_obj pa' x (TrieNode (nd\<lparr>tn_right := n\<rparr>)), Some n)))"
    if gt: "seg_key (tn_name nd) < seg_key (take nl nm)"
  proof -
    have "take nl nm \<noteq> tn_name nd" "\<not> seg_key (take nl nm) < seg_key (tn_name nd)" using gt by auto
    with assms cmp show ?thesis by (subst eqn) (simp add: Let_def)
  qed
qed

lemma tree_at_PNode_E:
  assumes "tree_at h x (PNode off l nm p c r)"
  obtains nd where "x = off" "off \<noteq> 0" "h off = Some (TrieNode nd)" "tn_name nd = nm" "nm \<noteq> []" "CHR ''.'' \<notin> set nm"
    "tn_namelen nd = length (tn_name nd)" "c_string (tn_name nd)" "tn_prop nd = p"
    "tree_at h (tn_left nd) l" "tree_at h (tn_children nd) c" "tree_at h (tn_right nd) r"
  using assms by auto

lemma tree_at_PNode_I:
  "h off = Some (TrieNode nd) \<Longrightarrow> off \<noteq> 0 \<Longrightarrow> tn_name nd \<noteq> [] \<Longrightarrow> CHR ''.'' \<notin> set (tn_name nd) \<Longrightarrow>
   c_string (tn_name nd) \<Longrightarrow> tn_namelen nd = length (tn_name nd) \<Longrightarrow> tree_at h (tn_left nd) l \<Longrightarrow> tree_at h (tn_children nd) c \<Longrightarrow>
   tree_at h (tn_right nd) r \<Longrightarrow> tree_at h off (PNode off l (tn_name nd) (tn_prop nd) c r)"
  by auto

declare tree_at.simps(2) [simp del]

lemma find_prop_trie_node_found:
  assumes "area_ok pa" "c_string nm" "nl \<le> length nm"
  shows "tree_at (pa_data pa) x t \<Longrightarrow> sib_find t (take nl nm) = Some (off, p, c) \<Longrightarrow>
    find_prop_trie_node pa (Some x) nm nl alloc = Some (pa, Some off)"
proof (induction t arbitrary: x)
  case (PNode o1 l nm1 p1 c1 r)
  from PNode.prems(1) obtain nd where nd: "x = o1" "pa_data pa o1 = Some (TrieNode nd)" "tn_name nd = nm1"
    "tn_namelen nd = length (tn_name nd)" "c_string (tn_name nd)"
    "tree_at (pa_data pa) (tn_left nd) l" "tree_at (pa_data pa) (tn_right nd) r"
    by (rule tree_at_PNode_E)
  note step = find_prop_trie_node_step [OF nd(2,4,5) assms(2,3)]
  show ?case
  proof (cases rule: linorder_cases [of "seg_key (take nl nm)" "seg_key nm1"])
    case less
    then have f: "sib_find l (take nl nm) = Some (off, p, c)" using PNode.prems(2) by (auto split: if_splits)
    then have "tn_left nd \<noteq> 0" using nd(6) tree_at_leaf by fastforce
    with less f nd show ?thesis
      using step(2) PNode.IH(1) [OF nd(6) f] to_prop_obj_tree [OF assms(1) nd(6)] by simp
  next
    case equal
    with PNode.prems(2) nd step(1) show ?thesis by simp
  next
    case greater
    then have f: "sib_find r (take nl nm) = Some (off, p, c)" using PNode.prems(2) by (auto split: if_splits)
    then have "tn_right nd \<noteq> 0" using nd(7) tree_at_leaf by fastforce
    with greater f nd show ?thesis
      using step(3) PNode.IH(3) [OF nd(7) f] to_prop_obj_tree [OF assms(1) nd(7)] by simp
  qed
qed simp


lemma find_prop_trie_node_absent:
  assumes "area_ok pa" "c_string nm" "nl \<le> length nm"
  shows "tree_at (pa_data pa) x t \<Longrightarrow> t \<noteq> PLeaf \<Longrightarrow> sib_find t (take nl nm) = None \<Longrightarrow>
    find_prop_trie_node pa (Some x) nm nl False = Some (pa, None)"
proof (induction t arbitrary: x)
  case (PNode o1 l nm1 p1 c1 r)
  from PNode.prems(1) obtain nd where nd: "x = o1" "pa_data pa o1 = Some (TrieNode nd)" "tn_name nd = nm1"
    "tn_namelen nd = length (tn_name nd)" "c_string (tn_name nd)"
    "tree_at (pa_data pa) (tn_left nd) l" "tree_at (pa_data pa) (tn_right nd) r"
    by (rule tree_at_PNode_E)
  note step = find_prop_trie_node_step [OF nd(2,4,5) assms(2,3)]
  have leaf: "tn_left nd = 0 \<longleftrightarrow> l = PLeaf" "tn_right nd = 0 \<longleftrightarrow> r = PLeaf"
    using nd tree_at_leaf by blast+
  show ?case
  proof (cases rule: linorder_cases [of "seg_key (take nl nm)" "seg_key nm1"])
    case less
    then have f: "sib_find l (take nl nm) = None" using PNode.prems(3) by (auto split: if_splits)
    with less nd leaf show ?thesis
      using step(2) PNode.IH(1) [OF nd(6)] to_prop_obj_tree [OF assms(1) nd(6)] by simp
  next
    case equal
    with PNode.prems(3) show ?thesis by simp
  next
    case greater
    then have f: "sib_find r (take nl nm) = None" using PNode.prems(3) by (auto split: if_splits)
    with greater nd leaf show ?thesis
      using step(3) PNode.IH(3) [OF nd(7)] to_prop_obj_tree [OF assms(1) nd(7)] by simp
  qed
qed simp

text \<open>
  Where the name is absent and the search may allocate, it either runs out of space or links a
  new node in at the place the name belongs.
\<close>

lemma find_prop_trie_node_full:
  assumes "area_ok pa" "c_string nm" "nl \<le> length nm" "new_prop_trie_node pa nm nl = (pa, None)"
  shows "tree_at (pa_data pa) x t \<Longrightarrow> t \<noteq> PLeaf \<Longrightarrow> sib_find t (take nl nm) = None \<Longrightarrow>
    find_prop_trie_node pa (Some x) nm nl True = Some (pa, None)"
proof (induction t arbitrary: x)
  case (PNode o1 l nm1 p1 c1 r)
  from PNode.prems(1) obtain nd where nd: "x = o1" "pa_data pa o1 = Some (TrieNode nd)" "tn_name nd = nm1"
    "tn_namelen nd = length (tn_name nd)" "c_string (tn_name nd)"
    "tree_at (pa_data pa) (tn_left nd) l" "tree_at (pa_data pa) (tn_right nd) r"
    by (rule tree_at_PNode_E)
  note step = find_prop_trie_node_step [OF nd(2,4,5) assms(2,3)]
  have leaf: "tn_left nd = 0 \<longleftrightarrow> l = PLeaf" "tn_right nd = 0 \<longleftrightarrow> r = PLeaf"
    using nd tree_at_leaf by blast+
  show ?case
  proof (cases rule: linorder_cases [of "seg_key (take nl nm)" "seg_key nm1"])
    case less
    then have f: "sib_find l (take nl nm) = None" using PNode.prems(3) by (auto split: if_splits)
    with less nd leaf assms(4) show ?thesis
      using step(2) PNode.IH(1) [OF nd(6)] to_prop_obj_tree [OF assms(1) nd(6)] by simp
  next
    case equal
    with PNode.prems(3) show ?thesis by simp
  next
    case greater
    then have f: "sib_find r (take nl nm) = None" using PNode.prems(3) by (auto split: if_splits)
    with greater nd leaf assms(4) show ?thesis
      using step(3) PNode.IH(3) [OF nd(7)] to_prop_obj_tree [OF assms(1) nd(7)] by simp
  qed
qed simp

lemma tree_at_leaf_node:
  "nl \<le> length nm \<Longrightarrow> 0 < nl \<Longrightarrow> CHR ''.'' \<notin> set (take nl nm) \<Longrightarrow> c_string nm \<Longrightarrow> h n = Some (TrieNode (new_trie_node nm nl)) \<Longrightarrow> n \<noteq> 0 \<Longrightarrow>
     tree_at h n (PNode n PLeaf (take nl nm) 0 PLeaf PLeaf)"
  by (auto simp: new_trie_node_def min_def tree_at.simps(2))

lemma find_prop_trie_node_alloc:
  fixes pa nm nl b
  defines "n \<equiv> bytes_used pa"
  defines "h1 \<equiv> (pa_data pa)(n \<mapsto> TrieNode (new_trie_node nm nl))"
  assumes "area_ok pa" "c_string nm" "nl \<le> length nm" "0 < nl" "CHR ''.'' \<notin> set (take nl nm)"
    and new: "new_prop_trie_node pa nm nl = (pa\<lparr>bytes_used := b, pa_data := h1\<rparr>, Some n)"
  shows "tree_at (pa_data pa) x t \<Longrightarrow> t \<noteq> PLeaf \<Longrightarrow> distinct (offs t) \<Longrightarrow> sib_find t (take nl nm) = None \<Longrightarrow>
    \<exists>h'. find_prop_trie_node pa (Some x) nm nl True = Some (pa\<lparr>bytes_used := b, pa_data := h'\<rparr>, Some n)
       \<and> tree_at h' x (sib_insert t (take nl nm) n) \<and> agree_outside (set (offs t)) h1 h' \<and> infos_kept h1 h'"
proof (induction t arbitrary: x)
  case (PNode o1 l nm1 p1 c1 r)
  have fresh: "n \<notin> set (offs u)" if "tree_at (pa_data pa) y u" for y u
    using heap_ok_tree [OF _ that] assms(3) by (auto simp: n_def area_ok_def)
  have n0: "n \<noteq> 0" using assms(3) by (auto simp: n_def area_ok_def heap_ok_def)
  from PNode.prems(1) obtain nd where nd: "x = o1" "pa_data pa o1 = Some (TrieNode nd)" "tn_name nd = nm1"
    "tn_namelen nd = length (tn_name nd)" "c_string (tn_name nd)"
    "tree_at (pa_data pa) (tn_left nd) l" "tree_at (pa_data pa) (tn_right nd) r"
    "tree_at (pa_data pa) (tn_children nd) c1" "o1 \<noteq> 0" "tn_prop nd = p1" "nm1 \<noteq> []" "CHR ''.'' \<notin> set nm1"
    by (rule tree_at_PNode_E)
  have keep: "tree_at h' y u"
    if "tree_at (pa_data pa) y u" "agree_outside S h1 h'" "S \<inter> set (offs u) = {}" for y u S h'
    using that fresh [OF that(1)]
    by (intro tree_at_frame [OF that(1)]) (auto simp: agree_outside_def h1_def)
  note step = find_prop_trie_node_step [OF nd(2,4,5) assms(4,5)]
  have ne: "o1 \<noteq> n" using fresh [OF PNode.prems(1)] by auto
  have leaf: "tn_left nd = 0 \<longleftrightarrow> l = PLeaf" "tn_right nd = 0 \<longleftrightarrow> r = PLeaf"
    using nd tree_at_leaf by blast+
  have h1n: "h1 n = Some (TrieNode (new_trie_node nm nl))" by (simp add: h1_def)
  have h1o: "h1 o1 = Some (TrieNode nd)" using ne nd by (simp add: h1_def)
  have new1: "tree_at (h1(o1 \<mapsto> v)) n (PNode n PLeaf (take nl nm) 0 PLeaf PLeaf)" for v
    using tree_at_leaf_node [OF assms(5,6,7,4)] h1n ne n0 by simp
  show ?case
  proof (cases rule: linorder_cases [of "seg_key (take nl nm)" "seg_key nm1"])
    case less
    then have f: "sib_find l (take nl nm) = None" and nn: "take nl nm \<noteq> nm1"
      using PNode.prems(4) by (auto split: if_splits)
    show ?thesis
    proof (cases "l = PLeaf")
      case True
      let ?h = "h1(o1 \<mapsto> TrieNode (nd\<lparr>tn_left := n\<rparr>))"
      have "tree_at ?h (tn_children nd) c1" "tree_at ?h (tn_right nd) r"
        using nd PNode.prems(3) by (auto intro!: keep [where S = "{o1}"])
      with new1 nd True have "tree_at ?h x (sib_insert (PNode o1 l nm1 p1 c1 r) (take nl nm) n)"
        using tree_at_PNode_I [of ?h o1 "nd\<lparr>tn_left := n\<rparr>"] less nn by simp
      moreover have "infos_kept h1 ?h" using h1o by (intro infos_kept_upd) auto
      moreover have "find_prop_trie_node pa (Some x) nm nl True = Some (pa\<lparr>bytes_used := b, pa_data := ?h\<rparr>, Some n)"
        using True less nd leaf step(2) [of True] new by (simp add: store_obj_def)
      moreover have "agree_outside (set (offs (PNode o1 l nm1 p1 c1 r))) h1 ?h"
        by (rule agree_outside_upd) simp
      ultimately show ?thesis by blast
    next
      case False
      with PNode.IH(1) [OF nd(6) False _ f] PNode.prems(3) obtain h' where
        h': "find_prop_trie_node pa (Some (tn_left nd)) nm nl True = Some (pa\<lparr>bytes_used := b, pa_data := h'\<rparr>, Some n)"
          "tree_at h' (tn_left nd) (sib_insert l (take nl nm) n)" "agree_outside (set (offs l)) h1 h'" "infos_kept h1 h'"
        by auto
      have "tree_at h' (tn_children nd) c1" "tree_at h' (tn_right nd) r"
        using nd PNode.prems(3) h' by (auto intro!: keep [where S = "set (offs l)"])
      moreover have "h' o1 = Some (TrieNode nd)"
        using h'(3) h1o PNode.prems(3) by (auto simp: agree_outside_def)
      ultimately have "tree_at h' x (sib_insert (PNode o1 l nm1 p1 c1 r) (take nl nm) n)"
        using tree_at_PNode_I [of h' o1 nd] h'(2) nd less nn by simp
      moreover have "find_prop_trie_node pa (Some x) nm nl True = Some (pa\<lparr>bytes_used := b, pa_data := h'\<rparr>, Some n)"
        using False less nd leaf step(2) [of True] h'(1) to_prop_obj_tree [OF assms(3) nd(6)] by simp
      moreover have "agree_outside (set (offs (PNode o1 l nm1 p1 c1 r))) h1 h'"
        using h'(3) by (rule agree_outside_mono) auto
      ultimately show ?thesis using h'(4) by blast
    qed
  next
    case equal
    with PNode.prems(4) show ?thesis by simp
  next
    case greater
    then have f: "sib_find r (take nl nm) = None" and nn: "take nl nm \<noteq> nm1" "\<not> seg_key (take nl nm) < seg_key nm1"
      using PNode.prems(4) by (auto split: if_splits)
    show ?thesis
    proof (cases "r = PLeaf")
      case True
      let ?h = "h1(o1 \<mapsto> TrieNode (nd\<lparr>tn_right := n\<rparr>))"
      have "tree_at ?h (tn_children nd) c1" "tree_at ?h (tn_left nd) l"
        using nd PNode.prems(3) by (auto intro!: keep [where S = "{o1}"])
      with new1 nd True have "tree_at ?h x (sib_insert (PNode o1 l nm1 p1 c1 r) (take nl nm) n)"
        using tree_at_PNode_I [of ?h o1 "nd\<lparr>tn_right := n\<rparr>"] greater nn by simp
      moreover have "infos_kept h1 ?h" using h1o by (intro infos_kept_upd) auto
      moreover have "find_prop_trie_node pa (Some x) nm nl True = Some (pa\<lparr>bytes_used := b, pa_data := ?h\<rparr>, Some n)"
        using True greater nd leaf step(3) [of True] new by (simp add: store_obj_def)
      moreover have "agree_outside (set (offs (PNode o1 l nm1 p1 c1 r))) h1 ?h"
        by (rule agree_outside_upd) simp
      ultimately show ?thesis by blast
    next
      case False
      with PNode.IH(3) [OF nd(7) False _ f] PNode.prems(3) obtain h' where
        h': "find_prop_trie_node pa (Some (tn_right nd)) nm nl True = Some (pa\<lparr>bytes_used := b, pa_data := h'\<rparr>, Some n)"
          "tree_at h' (tn_right nd) (sib_insert r (take nl nm) n)" "agree_outside (set (offs r)) h1 h'" "infos_kept h1 h'"
        by auto
      have "tree_at h' (tn_children nd) c1" "tree_at h' (tn_left nd) l"
        using nd PNode.prems(3) h' by (auto intro!: keep [where S = "set (offs r)"])
      moreover have "h' o1 = Some (TrieNode nd)"
        using h'(3) h1o PNode.prems(3) by (auto simp: agree_outside_def)
      ultimately have "tree_at h' x (sib_insert (PNode o1 l nm1 p1 c1 r) (take nl nm) n)"
        using tree_at_PNode_I [of h' o1 nd] h'(2) nd greater nn by simp
      moreover have "find_prop_trie_node pa (Some x) nm nl True = Some (pa\<lparr>bytes_used := b, pa_data := h'\<rparr>, Some n)"
        using False greater nd leaf step(3) [of True] h'(1) to_prop_obj_tree [OF assms(3) nd(7)] by simp
      moreover have "agree_outside (set (offs (PNode o1 l nm1 p1 c1 r))) h1 h'"
        using h'(3) by (rule agree_outside_mono) auto
      ultimately show ?thesis using h'(4) by blast
    qed
  qed
qed simp


subsection \<open>Growing the trie below a node\<close>

definition subtree :: "(nat \<rightharpoonup> pa_obj) \<Rightarrow> nat \<Rightarrow> ptree \<Rightarrow> bool" where
  "subtree h cur c \<longleftrightarrow> (\<exists>nd. h cur = Some (TrieNode nd) \<and> tree_at h (tn_children nd) c) \<and>
     distinct (cur # offs c) \<and> bst c"

text \<open>
  \<open>grows h b cur c h' b' c'\<close>: from heap \<open>h\<close> with \<open>b\<close> bytes used to \<open>h'\<close> with \<open>b'\<close>, only the trie
  below the node \<open>cur\<close> has changed, from \<open>c\<close> to \<open>c'\<close>, and no lookup in it has.
\<close>

definition grows ::
  "(nat \<rightharpoonup> pa_obj) \<Rightarrow> nat \<Rightarrow> nat \<Rightarrow> ptree \<Rightarrow> (nat \<rightharpoonup> pa_obj) \<Rightarrow> nat \<Rightarrow> ptree \<Rightarrow> bool" where
  "grows h b cur c h' b' c' \<longleftrightarrow>
     b \<le> b' \<and> heap_ok h' b' \<and> agree_outside (insert cur (set (offs c)) \<union> {b..}) h h' \<and>
     infos_kept h h' \<and> subtree h' cur c' \<and> set (offs c') \<subseteq> set (offs c) \<union> {b..} \<and>
     tfind c' = tfind c \<and>
     (\<exists>nd ch. h cur = Some (TrieNode nd) \<and> h' cur = Some (TrieNode (nd\<lparr>tn_children := ch\<rparr>))) \<and>
     (\<forall>g pre. infos_ok g pre c \<longrightarrow> infos_ok g pre c')"

lemma node_children_same [simp]: "\<exists>ch. nd = nd\<lparr>tn_children := ch\<rparr>"
  by (rule exI [of _ "tn_children nd"]) simp

lemma grows_refl: "heap_ok h b \<Longrightarrow> subtree h cur c \<Longrightarrow> grows h b cur c h b c"
proof -
  assume "heap_ok h b" "subtree h cur c"
  moreover from this obtain nd where "h cur = Some (TrieNode nd)" by (auto simp: subtree_def)
  ultimately show ?thesis unfolding grows_def by auto
qed

lemma grows_trans:
  assumes "grows h b cur c h1 b1 c1" "grows h1 b1 cur c1 h2 b2 c2"
  shows "grows h b cur c h2 b2 c2"
proof -
  have "agree_outside (insert cur (set (offs c)) \<union> {b..}) h h2"
    using assms by (auto simp: grows_def agree_outside_def)
  moreover have "infos_kept h h2" using assms by (auto simp: grows_def intro: infos_kept_trans)
  moreover have "\<exists>nd ch. h cur = Some (TrieNode nd) \<and> h2 cur = Some (TrieNode (nd\<lparr>tn_children := ch\<rparr>))"
    using assms by (fastforce simp: grows_def)
  ultimately show ?thesis using assms unfolding grows_def by auto
qed

lemma tfind_sib_set_same:
  assumes "sib_find c s = Some (off, p, cc)" "tfind cc' = tfind cc"
  shows "tfind (sib_set c s p cc') = tfind c"
proof
  fix q show "tfind (sib_set c s p cc') q = tfind c q"
    using assms by (cases q) (auto simp: sib_find_set)
qed

lemma grows_child:
  assumes sub: "subtree h cur c" and f: "sib_find c s = Some (off, p, cc)"
    and ok: "heap_ok h b" and g: "grows h b off cc h' b' cc'"
  shows "grows h b cur c h' b' (sib_set c s p cc')"
proof -
  from sub obtain ndc where ndc: "h cur = Some (TrieNode ndc)" "tree_at h (tn_children ndc) c"
    and d: "distinct (cur # offs c)" and bc: "bst c" by (auto simp: subtree_def)
  from tree_at_sib_find [OF ndc(2) f] obtain nd where
    nd: "h off = Some (TrieNode nd)" "tn_prop nd = p" by auto
  from g obtain ch where ch: "h' off = Some (TrieNode (nd\<lparr>tn_children := ch\<rparr>))"
    using nd by (auto simp: grows_def)
  have t': "tree_at h' ch cc'" "bst cc'" and d': "distinct (off # offs cc')"
    using g ch by (auto simp: grows_def subtree_def)
  have ag: "agree_outside (insert off (set (offs cc)) \<union> {b..}) h h'" using g by (simp add: grows_def)
  have below: "{b..} \<inter> set (offs c) = {}" "cur < b"
    using heap_ok_tree [OF ok ndc(2)] ok ndc(1) by (fastforce simp: heap_ok_def dom_def)+
  have offs': "set (offs cc') \<subseteq> set (offs cc) \<union> {b..}" using g by (simp add: grows_def)
  note sub' = sib_find_offs [OF f]
  have cur': "h' cur = h cur" using ag d sub' below by (auto simp: agree_outside_def)
  have "nd\<lparr>tn_children := ch\<rparr> = nd\<lparr>tn_prop := p, tn_children := ch\<rparr>" using nd(2) by simp
  with ch have "tree_at h' (tn_children ndc) (sib_set c s p cc')"
    using tree_at_set [OF ndc(2) f _ ag below(1) nd(1) _ t'(1)] d by simp
  moreover have "distinct (offs (sib_set c s p cc'))"
    using distinct_set [OF f _ d'] d offs' below(1) by auto
  moreover have "cur \<notin> set (offs (sib_set c s p cc'))"
    using offs_set [OF f, of p cc'] offs' sub' d below(2) by auto
  ultimately have "subtree h' cur (sib_set c s p cc')"
    using cur' ndc bst_set [OF bc t'(2)] by (simp add: subtree_def)
  moreover have "agree_outside (insert cur (set (offs c)) \<union> {b..}) h h'"
    using ag by (rule agree_outside_mono) (use sub' in auto)
  moreover have "set (offs (sib_set c s p cc')) \<subseteq> set (offs c) \<union> {b..}"
    using offs_set [OF f, of p cc'] offs' sub' by auto
  moreover have "tfind (sib_set c s p cc') = tfind c"
    using f g by (intro tfind_sib_set_same) (auto simp: grows_def)
  moreover have "infos_ok gg pre (sib_set c s p cc')" if "infos_ok gg pre c" for gg pre
    using infos_ok_sib_find [OF that f] g by (intro infos_ok_set [OF that]) (auto simp: grows_def)
  ultimately show ?thesis
    using g cur' ndc(1) unfolding grows_def by auto
qed

definition level ::
  "prop_area \<Rightarrow> nat \<Rightarrow> prop_trie_node \<Rightarrow> string \<Rightarrow> nat \<Rightarrow> bool \<Rightarrow> (prop_area \<times> nat option) option" where
  "level pa cur nd rem k alloc =
     (case children_root pa cur nd rem k alloc of
        (pa', None) \<Rightarrow> Some (pa', None)
      | (pa', Some root) \<Rightarrow> find_prop_trie_node pa' (Some root) rem k alloc)"

lemma subtree_insert:
  assumes "subtree h cur c" "heap_ok h b" "sib_find c s = None" "b < b'" "0 < b"
    and "tree_at h' ch (sib_insert c s b)" "agree_outside (insert cur (set (offs c)) \<union> {b}) h h'"
    and "infos_kept h h'" "heap_ok h' b'"
    and "h cur = Some (TrieNode nd)" "h' cur = Some (TrieNode (nd\<lparr>tn_children := ch\<rparr>))"
  shows "grows h b cur c h' b' (sib_insert c s b)"
proof -
  have fresh: "b \<notin> set (offs c)" "b \<noteq> cur"
    using assms(1,2) heap_ok_tree [OF assms(2)] by (fastforce simp: subtree_def heap_ok_def dom_def)+
  have "agree_outside (insert cur (set (offs c)) \<union> {b..}) h h'"
    using assms(7) by (rule agree_outside_mono) auto
  moreover have "subtree h' cur (sib_insert c s b)"
    using assms fresh bst_insert distinct_insert [OF assms(3)] offs_insert [OF assms(3), of b]
    by (auto simp: subtree_def)
  moreover have "tfind (sib_insert c s b) = tfind c" by (rule ext) simp
  ultimately show ?thesis
    using assms offs_insert [OF assms(3), of b] infos_ok_insert unfolding grows_def by auto
qed


lemma level_find:
  assumes ok: "area_ok pa" and "pa_data pa cur = Some (TrieNode nd)" "tree_at (pa_data pa) (tn_children nd) c"
    and "c_string rem" "k \<le> length rem"
  shows "level pa cur nd rem k False = Some (pa, map_option fst (sib_find c (take k rem)))"
proof (cases "tn_children nd = 0")
  case True
  with tree_at_leaf [OF assms(3)] have "c = PLeaf" by simp
  with True show ?thesis by (simp add: level_def children_root_def)
next
  case False
  with tree_at_leaf [OF assms(3)] have ne: "c \<noteq> PLeaf" by simp
  have root: "to_prop_obj pa (tn_children nd) = Some (tn_children nd)"
    using to_prop_obj_tree [OF ok assms(3) False] .
  show ?thesis
  proof (cases "sib_find c (take k rem)")
    case None
    with find_prop_trie_node_absent [OF ok assms(4,5,3) ne] False root show ?thesis
      by (simp add: level_def children_root_def)
  next
    case (Some r)
    obtain off p cc where r: "r = (off, p, cc)" by (cases r)
    with find_prop_trie_node_found [OF ok assms(4,5,3)] Some False root show ?thesis
      by (simp add: level_def children_root_def)
  qed
qed

lemma level_found:
  assumes ok: "area_ok pa" and "tree_at (pa_data pa) (tn_children nd) c" "c_string rem" "k \<le> length rem"
    and f: "sib_find c (take k rem) = Some (off, p, cc)"
  shows "level pa cur nd rem k alloc = Some (pa, Some off)"
proof -
  have "tn_children nd \<noteq> 0" using f tree_at_leaf [OF assms(2)] by fastforce
  then show ?thesis
    using find_prop_trie_node_found [OF ok assms(3,4,2) f] to_prop_obj_tree [OF ok assms(2)]
    by (simp add: level_def children_root_def)
qed

lemma level_alloc:
  assumes ok: "area_ok pa" and sub: "subtree (pa_data pa) cur c"
    and nd: "pa_data pa cur = Some (TrieNode nd)"
    and rem: "c_string rem" "k \<le> length rem" "0 < k" "CHR ''.'' \<notin> set (take k rem)"
  shows "\<exists>h' b' c' res. level pa cur nd rem k True = Some (pa\<lparr>bytes_used := b', pa_data := h'\<rparr>, res) \<and>
    b' \<le> pa_data_size pa \<and> grows (pa_data pa) (bytes_used pa) cur c h' b' c' \<and>
    (\<forall>off. res = Some off \<longrightarrow> (\<exists>p cc. sib_find c' (take k rem) = Some (off, p, cc)))"
proof -
  let ?h = "pa_data pa" and ?b = "bytes_used pa" and ?s = "take k rem"
  from sub nd have t: "tree_at ?h (tn_children nd) c" and d: "distinct (cur # offs c)"
    by (auto simp: subtree_def)
  have hok: "heap_ok ?h ?b" "?b \<le> pa_data_size pa" using ok by (auto simp: area_ok_def)
  have same: "pa\<lparr>bytes_used := ?b, pa_data := ?h\<rparr> = pa" by simp
  have refl: "grows ?h ?b cur c ?h ?b c" using grows_refl [OF hok(1) sub] .
  have cur_b: "cur < ?b" "cur \<noteq> ?b" using hok nd by (fastforce simp: heap_ok_def dom_def)+
  have noroom: ?thesis if "level pa cur nd rem k True = Some (pa, None)"
  proof -
    from that same have "level pa cur nd rem k True = Some (pa\<lparr>bytes_used := ?b, pa_data := ?h\<rparr>, None)"
      by (simp only:)
    with refl hok(2) show ?thesis by blast
  qed
  show ?thesis
  proof (cases "sib_find c ?s")
    case (Some r)
    obtain off p cc where r: "r = (off, p, cc)" by (cases r)
    have "level pa cur nd rem k True = Some (pa, Some off)"
      using level_found [OF ok t rem(1,2)] Some r by simp
    with same have "level pa cur nd rem k True = Some (pa\<lparr>bytes_used := ?b, pa_data := ?h\<rparr>, Some off)"
      by (simp only:)
    with refl hok(2) Some r show ?thesis by blast
  next
    case None
    show ?thesis
    proof (rule new_prop_trie_node_cases [OF ok, of rem k])
      assume full: "new_prop_trie_node pa rem k = (pa, None)"
      show ?thesis
      proof (rule noroom, cases "tn_children nd = 0")
        case True
        with full show "level pa cur nd rem k True = Some (pa, None)" by (simp add: level_def children_root_def)
      next
        case False
        with find_prop_trie_node_full [OF ok rem(1,2) full t] None to_prop_obj_tree [OF ok t] tree_at_leaf [OF t]
        show "level pa cur nd rem k True = Some (pa, None)" by (simp add: level_def children_root_def)
      qed
    next
      fix b
      let ?h1 = "?h(?b \<mapsto> TrieNode (new_trie_node rem k))"
      assume new: "new_prop_trie_node pa rem k = (pa\<lparr>bytes_used := b, pa_data := ?h1\<rparr>, Some ?b)"
        and b: "?b < b" "b \<le> pa_data_size pa"
      have pos: "0 < ?b" using hok by (simp add: heap_ok_def)
      have kept1: "infos_kept ?h ?h1" using heap_ok_fresh [OF hok(1)] by (intro infos_kept_upd) simp_all
      have hok1: "heap_ok ?h1 b" using heap_ok_upd [OF hok(1), of ?b b] b by simp
      have found: "sib_find (sib_insert c ?s ?b) ?s = Some (?b, 0, PLeaf)"
        using None by (simp add: sib_find_insert)
      have "\<exists>h'. level pa cur nd rem k True = Some (pa\<lparr>bytes_used := b, pa_data := h'\<rparr>, Some ?b) \<and>
          grows ?h ?b cur c h' b (sib_insert c ?s ?b)"
      proof (cases "tn_children nd = 0")
        case True
        then have c: "c = PLeaf" using tree_at_leaf [OF t] by simp
        let ?h2 = "?h1(cur \<mapsto> TrieNode (nd\<lparr>tn_children := ?b\<rparr>))"
        let ?pa2 = "pa\<lparr>bytes_used := b, pa_data := ?h2\<rparr>"
        have hok2: "heap_ok ?h2 b" by (rule heap_ok_upd [OF hok1]) (use cur_b b in auto)
        have t2: "tree_at ?h2 ?b (PNode ?b PLeaf ?s 0 PLeaf PLeaf)"
          using tree_at_leaf_node [OF rem(2,3,4,1)] cur_b pos by simp
        have ok2: "area_ok ?pa2" using ok b hok2 by (simp add: area_ok_def)
        have "find_prop_trie_node ?pa2 (Some ?b) rem k True = Some (?pa2, Some ?b)"
          using find_prop_trie_node_found [OF ok2 rem(1,2), of ?b "PNode ?b PLeaf ?s 0 PLeaf PLeaf"] t2 by simp
        then have lv: "level pa cur nd rem k True = Some (?pa2, Some ?b)"
          using True new by (simp add: level_def children_root_def store_obj_def)
        have "infos_kept ?h1 ?h2" using nd cur_b by (intro infos_kept_upd) auto
        then have "infos_kept ?h ?h2" using kept1 infos_kept_trans by blast
        moreover have "agree_outside (insert cur (set (offs c)) \<union> {?b}) ?h ?h2"
          by (auto simp: agree_outside_def)
        moreover have "tree_at ?h2 ?b (sib_insert c ?s ?b)" using t2 c by simp
        ultimately have "grows ?h ?b cur c ?h2 b (sib_insert c ?s ?b)"
          using subtree_insert [OF sub hok(1) None b(1) pos, of ?h2 ?b] hok2 nd by simp
        with lv show ?thesis by blast
      next
        case False
        then have c: "c \<noteq> PLeaf" using tree_at_leaf [OF t] by simp
        obtain h' where h': "find_prop_trie_node pa (Some (tn_children nd)) rem k True =
            Some (pa\<lparr>bytes_used := b, pa_data := h'\<rparr>, Some ?b)"
          "tree_at h' (tn_children nd) (sib_insert c ?s ?b)" "agree_outside (set (offs c)) ?h1 h'" "infos_kept ?h1 h'"
          using find_prop_trie_node_alloc [OF ok rem new t c _ None] d by auto
        have lv: "level pa cur nd rem k True = Some (pa\<lparr>bytes_used := b, pa_data := h'\<rparr>, Some ?b)"
          using False h'(1) to_prop_obj_tree [OF ok t] by (simp add: level_def children_root_def)
        have ag: "agree_outside (insert cur (set (offs c)) \<union> {?b}) ?h h'"
          using h'(3) by (auto simp: agree_outside_def)
        have kept: "infos_kept ?h h'" using kept1 h'(4) infos_kept_trans by blast
        have "x < b" if "h' x = Some v" for x v
          using that h'(3) hok1 heap_ok_tree [OF hok(1) t, of x] b
          by (cases "x \<in> set (offs c)") (fastforce simp: agree_outside_def heap_ok_def dom_def)+
        then have hok': "heap_ok h' b" using hok1 by (auto simp: heap_ok_def)
        have "h' cur = Some (TrieNode (nd\<lparr>tn_children := tn_children nd\<rparr>))"
          using h'(3) d nd cur_b by (auto simp: agree_outside_def)
        with subtree_insert [OF sub hok(1) None b(1) pos h'(2) ag kept hok' nd] lv show ?thesis by blast
      qed
      with b(2) found show ?thesis by blast
    qed
  qed
qed


subsection \<open>The search along a dotted name\<close>

lemma find_property_loop_level:
  assumes "pa_data pa cur = Some (TrieNode nd)"
  shows "find_property_loop pa cur rem alloc =
    (let sep = strchr rem (CHR ''.''); k = (case sep of Some n \<Rightarrow> n | None \<Rightarrow> length rem) in
     if k = 0 then Some (pa, None)
     else Option.bind (level pa cur nd rem k alloc)
       (\<lambda>(pa', found). case found of None \<Rightarrow> Some (pa', None)
          | Some cur' \<Rightarrow> (case sep of None \<Rightarrow> Some (pa', Some cur')
                | Some n \<Rightarrow> find_property_loop pa' cur' (drop (n + 1) rem) alloc)))"
  using assms by (subst find_property_loop.simps) (simp add: level_def Let_def split: prod.split option.split)

lemma sib_find_Nil: "tree_at h x t \<Longrightarrow> sib_find t [] = None"
  by (induction t arbitrary: x) (auto elim!: tree_at_PNode_E)

lemma strchr_Some_less: "strchr s c = Some n \<Longrightarrow> n < length s"
  by (auto simp: strchr_def Let_def split: if_splits)

lemma strchr_take: "strchr s c = Some n \<Longrightarrow> c \<notin> set (take n s)"
  by (auto simp: strchr_def Let_def takeWhile_eq_take [symmetric] split: if_splits dest: set_takeWhileD)

lemma segs_Some: "strchr s (CHR ''.'') = Some n \<Longrightarrow> segs s = take n s # segs (drop (n + 1) s)"
  by (subst segs.simps) simp

lemma segs_None: "strchr s (CHR ''.'') = None \<Longrightarrow> segs s = [s]"
  by (subst segs.simps) (simp del: strchr_None)

lemma find_property_loop_find:
  assumes "area_ok pa"
  shows "c_string rem \<Longrightarrow> pa_data pa cur = Some (TrieNode nd) \<Longrightarrow> tree_at (pa_data pa) (tn_children nd) c \<Longrightarrow>
    find_property_loop pa cur rem False = Some (pa, tnode c (segs rem))"
proof (induction rem arbitrary: cur nd c rule: segs.induct)
  case (1 rem)
  note lp = find_property_loop_level [OF "1.prems"(2)]
  note lv = level_find [OF assms "1.prems"(2,3,1)]
  have nil: "sib_find c [] = None" using sib_find_Nil "1.prems"(3) .
  show ?case
  proof (cases "strchr rem (CHR ''.'')")
    case None
    then show ?thesis using lv [of "length rem"] nil
      by (auto simp: lp segs_None Let_def simp del: strchr_None split: option.splits)
  next
    case (Some n)
    then have n: "n < length rem" by (rule strchr_Some_less)
    show ?thesis
    proof (cases "sib_find c (take n rem)")
      case None
      with Some n lv [of n] show ?thesis by (simp add: lp segs_Some Let_def)
    next
      case (Some r)
      then obtain off p cc where r: "sib_find c (take n rem) = Some (off, p, cc)" by (cases r) auto
      from tree_at_sib_find [OF "1.prems"(3) r] obtain nd' where
        nd': "pa_data pa off = Some (TrieNode nd')" "tree_at (pa_data pa) (tn_children nd') cc" by auto
      have "n \<noteq> 0" using r nil by (cases n) auto
      with \<open>strchr rem (CHR ''.'') = Some n\<close> n lv [of n] r show ?thesis
        using "1.IH" [OF \<open>strchr rem (CHR ''.'') = Some n\<close> _ nd'] "1.prems"(1)
        by (simp add: lp segs_Some Let_def)
    qed
  qed
qed

lemma find_property_loop_existing:
  assumes "area_ok pa"
  shows "c_string rem \<Longrightarrow> pa_data pa cur = Some (TrieNode nd) \<Longrightarrow> tree_at (pa_data pa) (tn_children nd) c \<Longrightarrow>
    tnode c (segs rem) = Some n \<Longrightarrow> find_property_loop pa cur rem alloc = Some (pa, Some n)"
proof (induction rem arbitrary: cur nd c rule: segs.induct)
  case (1 rem)
  note lp = find_property_loop_level [OF "1.prems"(2)]
  have nil: "sib_find c [] = None" using sib_find_Nil "1.prems"(3) .
  note lv = level_found [OF assms "1.prems"(3,1)]
  show ?case
  proof (cases "strchr rem (CHR ''.'')")
    case None
    with "1.prems"(4) obtain p cc where f: "sib_find c rem = Some (n, p, cc)"
      by (auto simp: segs_None simp del: strchr_None split: option.splits)
    moreover have "rem \<noteq> []" using f nil by auto
    ultimately show ?thesis using None lv [of "length rem"] by (simp add: lp Let_def del: strchr_None)
  next
    case (Some k)
    with "1.prems"(4) obtain off p cc where f: "sib_find c (take k rem) = Some (off, p, cc)"
      and tn: "tnode cc (segs (drop (k + 1) rem)) = Some n"
      by (auto simp: segs_Some split: option.splits)
    from tree_at_sib_find [OF "1.prems"(3) f] obtain nd' where
      nd': "pa_data pa off = Some (TrieNode nd')" "tree_at (pa_data pa) (tn_children nd') cc" by auto
    have "k \<noteq> 0" using f nil by (cases k) auto
    then show ?thesis
      using Some strchr_Some_less [OF Some] lv [OF _ f] "1.IH" [OF Some _ nd' tn] "1.prems"(1)
      by (simp add: lp Let_def)
  qed
qed

lemma find_property_loop_alloc:
  "area_ok pa \<Longrightarrow> c_string rem \<Longrightarrow> subtree (pa_data pa) cur c \<Longrightarrow>
    \<exists>h' b' c' res. find_property_loop pa cur rem True = Some (pa\<lparr>bytes_used := b', pa_data := h'\<rparr>, res) \<and>
      b' \<le> pa_data_size pa \<and> grows (pa_data pa) (bytes_used pa) cur c h' b' c' \<and>
      (\<forall>n. res = Some n \<longrightarrow> tnode c' (segs rem) = Some n)"
proof (induction rem arbitrary: pa cur c rule: segs.induct)
  case (1 rem)
  from "1.prems"(3) obtain nd where nd: "pa_data pa cur = Some (TrieNode nd)" by (auto simp: subtree_def)
  note lp = find_property_loop_level [OF nd]
  note lv = level_alloc [OF "1.prems"(1,3) nd "1.prems"(2)]
  define k where "k = (case strchr rem (CHR ''.'') of Some n \<Rightarrow> n | None \<Rightarrow> length rem)"
  show ?case
  proof (cases "k = 0")
    case True
    then have "find_property_loop pa cur rem True = Some (pa\<lparr>bytes_used := bytes_used pa, pa_data := pa_data pa\<rparr>, None)"
      by (simp add: lp k_def Let_def)
    moreover have "grows (pa_data pa) (bytes_used pa) cur c (pa_data pa) (bytes_used pa) c"
      using grows_refl "1.prems" by (simp add: area_ok_def)
    ultimately show ?thesis using "1.prems"(1) unfolding area_ok_def by blast
  next
    case False
    have kl: "k \<le> length rem" by (auto simp: k_def split: option.split dest!: strchr_Some_less)
    have dot: "CHR ''.'' \<notin> set (take k rem)"
      by (auto simp: k_def split: option.splits dest: strchr_take in_set_takeD)
    from lv [OF kl _ dot] False obtain h1 b1 c1 res1 where
      l1: "level pa cur nd rem k True = Some (pa\<lparr>bytes_used := b1, pa_data := h1\<rparr>, res1)"
      and b1: "b1 \<le> pa_data_size pa" and g1: "grows (pa_data pa) (bytes_used pa) cur c h1 b1 c1"
      and r1: "\<And>off. res1 = Some off \<Longrightarrow> \<exists>p cc. sib_find c1 (take k rem) = Some (off, p, cc)" by blast
    have ok1: "area_ok (pa\<lparr>bytes_used := b1, pa_data := h1\<rparr>)"
      using "1.prems"(1) b1 g1 by (auto simp: area_ok_def grows_def)
    show ?thesis
    proof (cases res1)
      case None
      with l1 False have "find_property_loop pa cur rem True = Some (pa\<lparr>bytes_used := b1, pa_data := h1\<rparr>, None)"
        by (simp add: lp k_def Let_def)
      with b1 g1 show ?thesis by blast
    next
      case (Some off)
      from r1 [OF this] obtain p cc where f: "sib_find c1 (take k rem) = Some (off, p, cc)" by blast
      show ?thesis
      proof (cases "strchr rem (CHR ''.'')")
        case None
        with l1 Some False have "find_property_loop pa cur rem True = Some (pa\<lparr>bytes_used := b1, pa_data := h1\<rparr>, Some off)"
          by (simp add: lp k_def Let_def del: strchr_None)
        moreover have "tnode c1 (segs rem) = Some off" using f None by (simp add: segs_None k_def del: strchr_None)
        ultimately show ?thesis using b1 g1 by blast
      next
        case sep: (Some n)
        then have kn: "k = n" by (simp add: k_def)
        let ?pa1 = "pa\<lparr>bytes_used := b1, pa_data := h1\<rparr>"
        have sub1: "subtree h1 cur c1" using g1 by (simp add: grows_def)
        then obtain nd1 :: prop_trie_node where "tree_at h1 (tn_children nd1) c1" "distinct (offs c1)" "bst c1"
          by (auto simp: subtree_def)
        with f have "subtree (pa_data ?pa1) off cc"
          using tree_at_sib_find sib_find_distinct bst_sib_find by (fastforce simp: subtree_def)
        from "1.IH" [OF sep ok1 _ this] "1.prems"(2) obtain h2 b2 cc2 res2 where
          l2: "find_property_loop ?pa1 off (drop (n + 1) rem) True = Some (pa\<lparr>bytes_used := b2, pa_data := h2\<rparr>, res2)"
          and b2: "b2 \<le> pa_data_size pa" and g2: "grows h1 b1 off cc h2 b2 cc2"
          and r2: "\<And>m. res2 = Some m \<Longrightarrow> tnode cc2 (segs (drop (n + 1) rem)) = Some m" by auto
        have "heap_ok h1 b1" using g1 by (simp add: grows_def)
        from grows_trans [OF g1 grows_child [OF sub1 f this g2]]
        have g: "grows (pa_data pa) (bytes_used pa) cur c h2 b2 (sib_set c1 (take k rem) p cc2)" .
        have "find_property_loop pa cur rem True = Some (pa\<lparr>bytes_used := b2, pa_data := h2\<rparr>, res2)"
          using l1 l2 Some sep kn False by (simp add: lp k_def Let_def)
        moreover have "tnode (sib_set c1 (take k rem) p cc2) (segs rem) = tnode cc2 (segs (drop (n + 1) rem))"
          using f kn by (simp add: segs_Some [OF sep] sib_find_set)
        ultimately show ?thesis using b2 g r2 by metis
      qed
    qed
  qed
qed


subsection \<open>Storing the property\<close>

lemma tnode_in_offs: "tnode c ss = Some n \<Longrightarrow> n \<in> set (offs c)"
proof (induction ss arbitrary: c)
  case (Cons s ss)
  then show ?case by (fastforce split: option.splits if_splits dest: sib_find_offs)
qed simp

lemma tnode_prop:
  "tree_at h x c \<Longrightarrow> tnode c ss = Some n \<Longrightarrow> \<exists>nd. h n = Some (TrieNode nd) \<and> tn_prop nd = tfind c ss"
proof (induction ss arbitrary: c x)
  case (Cons s ss)
  from Cons.prems(2) obtain off p cc where f: "sib_find c s = Some (off, p, cc)" by (auto split: option.splits)
  from tree_at_sib_find [OF Cons.prems(1) f] Cons f show ?case by (auto split: if_splits)
qed simp

lemma tnode_None_tfind: "tnode c ss = None \<Longrightarrow> tfind c ss = 0"
proof (induction ss arbitrary: c)
  case (Cons s ss)
  then show ?case by (auto split: option.splits if_splits)
qed simp

lemma subtree_tset:
  fixes h n nd q
  defines "h' \<equiv> h(n \<mapsto> TrieNode (nd\<lparr>tn_prop := q\<rparr>))"
  assumes n: "h n = Some (TrieNode nd)"
  shows "subtree h cur c \<Longrightarrow> tnode c ss = Some n \<Longrightarrow>
    subtree h' cur (tset c ss q) \<and> set (offs (tset c ss q)) \<subseteq> set (offs c)"
proof (induction ss arbitrary: c cur)
  case (Cons s ss)
  from Cons.prems(2) obtain off p cc where f: "sib_find c s = Some (off, p, cc)"
    and rest: "if ss = [] then n = off else tnode cc ss = Some n" by (auto split: option.splits if_splits)
  from Cons.prems(1) obtain ndc where ndc: "h cur = Some (TrieNode ndc)" "tree_at h (tn_children ndc) c"
    and d: "distinct (cur # offs c)" and bc: "bst c" by (auto simp: subtree_def)
  from tree_at_sib_find [OF ndc(2) f] obtain nd1 where
    nd1: "h off = Some (TrieNode nd1)" "tn_prop nd1 = p" "tree_at h (tn_children nd1) cc" by auto
  note sub = sib_find_offs [OF f] and dcc = sib_find_distinct [OF f]
  define p' where "p' = (if ss = [] then q else p)"
  define cc' where "cc' = (if ss = [] then cc else tset cc ss q)"
  have eq: "tset c (s # ss) q = sib_set c s p' cc'" using f by (simp add: p'_def cc'_def)
  have nin: "n \<in> insert off (set (offs cc))" using rest tnode_in_offs by (auto split: if_splits)
  have step: "h' off = Some (TrieNode (nd1\<lparr>tn_prop := p', tn_children := tn_children nd1\<rparr>)) \<and>
      tree_at h' (tn_children nd1) cc' \<and> bst cc' \<and> distinct (off # offs cc') \<and> set (offs cc') \<subseteq> set (offs cc)"
  proof (cases "ss = []")
    case True
    with rest n nd1 have "tree_at h' (tn_children nd1) cc"
      using dcc d by (intro tree_at_frame [OF nd1(3)]) (auto simp: h'_def)
    with True rest n nd1 dcc d bst_sib_find [OF bc f] show ?thesis by (auto simp: h'_def p'_def cc'_def)
  next
    case False
    with rest have tn: "tnode cc ss = Some n" by simp
    have "subtree h off cc" using nd1 dcc d bst_sib_find [OF bc f] by (auto simp: subtree_def)
    from Cons.IH [OF this tn] have IH: "subtree h' off (tset cc ss q)" "set (offs (tset cc ss q)) \<subseteq> set (offs cc)"
      by auto
    have "n \<noteq> off" using tnode_in_offs [OF tn] dcc d by auto
    then have "h' off = Some (TrieNode nd1)" using nd1 by (simp add: h'_def)
    with IH nd1(2) False show ?thesis by (auto simp: subtree_def p'_def cc'_def)
  qed
  have ag: "agree_outside (insert off (set (offs cc)) \<union> {}) h h'" using nin by (simp add: h'_def)
  have "tree_at h' (tn_children ndc) (sib_set c s p' cc')"
    by (rule tree_at_set [OF ndc(2) f _ ag _ nd1(1), where ch = "tn_children nd1"]) (use step d in auto)
  moreover have "h' cur = h cur" using nin sub d by (auto simp: h'_def)
  moreover have "distinct (offs (sib_set c s p' cc'))" using distinct_set [OF f] d step by auto
  moreover have "set (offs (sib_set c s p' cc')) \<subseteq> set (offs c)" using offs_set [OF f] step sub by blast
  ultimately show ?case using eq ndc bst_set [OF bc] step d by (auto simp: subtree_def)
qed simp

lemma infos_ok_tset:
  "infos_ok h pre c \<Longrightarrow> tnode c ss = Some n \<Longrightarrow> info_ok h q (join_dots (pre @ ss)) \<Longrightarrow> infos_ok h pre (tset c ss q)"
proof (induction ss arbitrary: c pre)
  case (Cons s ss)
  from Cons.prems(2) obtain off p cc where f: "sib_find c s = Some (off, p, cc)" by (auto split: option.splits)
  show ?case
  proof (cases "ss = []")
    case True
    with Cons f infos_ok_sib_find [OF Cons.prems(1) f] show ?thesis by (auto intro!: infos_ok_set)
  next
    case False
    with Cons.prems(2) f have "tnode cc ss = Some n" by simp
    from Cons.IH [of "pre @ [s]" cc, OF _ this] infos_ok_sib_find [OF Cons.prems(1) f] Cons.prems(3)
    have "infos_ok h (pre @ [s]) (tset cc ss q)" by simp
    with f False infos_ok_sib_find [OF Cons.prems(1) f] Cons.prems(1) show ?thesis by (auto intro!: infos_ok_set)
  qed
qed simp


lemma new_prop_info_cases:
  assumes ok: "area_ok pa" and v: "valuelen + 1 < 2 ^ 32"
  obtains (full) b where "new_prop_info pa nm namelen v valuelen = (pa\<lparr>bytes_used := b\<rparr>, None)"
      "bytes_used pa \<le> b" "b \<le> pa_data_size pa"
    | (new) b g pi where "new_prop_info pa nm namelen v valuelen =
          (pa\<lparr>bytes_used := b, pa_data := g\<rparr>, Some (bytes_used pa))"
      "bytes_used pa < b" "b \<le> pa_data_size pa" "heap_ok g b"
      "agree_outside {bytes_used pa..} (pa_data pa) g"
      "g (bytes_used pa) = Some (Info pi)" "pi_name pi = take namelen nm"
      "if valuelen < PROP_VALUE_MAX then pi = prop_info_short nm namelen v valuelen
       else \<exists>d. pi = prop_info_long nm namelen d \<and> g (bytes_used pa + d) = Some (LongValue (take valuelen v))"
proof (rule allocate_obj_cases [OF ok, of "sizeof_prop_info + namelen + 1"])
  assume "allocate_obj pa (sizeof_prop_info + namelen + 1) = (pa, None)"
  then show ?thesis
    using ok by (intro full [of "bytes_used pa"]) (auto simp: new_prop_info_def area_ok_def)
next
  fix b
  let ?b = "bytes_used pa" and ?pa1 = "pa\<lparr>bytes_used := b\<rparr>"
  assume a: "allocate_obj pa (sizeof_prop_info + namelen + 1) = (?pa1, Some ?b)"
    and b: "?b < b" "b \<le> pa_data_size pa"
  have hok: "heap_ok (pa_data pa) ?b" using ok by (simp add: area_ok_def)
  then have hok1: "heap_ok (pa_data pa) b" by (rule heap_ok_mono) (use b in simp)
  show ?thesis
  proof (cases "valuelen < PROP_VALUE_MAX")
    case True
    let ?pi = "prop_info_short nm namelen v valuelen"
    have "heap_ok ((pa_data pa)(?b \<mapsto> Info ?pi)) b"
      using heap_ok_upd [OF hok1, of ?b b] b by simp
    moreover have "pi_name ?pi = take namelen nm" by (simp add: prop_info_short_def)
    ultimately show ?thesis using True a b
      by (intro new [where b = b and g = "(pa_data pa)(?b \<mapsto> Info ?pi)" and pi = ?pi])
        (auto simp: new_prop_info_def store_obj_def)
  next
    case False
    have ok1: "area_ok ?pa1" using ok b hok1 by (simp add: area_ok_def)
    show ?thesis
    proof (rule allocate_obj_cases [OF ok1, of "(valuelen + 1) mod 2 ^ 32"])
      assume "allocate_obj ?pa1 ((valuelen + 1) mod 2 ^ 32) = (?pa1, None)"
      with False a b show ?thesis by (intro full [of b]) (auto simp: new_prop_info_def)
    next
      fix b2
      assume a2: "allocate_obj ?pa1 ((valuelen + 1) mod 2 ^ 32) = (?pa1\<lparr>bytes_used := b2\<rparr>, Some (bytes_used ?pa1))"
        and b2: "bytes_used ?pa1 < b2" "b2 \<le> pa_data_size ?pa1"
      let ?pi = "prop_info_long nm namelen (b - ?b)"
      let ?g = "(pa_data pa)(b \<mapsto> LongValue (take valuelen v), ?b \<mapsto> Info ?pi)"
      have "heap_ok ((pa_data pa)(b \<mapsto> LongValue (take valuelen v))) b2"
        using heap_ok_upd [OF hok1, of b b2] b2 by simp
      then have "heap_ok ?g b2" by (rule heap_ok_upd) (use b b2 in auto)
      moreover have "new_prop_info pa nm namelen v valuelen = (pa\<lparr>bytes_used := b2, pa_data := ?g\<rparr>, Some ?b)"
        using False a a2 by (simp add: new_prop_info_def store_obj_def)
      moreover have "agree_outside {?b..} (pa_data pa) ?g" using b by (auto simp: agree_outside_def)
      ultimately show ?thesis
        using False b b2 by (intro new [where b = b2 and g = ?g and pi = ?pi]) (auto simp: prop_info_long_def)
    qed (use v in simp)
  qed
qed simp

end
