(* ===== verification/Prop_Area_Spec.thy ===== *)
theory Prop_Area_Spec
  imports Prop_Trie
begin

text \<open>
  The contract of a property area. \<open>wf_area\<close> is its invariant; under it \<open>find\<close> and \<open>add\<close> always
  return, \<open>add\<close> is a map update on what \<open>find\<close> returns and leaves every other name and every
  existing record alone, and \<open>foreach\<close> visits exactly the records that \<open>find\<close> returns. The
  contract is stated as the locale \<open>property_store\<close> that the property service relies on.
\<close>

subsection \<open>The invariant and the contract of an area\<close>

definition trie_of :: "prop_area \<Rightarrow> ptree \<Rightarrow> bool" where
  "trie_of pa c \<longleftrightarrow> subtree (pa_data pa) 0 c \<and> infos_ok (pa_data pa) [] c \<and>
     (\<exists>nd. pa_data pa 0 = Some (TrieNode nd) \<and> tn_left nd = 0 \<and> tn_right nd = 0 \<and> tn_prop nd = 0)"

definition wf_area :: "prop_area \<Rightarrow> bool" where
  "wf_area pa \<longleftrightarrow> area_ok pa \<and> (\<exists>c. trie_of pa c)"

text \<open>What \<open>find\<close> returns, read off the trie.\<close>

definition lookup_of :: "ptree \<Rightarrow> string \<Rightarrow> nat option" where
  "lookup_of c nm = (if tfind c (segs nm) = 0 then None else Some (tfind c (segs nm)))"

lemma infos_ok_tfind:
  "infos_ok h pre c \<Longrightarrow> tfind c ss \<noteq> 0 \<Longrightarrow> info_ok h (tfind c ss) (join_dots (pre @ ss))"
proof (induction ss arbitrary: c pre)
  case (Cons s ss)
  from Cons.prems(2) obtain off p cc where f: "sib_find c s = Some (off, p, cc)" by (auto split: option.splits)
  from infos_ok_sib_find [OF Cons.prems(1) f] Cons.IH [of "pre @ [s]" cc] Cons.prems(2) f
  show ?case by (auto split: if_splits)
qed simp

lemma to_prop_obj_info:
  "area_ok pa \<Longrightarrow> pa_data pa p = Some v \<Longrightarrow> to_prop_obj pa p = Some p"
  by (force simp: area_ok_def heap_ok_def dom_def to_prop_obj_def)

lemma root_node_0 [simp]: "root_node pa = Some 0"
  by (simp add: root_node_def to_prop_obj_def)

lemma find_property_find:
  assumes "area_ok pa" "trie_of pa c" "c_string nm"
  shows "find_property pa (Some 0) nm k v vl False = Some (pa, lookup_of c nm)"
proof -
  from assms(2) obtain nd where nd: "pa_data pa 0 = Some (TrieNode nd)" "tree_at (pa_data pa) (tn_children nd) c"
    by (auto simp: trie_of_def subtree_def)
  have lp: "find_property_loop pa 0 nm False = Some (pa, tnode c (segs nm))"
    using find_property_loop_find [OF assms(1,3) nd] .
  show ?thesis
  proof (cases "tnode c (segs nm)")
    case None
    with lp tnode_None_tfind show ?thesis by (simp add: find_property_def lookup_of_def)
  next
    case (Some n)
    from tnode_prop [OF nd(2) Some] obtain ndn where
      n: "pa_data pa n = Some (TrieNode ndn)" "tn_prop ndn = tfind c (segs nm)" by blast
    have "tfind c (segs nm) \<noteq> 0 \<Longrightarrow> info_ok (pa_data pa) (tfind c (segs nm)) nm"
      using infos_ok_tfind [of "pa_data pa" "[]" c "segs nm"] assms(2) by (simp add: trie_of_def)
    then have "tfind c (segs nm) \<noteq> 0 \<Longrightarrow> to_prop_obj pa (tfind c (segs nm)) = Some (tfind c (segs nm))"
      using to_prop_obj_info [OF assms(1)] by (auto simp: info_ok_def)
    with n lp Some show ?thesis by (simp add: find_property_def lookup_of_def)
  qed
qed

lemma pa_find_lookup:
  "area_ok pa \<Longrightarrow> trie_of pa c \<Longrightarrow> c_string nm \<Longrightarrow> pa_find pa nm = Some (lookup_of c nm)"
  by (simp add: pa_find_def find_property_find)


text \<open>The record that an insertion stores.\<close>

definition stored :: "prop_area \<Rightarrow> nat \<Rightarrow> string \<Rightarrow> string \<Rightarrow> nat \<Rightarrow> bool" where
  "stored pa off nm v valuelen \<longleftrightarrow> (\<exists>pi. pa_data pa off = Some (Info pi) \<and>
     (if valuelen < PROP_VALUE_MAX then pi = prop_info_short nm (length nm) v valuelen
      else \<exists>d. pi = prop_info_long nm (length nm) d \<and>
                pa_data pa (off + d) = Some (LongValue (take valuelen v))))"

definition same_area :: "prop_area \<Rightarrow> prop_area \<Rightarrow> bool" where
  "same_area pa pa' \<longleftrightarrow> pa_data_size pa' = pa_data_size pa \<and> pa_serial pa' = pa_serial pa \<and>
     pa_magic pa' = pa_magic pa \<and> pa_version pa' = pa_version pa \<and>
     dirty_backup_area pa' = dirty_backup_area pa \<and> bytes_used pa \<le> bytes_used pa'"

lemma trie_of_grows:
  assumes "trie_of pa c" "grows (pa_data pa) (bytes_used pa) 0 c h b c'"
  shows "trie_of (pa\<lparr>bytes_used := b', pa_data := h\<rparr>) c'"
  using assms infos_ok_kept [of "pa_data pa" "[]" c' h] by (auto simp: trie_of_def grows_def)

lemma trie_of_new_prop:
  assumes t: "trie_of pa c" and n: "tnode c (segs nm) = Some n" "pa_data pa n = Some (TrieNode nd)"
    and g: "heap_ok (pa_data pa) b0" "agree_outside {b0..} (pa_data pa) g" "g q = Some (Info pi)" "pi_name pi = nm" "b0 \<le> q"
  shows "trie_of (pa\<lparr>bytes_used := b, pa_data := g(n \<mapsto> TrieNode (nd\<lparr>tn_prop := q\<rparr>))\<rparr>) (tset c (segs nm) q)"
proof -
  let ?h = "pa_data pa" and ?g = "g(n \<mapsto> TrieNode (nd\<lparr>tn_prop := q\<rparr>))"
  from t obtain nd0 where nd0: "?h 0 = Some (TrieNode nd0)" "tree_at ?h (tn_children nd0) c"
    "tn_left nd0 = 0" "tn_right nd0 = 0" "tn_prop nd0 = 0"
    and d: "distinct (0 # offs c)" "bst c" by (auto simp: trie_of_def subtree_def)
  have agr: "g x = ?h x" if "?h x = Some v" for x v
    using that g(1,2) by (fastforce simp: agree_outside_def heap_ok_def dom_def)
  have kept: "infos_kept ?h g" using agr by (auto simp: infos_kept_def)
  have "tree_at g (tn_children nd0) c"
    using tree_at_dom [OF nd0(2)] agr by (intro tree_at_frame [OF nd0(2)]) force
  then have "subtree g 0 c" using nd0 agr d by (auto simp: subtree_def)
  moreover have gn: "g n = Some (TrieNode nd)" using n agr by simp
  ultimately have st: "subtree ?g 0 (tset c (segs nm) q)" using subtree_tset [where h = g and n = n and nd = nd] n(1) by blast
  have "infos_kept g ?g" using gn by (intro infos_kept_upd) auto
  then have "infos_ok ?g [] c" using t kept infos_ok_kept by (metis trie_of_def)
  moreover have "q \<noteq> n" using g(3) gn by auto
  then have "info_ok ?g q (join_dots ([] @ segs nm))" using g by (auto simp: info_ok_def)
  ultimately have "infos_ok ?g [] (tset c (segs nm) q)" by (rule infos_ok_tset [OF _ n(1)])
  moreover have "n \<noteq> 0" using tnode_in_offs [OF n(1)] d by (metis distinct.simps(2))
  ultimately show ?thesis using st nd0 agr by (auto simp: trie_of_def)
qed

lemma find_property_add:
  assumes ok: "area_ok pa" and t: "trie_of pa c" and nm: "c_string nm" and v: "valuelen + 1 < 2 ^ 32"
  shows "\<exists>pa' r c'. find_property pa (Some 0) nm (length nm) v valuelen True = Some (pa', r) \<and>
    area_ok pa' \<and> trie_of pa' c' \<and> same_area pa pa' \<and> infos_kept (pa_data pa) (pa_data pa') \<and>
    (case r of None \<Rightarrow> lookup_of c nm = None \<and> lookup_of c' = lookup_of c
     | Some off \<Rightarrow> lookup_of c' = (lookup_of c)(nm \<mapsto> off) \<and>
         (lookup_of c nm = None \<longrightarrow> stored pa' off nm v valuelen \<and> bytes_used pa \<le> off) \<and>
         (\<forall>off0. lookup_of c nm = Some off0 \<longrightarrow> off = off0))"
proof (cases "lookup_of c nm")
  case (Some off)
  from t obtain nd where nd: "pa_data pa 0 = Some (TrieNode nd)" "tree_at (pa_data pa) (tn_children nd) c"
    by (auto simp: trie_of_def subtree_def)
  from Some have off: "tfind c (segs nm) = off" "off \<noteq> 0" by (auto simp: lookup_of_def split: if_splits)
  then obtain n where n: "tnode c (segs nm) = Some n" using tnode_None_tfind by fastforce
  from tnode_prop [OF nd(2) n] off obtain ndn where "pa_data pa n = Some (TrieNode ndn)" "tn_prop ndn = off" by auto
  moreover have "to_prop_obj pa off = Some off"
    using infos_ok_tfind [of "pa_data pa" "[]" c "segs nm"] off t to_prop_obj_info [OF ok]
    by (auto simp: trie_of_def info_ok_def)
  ultimately have "find_property pa (Some 0) nm (length nm) v valuelen True = Some (pa, Some off)"
    using find_property_loop_existing [OF ok nm nd n] off by (simp add: find_property_def)
  with ok t Some show ?thesis
    by (intro exI [of _ pa] exI [of _ "Some off"] exI [of _ c]) (auto simp: same_area_def)
next
  case None
  from t have "subtree (pa_data pa) 0 c" by (simp add: trie_of_def)
  from find_property_loop_alloc [OF ok nm this] obtain h1 b1 c1 res where
    lp: "find_property_loop pa 0 nm True = Some (pa\<lparr>bytes_used := b1, pa_data := h1\<rparr>, res)"
    and b1: "b1 \<le> pa_data_size pa" and gr: "grows (pa_data pa) (bytes_used pa) 0 c h1 b1 c1"
    and res: "\<And>n. res = Some n \<Longrightarrow> tnode c1 (segs nm) = Some n" by blast
  let ?pa1 = "pa\<lparr>bytes_used := b1, pa_data := h1\<rparr>"
  have t1: "trie_of ?pa1 c1" using trie_of_grows [OF t gr] .
  have ok1: "area_ok ?pa1" using ok b1 gr by (auto simp: area_ok_def grows_def)
  have lk1: "lookup_of c1 = lookup_of c" using gr by (auto simp: grows_def lookup_of_def)
  have kept1: "infos_kept (pa_data pa) h1" and le1: "bytes_used pa \<le> b1" using gr by (auto simp: grows_def)
  show ?thesis
  proof (cases res)
    case res_None: None
    then have "find_property pa (Some 0) nm (length nm) v valuelen True = Some (?pa1, None)"
      using lp by (simp add: find_property_def)
    with ok1 t1 lk1 kept1 le1 None show ?thesis
      by (intro exI [of _ ?pa1] exI [of _ "None"] exI [of _ c1]) (auto simp: same_area_def)
  next
    case (Some n)
    from res [OF this] have n: "tnode c1 (segs nm) = Some n" .
    obtain nd1 where nd1: "h1 0 = Some (TrieNode nd1)" "tree_at h1 (tn_children nd1) c1"
      using t1 by (auto simp: trie_of_def subtree_def)
    have "tfind c1 (segs nm) = 0" using fun_cong [OF lk1, of nm] None by (simp add: lookup_of_def split: if_splits)
    with tnode_prop [OF nd1(2) n] obtain nd where nd: "h1 n = Some (TrieNode nd)" "tn_prop nd = 0" by auto
    show ?thesis
    proof (rule new_prop_info_cases [OF ok1 v, of nm "length nm" v])
      fix b assume a: "new_prop_info ?pa1 nm (length nm) v valuelen = (?pa1\<lparr>bytes_used := b\<rparr>, None)"
        and b: "bytes_used ?pa1 \<le> b" "b \<le> pa_data_size ?pa1"
      let ?pa2 = "?pa1\<lparr>bytes_used := b\<rparr>"
      have "find_property pa (Some 0) nm (length nm) v valuelen True = Some (?pa2, None)"
        using lp Some nd a by (simp add: find_property_def)
      moreover have "area_ok ?pa2" using ok1 b heap_ok_mono by (auto simp: area_ok_def)
      moreover have "trie_of ?pa2 c1" using t1 by (simp add: trie_of_def)
      ultimately show ?thesis using lk1 kept1 le1 None b
        by (intro exI [of _ ?pa2] exI [of _ "None"] exI [of _ c1]) (auto simp: same_area_def)
    next
      fix b g pi
      assume a: "new_prop_info ?pa1 nm (length nm) v valuelen =
            (?pa1\<lparr>bytes_used := b, pa_data := g\<rparr>, Some (bytes_used ?pa1))"
        and b: "bytes_used ?pa1 < b" "b \<le> pa_data_size ?pa1" and gok: "heap_ok g b"
        and ag: "agree_outside {bytes_used ?pa1..} (pa_data ?pa1) g"
        and gi: "g (bytes_used ?pa1) = Some (Info pi)" "pi_name pi = take (length nm) nm"
        and pi: "if valuelen < PROP_VALUE_MAX then pi = prop_info_short nm (length nm) v valuelen
          else \<exists>d. pi = prop_info_long nm (length nm) d \<and>
            g (bytes_used ?pa1 + d) = Some (LongValue (take valuelen v))"
      let ?g = "g(n \<mapsto> TrieNode (nd\<lparr>tn_prop := b1\<rparr>))"
      let ?pa2 = "pa\<lparr>bytes_used := b, pa_data := ?g\<rparr>"
      have hok1: "heap_ok h1 b1" using ok1 by (simp add: area_ok_def)
      have nb: "n < b1" using hok1 nd by (fastforce simp: heap_ok_def dom_def)
      have run: "find_property pa (Some 0) nm (length nm) v valuelen True = Some (?pa2, Some b1)"
        using lp Some nd a by (simp add: find_property_def store_obj_def)
      have t2: "trie_of ?pa2 (tset c1 (segs nm) b1)"
        using trie_of_new_prop [OF t1 n, of nd b1 g b1 pi b] nd hok1 ag gi by simp
      have hok2: "heap_ok ?g b" by (rule heap_ok_upd [OF gok]) (use nb b in auto)
      have ok2: "area_ok ?pa2" using ok b hok2 by (simp add: area_ok_def)
      have "lookup_of (tset c1 (segs nm) b1) nm' = (if nm' = nm then Some b1 else lookup_of c nm')" for nm'
        using tfind_tset [OF n, of b1 "segs nm'"] nb fun_cong [OF lk1, of nm'] by (auto simp: lookup_of_def segs_inj)
      then have lk2: "lookup_of (tset c1 (segs nm) b1) = (lookup_of c)(nm \<mapsto> b1)" by auto
      have "infos_kept h1 g" using ag hok1 by (fastforce simp: infos_kept_def agree_outside_def heap_ok_def dom_def)
      moreover have "g n = h1 n" using ag nb by (simp add: agree_outside_def)
      then have "infos_kept g ?g" using nd by (intro infos_kept_upd) auto
      ultimately have kept2: "infos_kept (pa_data pa) ?g" using kept1 infos_kept_trans by blast
      have st: "stored ?pa2 b1 nm v valuelen" using gi pi nb by (auto simp: stored_def)
      show ?thesis
        using run ok2 t2 lk2 kept2 st None le1 b
        by (intro exI [of _ ?pa2] exI [of _ "Some b1"] exI [of _ "tset c1 (segs nm) b1"]) (auto simp: same_area_def)
    qed
  qed
qed


subsection \<open>Visiting\<close>

text \<open>The properties of a tree in the order of the visit, each with its path.\<close>

fun entries :: "string list \<Rightarrow> ptree \<Rightarrow> (string list \<times> nat) list" where
  "entries pre PLeaf = []"
| "entries pre (PNode off l nm p c r) =
     entries pre l @ (if p \<noteq> 0 then [(pre @ [nm], p)] else []) @ entries (pre @ [nm]) c @ entries pre r"

lemma foreach_property_tree:
  assumes ok: "area_ok pa"
  shows "tree_at (pa_data pa) x t \<Longrightarrow> infos_ok (pa_data pa) pre t \<Longrightarrow> t \<noteq> PLeaf \<Longrightarrow>
    foreach_property pa (Some x) f cookie = Some (fold f (map snd (entries pre t)) cookie, True)"
proof (induction t arbitrary: x pre cookie)
  case (PNode off l nm p c r)
  from PNode.prems(1) obtain nd where nd: "x = off" "pa_data pa off = Some (TrieNode nd)" "tn_prop nd = p"
    "tree_at (pa_data pa) (tn_left nd) l" "tree_at (pa_data pa) (tn_children nd) c"
    "tree_at (pa_data pa) (tn_right nd) r"
    by (rule tree_at_PNode_E)
  have leaf: "tn_left nd = 0 \<longleftrightarrow> l = PLeaf" "tn_children nd = 0 \<longleftrightarrow> c = PLeaf" "tn_right nd = 0 \<longleftrightarrow> r = PLeaf"
    using nd tree_at_leaf by blast+
  note obj = to_prop_obj_tree [OF ok nd(4)] to_prop_obj_tree [OF ok nd(5)] to_prop_obj_tree [OF ok nd(6)]
  have inf: "infos_ok (pa_data pa) pre l" "infos_ok (pa_data pa) (pre @ [nm]) c" "infos_ok (pa_data pa) pre r"
    using PNode.prems(2) by auto
  have p: "p \<noteq> 0 \<Longrightarrow> to_prop_obj pa p = Some p"
    using PNode.prems(2) to_prop_obj_info [OF ok] by (auto simp: info_ok_def)
  note IH = PNode.IH(1) [OF nd(4) inf(1)] PNode.IH(2) [OF nd(5) inf(2)] PNode.IH(3) [OF nd(6) inf(3)]
  show ?case
    using nd p leaf obj IH by (subst foreach_property.simps) (simp add: Let_def)
qed simp

lemma pa_foreach_entries:
  assumes "area_ok pa" "trie_of pa c"
  shows "pa_foreach pa f cookie = Some (fold f (map snd (entries [] c)) cookie, True)"
proof -
  from assms(2) obtain nd where nd: "pa_data pa 0 = Some (TrieNode nd)" "tree_at (pa_data pa) (tn_children nd) c"
    "tn_left nd = 0" "tn_right nd = 0" "tn_prop nd = 0" and inf: "infos_ok (pa_data pa) [] c"
    by (auto simp: trie_of_def subtree_def)
  show ?thesis
    using nd to_prop_obj_tree [OF assms(1) nd(2)] tree_at_leaf [OF nd(2)]
    unfolding pa_foreach_def
    by (subst foreach_property.simps)
      (cases "c = PLeaf"; simp add: Let_def foreach_property_tree [OF assms(1) nd(2) inf])
qed

lemma tfind_sib_names: "tfind t (s # ss) \<noteq> 0 \<Longrightarrow> bst t \<Longrightarrow> s \<in> sib_names t"
  by (rule ccontr) (simp add: sib_find_None_iff [symmetric])

lemma tfind_PNode:
  "tfind (PNode off l nm p c r) (s # ss) =
     (if s = nm then (if ss = [] then p else tfind c ss)
      else if seg_key s < seg_key nm then tfind l (s # ss) else tfind r (s # ss))"
  by simp

lemma entries_iff:
  "bst t \<Longrightarrow> (path, p) \<in> set (entries pre t) \<longleftrightarrow> (\<exists>ss. path = pre @ ss \<and> p \<noteq> 0 \<and> tfind t ss = p)"
proof (induction t arbitrary: pre)
  case PLeaf
  have "tfind PLeaf ss = 0" for ss by (cases ss) auto
  then show ?case by auto
next
  case (PNode off l nm q c r)
  then have b: "bst l" "bst c" "bst r" by auto
  have "(\<exists>ss. path = pre @ ss \<and> p \<noteq> 0 \<and> tfind (PNode off l nm q c r) ss = p) \<longleftrightarrow>
      (\<exists>ss. path = pre @ ss \<and> p \<noteq> 0 \<and> tfind l ss = p) \<or> (path = pre @ [nm] \<and> p \<noteq> 0 \<and> q = p) \<or>
      (\<exists>ss. path = (pre @ [nm]) @ ss \<and> p \<noteq> 0 \<and> tfind c ss = p) \<or>
      (\<exists>ss. path = pre @ ss \<and> p \<noteq> 0 \<and> tfind r ss = p)" (is "?L \<longleftrightarrow> ?R")
  proof
    assume ?L
    then obtain ss where ss: "path = pre @ ss" "p \<noteq> 0" "tfind (PNode off l nm q c r) ss = p" by blast
    then obtain s ss' where "ss = s # ss'" by (cases ss) auto
    with ss show ?R unfolding \<open>ss = s # ss'\<close> tfind_PNode by (auto split: if_splits)
  next
    assume ?R
    then consider (l) ss where "path = pre @ ss" "p \<noteq> 0" "tfind l ss = p"
      | (n) "path = pre @ [nm]" "p \<noteq> 0" "q = p"
      | (c) ss where "path = pre @ nm # ss" "p \<noteq> 0" "tfind c ss = p"
      | (r) ss where "path = pre @ ss" "p \<noteq> 0" "tfind r ss = p" by auto
    then show ?L
    proof cases
      case l
      then obtain s ss' where s: "ss = s # ss'" by (cases ss) auto
      have "s \<in> sib_names l" using l s b tfind_sib_names by blast
      then have "seg_key s < seg_key nm" using PNode.prems by auto
      moreover then have "s \<noteq> nm" by auto
      ultimately show ?thesis using l s tfind_PNode by (metis (no_types))
    next
      case n
      then show ?thesis using tfind_PNode [of off l nm q c r nm "[]"] by metis
    next
      case c
      then have "ss \<noteq> []" by auto
      then show ?thesis using c tfind_PNode [of off l nm q c r nm ss] by metis
    next
      case r
      then obtain s ss' where s: "ss = s # ss'" by (cases ss) auto
      have "s \<in> sib_names r" using r s b tfind_sib_names by blast
      then have "seg_key nm < seg_key s" using PNode.prems by auto
      moreover then have "s \<noteq> nm" "\<not> seg_key s < seg_key nm" by auto
      ultimately show ?thesis using r s tfind_PNode by (metis (no_types))
    qed
  qed
  then show ?case using PNode.IH b by auto
qed


lemma entries_distinct: "bst t \<Longrightarrow> distinct (map fst (entries pre t))"
proof (induction t arbitrary: pre)
  case (PNode off l nm q c r)
  then have b: "bst l" "bst c" "bst r" by auto
  have inl: "\<exists>s ss. path = pre @ s # ss \<and> s \<in> sib_names u"
    if "bst u" "path \<in> fst ` set (entries pre u)" for u path
  proof -
    from that obtain p ss where ss: "path = pre @ ss" "p \<noteq> 0" "tfind u ss = p" using entries_iff by fastforce
    then obtain s ss' where "ss = s # ss'" by (cases ss) auto
    with ss that tfind_sib_names show ?thesis by blast
  qed
  have inc: "\<exists>s ss. path = pre @ nm # s # ss" if "path \<in> fst ` set (entries (pre @ [nm]) c)" for path
  proof -
    from that obtain p ss where ss: "path = (pre @ [nm]) @ ss" "p \<noteq> 0" "tfind c ss = p"
      using entries_iff [OF b(2)] by fastforce
    then show ?thesis by (cases ss) auto
  qed
  have "nm \<notin> sib_names l" "nm \<notin> sib_names r" "sib_names l \<inter> sib_names r = {}" using PNode.prems by fastforce+
  then have "fst ` set (entries pre l) \<inter> fst ` set (entries pre r) = {}"
    "fst ` set (entries pre l) \<inter> fst ` set (entries (pre @ [nm]) c) = {}"
    "fst ` set (entries pre r) \<inter> fst ` set (entries (pre @ [nm]) c) = {}"
    "pre @ [nm] \<notin> fst ` set (entries pre l)" "pre @ [nm] \<notin> fst ` set (entries pre r)"
    "pre @ [nm] \<notin> fst ` set (entries (pre @ [nm]) c)"
    using inl [OF b(1)] inl [OF b(3)] inc by fastforce+
  with PNode.IH(1) [OF b(1)] PNode.IH(2) [OF b(2)] PNode.IH(3) [OF b(3)] show ?case by auto
qed simp

text \<open>A path of the tree is the segmentation of the name it spells.\<close>

lemma segs_join:
  "ss \<noteq> [] \<Longrightarrow> \<forall>s \<in> set ss. CHR ''.'' \<notin> set s \<Longrightarrow> segs (join_dots ss) = ss"
proof (induction ss rule: join_dots.induct)
  case (3 s t ss)
  have "strchr (s @ CHR ''.'' # join_dots (t # ss)) (CHR ''.'') = Some (length s)"
    using "3.prems" by (simp add: strchr_def Let_def)
  with 3 show ?case by (simp add: segs_Some)
qed (auto simp: segs_None)

lemma tfind_dotless:
  "tree_at h x t \<Longrightarrow> tfind t ss \<noteq> 0 \<Longrightarrow> ss \<noteq> [] \<and> (\<forall>s \<in> set ss. CHR ''.'' \<notin> set s \<and> c_string s)"
proof (induction ss arbitrary: t x)
  case (Cons s ss)
  from Cons.prems(2) obtain off p c where f: "sib_find t s = Some (off, p, c)" by (auto split: option.splits)
  have "CHR ''.'' \<notin> set s \<and> c_string s" using Cons.prems(1) f
  proof (induction t arbitrary: x)
    case (PNode o1 l nm q c1 r)
    from PNode.prems(1) obtain nd :: prop_trie_node where "CHR ''.'' \<notin> set nm" "tn_name nd = nm" "c_string (tn_name nd)"
      "tree_at h (tn_left nd) l" "tree_at h (tn_right nd) r" by (rule tree_at_PNode_E)
    with PNode show ?case by (auto split: if_splits)
  qed simp
  moreover obtain y where "tree_at h y c" using tree_at_sib_find [OF Cons.prems(1) f] by auto
  ultimately show ?case using Cons.IH [of y c] Cons.prems(2) f by (auto split: if_splits)
qed simp

lemma c_string_join: "\<forall>s \<in> set ss. c_string s \<Longrightarrow> c_string (join_dots ss)"
  by (induction ss rule: join_dots.induct) auto

lemma entries_lookup:
  assumes "trie_of pa c"
  shows "set (map snd (entries [] c)) = {off. \<exists>nm. c_string nm \<and> lookup_of c nm = Some off}"
    and "distinct (map snd (entries [] c))"
proof -
  from assms obtain nd :: prop_trie_node where t: "tree_at (pa_data pa) (tn_children nd) c" and b: "bst c"
    and inf: "infos_ok (pa_data pa) [] c" by (auto simp: trie_of_def subtree_def)
  note dotless = tfind_dotless [OF t]
  have segs: "segs (join_dots ss) = ss" "c_string (join_dots ss)" if "tfind c ss \<noteq> 0" for ss
    using dotless [OF that] segs_join c_string_join by auto
  have "off \<in> set (map snd (entries [] c)) \<longleftrightarrow> off \<noteq> 0 \<and> (\<exists>ss. tfind c ss = off)" for off
    using entries_iff [OF b, of _ off "[]"] by force
  moreover have "off \<noteq> 0 \<and> (\<exists>ss. tfind c ss = off) \<longleftrightarrow> (\<exists>nm. c_string nm \<and> lookup_of c nm = Some off)" for off
    using segs by (auto simp: lookup_of_def split: if_splits) (metis segs)
  ultimately show "set (map snd (entries [] c)) = {off. \<exists>nm. c_string nm \<and> lookup_of c nm = Some off}" by blast
  have "ss = ss'" if "(ss, p) \<in> set (entries [] c)" "(ss', p) \<in> set (entries [] c)" for ss ss' p
  proof -
    have p: "tfind c ss = p" "tfind c ss' = p" "p \<noteq> 0" using that entries_iff [OF b] by auto
    then have "info_ok (pa_data pa) p (join_dots ss)" "info_ok (pa_data pa) p (join_dots ss')"
      using infos_ok_tfind [OF inf, of ss] infos_ok_tfind [OF inf, of ss'] by simp_all
    then have "join_dots ss = join_dots ss'" by (auto simp: info_ok_def)
    with segs p show ?thesis by metis
  qed
  then have "inj_on snd (set (entries [] c))" by (auto simp: inj_on_def)
  moreover have "distinct (entries [] c)" using entries_distinct [OF b, of "[]"] by (simp add: distinct_map)
  ultimately show "distinct (map snd (entries [] c))" by (simp add: distinct_map)
qed


subsection \<open>A new area\<close>

lemma wf_new_prop_area:
  "112 \<le> sz \<Longrightarrow> sz < 2 ^ 32 \<Longrightarrow> wf_area (new_prop_area magic version sz)"
  by (auto simp: wf_area_def area_ok_def heap_ok_def trie_of_def subtree_def new_prop_area_def
      new_trie_node_def sizeof_prop_trie_node_def PROP_VALUE_MAX_def align_up_def
      intro!: exI [of _ PLeaf])

lemma wf_area_find:
  assumes "wf_area pa" "c_string nm"
  shows "\<exists>r. pa_find pa nm = Some r \<and> (\<forall>off. r = Some off \<longrightarrow> (\<exists>pi. info_at pa off = Some pi \<and> pi_name pi = nm))"
proof -
  from assms obtain c where c: "area_ok pa" "trie_of pa c" by (auto simp: wf_area_def)
  have "info_ok (pa_data pa) off nm" if "lookup_of c nm = Some off" for off
    using that infos_ok_tfind [of "pa_data pa" "[]" c "segs nm"] c
    by (auto simp: trie_of_def lookup_of_def split: if_splits)
  then show ?thesis using pa_find_lookup [OF c assms(2)] by (auto simp: info_ok_def info_at_def)
qed

lemma wf_area_add:
  assumes "wf_area pa" "c_string nm" "valuelen + 1 < 2 ^ 32"
  shows "\<exists>pa' ok. pa_add pa nm (length nm) v valuelen = Some (pa', ok) \<and> wf_area pa' \<and> same_area pa pa' \<and>
    (\<forall>off pi. info_at pa off = Some pi \<longrightarrow> info_at pa' off = Some pi) \<and>
    (\<forall>off s. pa_data pa off = Some (LongValue s) \<longrightarrow> pa_data pa' off = Some (LongValue s)) \<and>
    (\<forall>nm'. c_string nm' \<longrightarrow> nm' \<noteq> nm \<longrightarrow> pa_find pa' nm' = pa_find pa nm') \<and>
    (if ok then \<exists>off. pa_find pa' nm = Some (Some off) \<and>
           (pa_find pa nm = Some None \<longrightarrow> stored pa' off nm v valuelen) \<and>
           (\<forall>off0. pa_find pa nm = Some (Some off0) \<longrightarrow> off = off0)
     else pa_find pa nm = Some None \<and> pa_find pa' nm = Some None)"
proof -
  from assms obtain c where c: "area_ok pa" "trie_of pa c" by (auto simp: wf_area_def)
  from find_property_add [OF c assms(2,3)] obtain pa' r c' where
    run: "find_property pa (Some 0) nm (length nm) v valuelen True = Some (pa', r)"
    and c': "area_ok pa'" "trie_of pa' c'" and same: "same_area pa pa'"
    and kept: "infos_kept (pa_data pa) (pa_data pa')"
    and r: "case r of None \<Rightarrow> lookup_of c nm = None \<and> lookup_of c' = lookup_of c
      | Some off \<Rightarrow> lookup_of c' = (lookup_of c)(nm \<mapsto> off) \<and>
          (lookup_of c nm = None \<longrightarrow> stored pa' off nm v valuelen \<and> bytes_used pa \<le> off) \<and>
          (\<forall>off0. lookup_of c nm = Some off0 \<longrightarrow> off = off0)" by blast
  have "\<forall>off pi. info_at pa off = Some pi \<longrightarrow> info_at pa' off = Some pi"
    "\<forall>off s. pa_data pa off = Some (LongValue s) \<longrightarrow> pa_data pa' off = Some (LongValue s)"
    using kept by (auto simp: infos_kept_def info_at_def split: option.splits pa_obj.splits)
  with run c' same r assms(2) show ?thesis
    by (intro exI [of _ pa'] exI [of _ "r \<noteq> None"])
      (auto simp: pa_add_def wf_area_def pa_find_lookup [OF c] pa_find_lookup [OF c'] split: option.splits)
qed

subsection \<open>The contract as an interface\<close>

text \<open>
  What the property service relies on: searches return, an insertion is a map update on the
  names, and a record once found keeps its place.
\<close>

locale property_store =
  fixes inv :: "'s \<Rightarrow> bool"
    and lookup :: "'s \<Rightarrow> string \<Rightarrow> nat option option"
    and put :: "'s \<Rightarrow> string \<Rightarrow> nat \<Rightarrow> string \<Rightarrow> nat \<Rightarrow> ('s \<times> bool) option"
    and record_at :: "'s \<Rightarrow> nat \<Rightarrow> prop_info option"
    and long_value_at :: "'s \<Rightarrow> nat \<Rightarrow> string option"
  assumes lookup_returns: "inv s \<Longrightarrow> c_string nm \<Longrightarrow> \<exists>r. lookup s nm = Some r"
    and lookup_named: "inv s \<Longrightarrow> c_string nm \<Longrightarrow> lookup s nm = Some (Some off) \<Longrightarrow>
      \<exists>pi. record_at s off = Some pi \<and> pi_name pi = nm"
    and put_returns: "inv s \<Longrightarrow> c_string nm \<Longrightarrow> vl + 1 < 2 ^ 32 \<Longrightarrow>
      \<exists>s' ok. put s nm (length nm) v vl = Some (s', ok) \<and> inv s'"
    and put_lookup: "inv s \<Longrightarrow> c_string nm \<Longrightarrow> vl + 1 < 2 ^ 32 \<Longrightarrow> put s nm (length nm) v vl = Some (s', ok) \<Longrightarrow>
      c_string nm' \<Longrightarrow> lookup s nm' = Some (Some off) \<or> nm' \<noteq> nm \<Longrightarrow> lookup s' nm' = lookup s nm'"
    and put_succeeds: "inv s \<Longrightarrow> c_string nm \<Longrightarrow> vl + 1 < 2 ^ 32 \<Longrightarrow> put s nm (length nm) v vl = Some (s', ok) \<Longrightarrow>
      ok \<longleftrightarrow> (\<exists>off. lookup s' nm = Some (Some off))"
    and put_record: "inv s \<Longrightarrow> c_string nm \<Longrightarrow> vl + 1 < 2 ^ 32 \<Longrightarrow> put s nm (length nm) v vl = Some (s', ok) \<Longrightarrow>
      record_at s off = Some pi \<Longrightarrow> record_at s' off = Some pi"
    and put_long: "inv s \<Longrightarrow> c_string nm \<Longrightarrow> vl + 1 < 2 ^ 32 \<Longrightarrow> put s nm (length nm) v vl = Some (s', ok) \<Longrightarrow>
      long_value_at s off = Some str \<Longrightarrow> long_value_at s' off = Some str"
begin

primrec put_all :: "'s \<Rightarrow> (string \<times> string) list \<Rightarrow> 's option" where
  "put_all s [] = Some s"
| "put_all s (x # xs) =
     Option.bind (put s (fst x) (length (fst x)) (snd x) (length (snd x))) (\<lambda>(s', ok). put_all s' xs)"

definition puttable :: "(string \<times> string) list \<Rightarrow> bool" where
  "puttable xs \<longleftrightarrow> (\<forall>x \<in> set xs. c_string (fst x) \<and> length (snd x) + 1 < 2 ^ 32)"

lemma put_all_returns: "inv s \<Longrightarrow> puttable xs \<Longrightarrow> \<exists>s'. put_all s xs = Some s' \<and> inv s'"
proof (induction xs arbitrary: s)
  case (Cons x xs)
  then obtain s1 ok where "put s (fst x) (length (fst x)) (snd x) (length (snd x)) = Some (s1, ok)" "inv s1"
    using put_returns by (auto simp: puttable_def) blast
  with Cons show ?case by (auto simp: puttable_def)
qed simp

text \<open>A record pointer, once obtained, stays valid, and what it points to is kept, whatever is added later.\<close>

lemma put_all_stable:
  "inv s \<Longrightarrow> puttable xs \<Longrightarrow> c_string nm \<Longrightarrow> lookup s nm = Some (Some off) \<Longrightarrow>
     put_all s xs = Some s' \<Longrightarrow> lookup s' nm = Some (Some off)"
proof (induction xs arbitrary: s)
  case (Cons x xs)
  have x: "c_string (fst x)" "length (snd x) + 1 < 2 ^ 32" "puttable xs" using Cons.prems(2) by (auto simp: puttable_def)
  from put_returns [OF Cons.prems(1) x(1,2)] obtain s1 ok where
    s1: "put s (fst x) (length (fst x)) (snd x) (length (snd x)) = Some (s1, ok)" "inv s1" by blast
  have "lookup s1 nm = Some (Some off)"
    using put_lookup [OF Cons.prems(1) x(1,2) s1(1) Cons.prems(3), of off] Cons.prems(4) by simp
  with Cons.IH [OF s1(2) x(3) Cons.prems(3)] Cons.prems(5) s1(1) show ?case by simp
qed simp

lemma put_all_keeps:
  "inv s \<Longrightarrow> puttable xs \<Longrightarrow> put_all s xs = Some s' \<Longrightarrow>
     (record_at s off = Some pi \<longrightarrow> record_at s' off = Some pi) \<and> (long_value_at s off = Some str \<longrightarrow> long_value_at s' off = Some str)"
proof (induction xs arbitrary: s)
  case (Cons x xs)
  have x: "c_string (fst x)" "length (snd x) + 1 < 2 ^ 32" "puttable xs" using Cons.prems(2) by (auto simp: puttable_def)
  from put_returns [OF Cons.prems(1) x(1,2)] obtain s1 ok where
    s1: "put s (fst x) (length (fst x)) (snd x) (length (snd x)) = Some (s1, ok)" "inv s1" by blast
  show ?case
    using Cons.IH [OF s1(2) x(3)] Cons.prems(3) s1(1)
      put_record [OF Cons.prems(1) x(1,2) s1(1)] put_long [OF Cons.prems(1) x(1,2) s1(1)] by auto
qed simp

end

text \<open>The long value that lies at an offset: what \<open>prop_info::long_value\<close> points to.\<close>

definition long_value_at :: "prop_area \<Rightarrow> nat \<Rightarrow> string option" where
  "long_value_at pa off = (case pa_data pa off of Some (LongValue s) \<Rightarrow> Some s | _ \<Rightarrow> None)"

lemma long_value_at_Some: "long_value_at pa off = Some s \<longleftrightarrow> pa_data pa off = Some (LongValue s)"
  by (auto simp: long_value_at_def split: option.splits pa_obj.splits)

interpretation area_store: property_store wf_area pa_find pa_add info_at long_value_at
proof
  fix s nm assume "wf_area s" "c_string nm"
  then show "\<exists>r. pa_find s nm = Some r" using wf_area_find by blast
next
  fix s nm off assume "wf_area s" "c_string nm" "pa_find s nm = Some (Some off)"
  then show "\<exists>pi. info_at s off = Some pi \<and> pi_name pi = nm" using wf_area_find by fastforce
next
  fix s nm v and vl :: nat assume "wf_area s" "c_string nm" "vl + 1 < 2 ^ 32"
  then show "\<exists>s' ok. pa_add s nm (length nm) v vl = Some (s', ok) \<and> wf_area s'" using wf_area_add by meson
next
  fix s nm v s' ok nm' off and vl :: nat
  assume a: "wf_area s" "c_string nm" "vl + 1 < 2 ^ 32" "pa_add s nm (length nm) v vl = Some (s', ok)"
    "c_string nm'" "pa_find s nm' = Some (Some off) \<or> nm' \<noteq> nm"
  from wf_area_add [OF a(1-3), of v] a(4)
  have "\<forall>nm'. c_string nm' \<longrightarrow> nm' \<noteq> nm \<longrightarrow> pa_find s' nm' = pa_find s nm'"
    "if ok then \<exists>off. pa_find s' nm = Some (Some off) \<and> (\<forall>off0. pa_find s nm = Some (Some off0) \<longrightarrow> off = off0)
     else pa_find s nm = Some None \<and> pa_find s' nm = Some None" by (auto split: if_splits)
  with a(5,6) show "pa_find s' nm' = pa_find s nm'" by (cases "nm' = nm") (auto split: if_splits)
next
  fix s nm v s' ok and vl :: nat
  assume a: "wf_area s" "c_string nm" "vl + 1 < 2 ^ 32" "pa_add s nm (length nm) v vl = Some (s', ok)"
  from wf_area_add [OF a(1-3), of v] a(4) show "ok \<longleftrightarrow> (\<exists>off. pa_find s' nm = Some (Some off))"
    by (auto split: if_splits)
next
  fix s nm v s' ok off pi and vl :: nat
  assume a: "wf_area s" "c_string nm" "vl + 1 < 2 ^ 32" "pa_add s nm (length nm) v vl = Some (s', ok)" "info_at s off = Some pi"
  from wf_area_add [OF a(1-3), of v] a(4,5) show "info_at s' off = Some pi" by auto
next
  fix s nm v s' ok off str and vl :: nat
  assume a: "wf_area s" "c_string nm" "vl + 1 < 2 ^ 32" "pa_add s nm (length nm) v vl = Some (s', ok)" "long_value_at s off = Some str"
  from wf_area_add [OF a(1-3), of v] a(4,5) show "long_value_at s' off = Some str" by (auto simp: long_value_at_Some)
qed


subsection \<open>Properties\<close>

text \<open>A run of insertions, as init makes them while it loads the property files.\<close>

fun pa_add_all :: "prop_area \<Rightarrow> (string \<times> string) list \<Rightarrow> prop_area option" where
  "pa_add_all pa [] = Some pa"
| "pa_add_all pa ((nm, v) # xs) =
     (case pa_add pa nm (length nm) v (length v) of None \<Rightarrow> None | Some (pa', ok) \<Rightarrow> pa_add_all pa' xs)"

lemma pa_add_all_put_all: "pa_add_all pa xs = area_store.put_all pa xs"
  by (induction pa xs rule: pa_add_all.induct) (auto split: option.split)

definition example_area :: prop_area where
  "example_area = new_prop_area PROP_AREA_MAGIC PROP_AREA_VERSION (PA_SIZE - sizeof_prop_area)"

lemma wf_example_area: "wf_area example_area"
  unfolding example_area_def by (rule wf_new_prop_area) (simp_all add: PA_SIZE_def sizeof_prop_area_def)

text \<open>
  C1: Insertion refines map update. On a well-formed area, \<open>add\<close> of a name always returns and
  keeps the area well formed; every other name is found where it was; every record that existed
  keeps its contents; on success the name is found, at the place it had if it was already there
  and otherwise at a record holding exactly the given value; on failure (the area is full, or the
  name has an empty segment) the name was absent and still is.
\<close>

theorem area_add_refines_update:
  assumes "wf_area pa" "c_string nm" "valuelen + 1 < 2 ^ 32"
  shows "\<exists>pa' ok. pa_add pa nm (length nm) v valuelen = Some (pa', ok) \<and> wf_area pa' \<and> same_area pa pa' \<and>
    (\<forall>off pi. info_at pa off = Some pi \<longrightarrow> info_at pa' off = Some pi) \<and>
    (\<forall>off s. pa_data pa off = Some (LongValue s) \<longrightarrow> pa_data pa' off = Some (LongValue s)) \<and>
    (\<forall>nm'. c_string nm' \<longrightarrow> nm' \<noteq> nm \<longrightarrow> pa_find pa' nm' = pa_find pa nm') \<and>
    (if ok then \<exists>off. pa_find pa' nm = Some (Some off) \<and>
           (pa_find pa nm = Some None \<longrightarrow> stored pa' off nm v valuelen) \<and>
           (\<forall>off0. pa_find pa nm = Some (Some off0) \<longrightarrow> off = off0)
     else pa_find pa nm = Some None \<and> pa_find pa' nm = Some None)"
  using assms by (rule wf_area_add)

theorem area_add_refines_update_witness:
  "\<exists>pa' ok. pa_add example_area ''ro.secure'' (length ''ro.secure'') ''1'' 1 = Some (pa', ok) \<and> wf_area pa'"
proof -
  have h: "c_string ''ro.secure''" "(1::nat) + 1 < 2 ^ 32" by simp_all
  show ?thesis using area_add_refines_update [OF wf_example_area h, of "''1''"] by blast
qed

text \<open>
  C2: Searching never follows a bad offset and never loops: on a well-formed area \<open>find\<close> returns
  for every name, and a record it returns carries that name.
\<close>

theorem area_find_defined:
  assumes "wf_area pa" "c_string nm"
  shows "\<exists>r. pa_find pa nm = Some r \<and>
    (\<forall>off. r = Some off \<longrightarrow> (\<exists>pi. info_at pa off = Some pi \<and> pi_name pi = nm))"
  using assms by (rule wf_area_find)

theorem area_find_defined_witness:
  "\<exists>r. pa_find example_area ''ro.secure'' = Some r"
  using area_find_defined [OF wf_example_area, of "''ro.secure''"] by (auto simp: c_string_def)

text \<open>
  C3: \<open>foreach\<close> visits exactly the records that \<open>find\<close> can return, each of them once.
\<close>

theorem area_foreach_exact:
  assumes "wf_area pa"
  shows "\<exists>offs. (\<forall>f cookie. pa_foreach pa f cookie = Some (fold f offs cookie, True)) \<and> distinct offs \<and>
    set offs = {off. \<exists>nm. c_string nm \<and> pa_find pa nm = Some (Some off)}"
proof -
  from assms obtain c where c: "area_ok pa" "trie_of pa c" by (auto simp: wf_area_def)
  have "{off. \<exists>nm. c_string nm \<and> pa_find pa nm = Some (Some off)} =
      {off. \<exists>nm. c_string nm \<and> lookup_of c nm = Some off}"
    using pa_find_lookup [OF c] by auto
  then show ?thesis
    using pa_foreach_entries [OF c] entries_lookup [OF c(2)]
    by (intro exI [of _ "map snd (entries [] c)"]) auto
qed

theorem area_foreach_exact_witness:
  "\<exists>offs :: nat list. pa_foreach example_area Cons [] = Some (fold Cons offs [], True) \<and> distinct offs"
  using area_foreach_exact [OF wf_example_area] by metis

text \<open>
  C4: A record pointer, once obtained, stays valid and keeps its content. After any further sequence of
  insertions the same name is found at the same place, the record there is the record that was there
  before, with its name, its serial, and its inline value or the offset of its long value, and every
  long value of the area is still the same string.
\<close>

theorem area_records_stable:
  assumes "wf_area pa" "\<forall>x \<in> set xs. c_string (fst x) \<and> length (snd x) + 1 < 2 ^ 32"
    and "c_string nm" "pa_find pa nm = Some (Some off)"
  shows "\<exists>pa' pi. pa_add_all pa xs = Some pa' \<and> wf_area pa' \<and> pa_find pa' nm = Some (Some off) \<and>
    info_at pa off = Some pi \<and> info_at pa' off = Some pi \<and> pi_name pi = nm \<and>
    (\<forall>o' s. long_value_at pa o' = Some s \<longrightarrow> long_value_at pa' o' = Some s)"
proof -
  have xs: "area_store.puttable xs" using assms(2) by (simp add: area_store.puttable_def)
  obtain pa' where pa': "area_store.put_all pa xs = Some pa'" "wf_area pa'"
    using area_store.put_all_returns [OF assms(1) xs] by blast
  obtain pi where "info_at pa off = Some pi" "pi_name pi = nm"
    using area_store.lookup_named [OF assms(1,3,4)] by blast
  then show ?thesis
    using pa' area_store.put_all_stable [OF assms(1) xs assms(3,4) pa'(1)] area_store.put_all_keeps [OF assms(1) xs pa'(1)]
    by (auto simp: pa_add_all_put_all)
qed

definition example_area1 :: prop_area where
  "example_area1 = fst (the (pa_add example_area ''ro.secure'' (length ''ro.secure'') ''1'' 1))"

lemma example_area1_wf: "wf_area example_area1"
proof -
  have h: "c_string ''ro.secure''" "(1::nat) + 1 < 2 ^ 32" by simp_all
  obtain pa' ok where "pa_add example_area ''ro.secure'' (length ''ro.secure'') ''1'' 1 = Some (pa', ok)" "wf_area pa'"
    using wf_area_add [OF wf_example_area h, of "''1''"] by blast
  then show ?thesis unfolding example_area1_def by (metis fst_conv option.sel)
qed

lemmas area_eval = example_area_def example_area1_def PA_SIZE_def sizeof_prop_area_def
  new_prop_area_def new_trie_node_def sizeof_prop_trie_node_def sizeof_prop_info_def
  PROP_VALUE_MAX_def align_up_def pa_add_def pa_find_def find_property_def
  find_property_loop.simps find_prop_trie_node.simps node_at_def children_root_def
  new_prop_trie_node_def new_prop_info_def allocate_obj_def store_obj_def to_prop_obj_def
  strchr_def cmp_prop_name_def c_head_def

lemma example_area1_find: "pa_find example_area1 ''ro.secure'' = Some (Some 164)"
  by (simp add: area_eval)

theorem area_records_stable_witness:
  "\<exists>pa' pi. pa_add_all example_area1 [(''ro.debuggable'', ''0'')] = Some pa' \<and>
     pa_find pa' ''ro.secure'' = Some (Some 164) \<and> info_at example_area1 164 = Some pi \<and> info_at pa' 164 = Some pi"
  using area_records_stable [OF example_area1_wf, of "[(''ro.debuggable'', ''0'')]" "''ro.secure''" 164]
    example_area1_find by simp blast

end
