(* ===== verification/Utf8.thy ===== *)
theory Utf8
  imports Bionic_Prelude
begin

text \<open>
  The multibyte conversions of libc/bionic: mbrtoc32.cpp, c32rtomb.cpp, mbrtoc16.cpp, c16rtomb.cpp
  and the string conversions of wchar.cpp, on the four-byte conversion state of
  private/bionic_mbstate.h.

  A call returns a record: the value returned, what it stored through its output pointer, the errno
  it set (\<open>None\<close> when it left errno alone) and the conversion state. Input is a list of bytes with a
  count \<open>n\<close>; reading past the end of the list, and storing outside the four bytes of the state, is
  undefined behaviour in the source and makes the whole call \<open>None\<close>. A null \<open>ps\<close> argument selects a
  static state of the function; the model takes the state that is used as its argument.
\<close>

section \<open>The conversion state\<close>

datatype mb_ret = Count nat | ILLEGAL_SEQUENCE | INCOMPLETE_SEQUENCE | NO_BYTES_CONSUMED

datatype mb_errno = EINVAL | EILSEQ

datatype mbstate = MB u8 u8 u8 u8

record 'a conv =
  cv_ret :: mb_ret
  cv_out :: 'a
  cv_errno :: "mb_errno option"
  cv_state :: mbstate

definition mbstate_zero :: mbstate where
  "mbstate_zero = MB 0 0 0 0"

fun mbstate_is_initial :: "mbstate \<Rightarrow> bool" where
  "mbstate_is_initial (MB a b c d) = (a = 0 \<and> b = 0 \<and> c = 0 \<and> d = 0)"

fun mbstate_bytes_so_far :: "mbstate \<Rightarrow> nat" where
  "mbstate_bytes_so_far (MB a b c d) =
     (if c \<noteq> 0 then 3 else if b \<noteq> 0 then 2 else if a \<noteq> 0 then 1 else 0)"

fun mbstate_set_byte :: "mbstate \<Rightarrow> nat \<Rightarrow> u8 \<Rightarrow> mbstate option" where
  "mbstate_set_byte (MB a b c d) i x =
     (if i = 0 then Some (MB x b c d) else if i = 1 then Some (MB a x c d)
      else if i = 2 then Some (MB a b x d) else if i = 3 then Some (MB a b c x) else None)"

fun mbstate_get_byte :: "mbstate \<Rightarrow> nat \<Rightarrow> u8" where
  "mbstate_get_byte (MB a b c d) n = [a, b, c, d] ! n"

definition mbstate_reset :: "mbstate \<Rightarrow> mbstate" where
  "mbstate_reset ps = mbstate_zero"

definition mbstate_reset_and_return_illegal :: "mb_errno \<Rightarrow> mbstate \<Rightarrow> 'a \<Rightarrow> 'a conv" where
  "mbstate_reset_and_return_illegal e ps out =
     \<lparr>cv_ret = ILLEGAL_SEQUENCE, cv_out = out, cv_errno = Some e, cv_state = mbstate_reset ps\<rparr>"

definition mbstate_reset_and_return :: "nat \<Rightarrow> mbstate \<Rightarrow> 'a \<Rightarrow> 'a conv" where
  "mbstate_reset_and_return r ps out =
     \<lparr>cv_ret = Count r, cv_out = out, cv_errno = None, cv_state = mbstate_reset ps\<rparr>"

section \<open>UTF-8 to UTF-32\<close>

text \<open>The length, the mask of the first byte and the smallest code of a sequence, by its first byte.\<close>

definition utf8_lead :: "u8 \<Rightarrow> (u8 \<times> nat \<times> u32) option" where
  "utf8_lead ch =
     (if ch AND 0xe0 = 0xc0 then Some (0x1f, 2, 0x80)
      else if ch AND 0xf0 = 0xe0 then Some (0x0f, 3, 0x800)
      else if ch AND 0xf8 = 0xf0 then Some (0x07, 4, 0x10000)
      else None)"

datatype fill_result = Filled mbstate | Malformed | OutOfBounds

fun mb_fill :: "mbstate \<Rightarrow> nat \<Rightarrow> nat \<Rightarrow> u8 list \<Rightarrow> fill_result" where
  "mb_fill state pos 0 s = Filled state"
| "mb_fill state pos (Suc k) [] = OutOfBounds"
| "mb_fill state pos (Suc k) (ch # s) =
     (if \<not> mbstate_is_initial state \<and> ch AND 0xc0 \<noteq> 0x80 then Malformed
      else case mbstate_set_byte state pos ch of
             None \<Rightarrow> OutOfBounds
           | Some state' \<Rightarrow> mb_fill state' (Suc pos) k s)"

definition mb_decode :: "mbstate \<Rightarrow> u8 \<Rightarrow> nat \<Rightarrow> u32" where
  "mb_decode state msk len =
     foldl (\<lambda>c32 i. push_bit 6 c32 OR ucast (mbstate_get_byte state i AND 0x3f))
       (ucast (mbstate_get_byte state 0 AND msk)) [1..<len]"

definition mbrtoc32 :: "bool \<Rightarrow> u8 list option \<Rightarrow> nat \<Rightarrow> mbstate \<Rightarrow> u32 option conv option" where
  "mbrtoc32 pc32_arg s_arg n_arg state =
     (if mbstate_get_byte state 3 \<noteq> 0
      then Some (mbstate_reset_and_return_illegal EINVAL state None)
      else
        let (s, n, pc32) = (case s_arg of None \<Rightarrow> ([0], 1, False) | Some s \<Rightarrow> (s, n_arg, pc32_arg)) in
        if n = 0
        then Some \<lparr>cv_ret = INCOMPLETE_SEQUENCE, cv_out = None, cv_errno = None, cv_state = state\<rparr>
        else
          (case s of
            [] \<Rightarrow> None
          | first # _ \<Rightarrow>
              if mbstate_is_initial state \<and> first AND NOT 0x7f = 0
              then Some \<lparr>cv_ret = Count (if first \<noteq> 0 then 1 else 0),
                         cv_out = (if pc32 then Some (ucast first) else None),
                         cv_errno = None, cv_state = state\<rparr>
              else
                let bytes_so_far = mbstate_bytes_so_far state;
                    ch = (if bytes_so_far > 0 then mbstate_get_byte state 0 else first) in
                (case utf8_lead ch of
                  None \<Rightarrow> Some (mbstate_reset_and_return_illegal EILSEQ state None)
                | Some (msk, len, lower_bound) \<Rightarrow>
                    let bytes_wanted = (len + 2 ^ 64 - bytes_so_far) mod 2 ^ 64 in
                    (case mb_fill state bytes_so_far (min bytes_wanted n) s of
                      OutOfBounds \<Rightarrow> None
                    | Malformed \<Rightarrow> Some (mbstate_reset_and_return_illegal EILSEQ state None)
                    | Filled state' \<Rightarrow>
                        if min bytes_wanted n < bytes_wanted
                        then Some \<lparr>cv_ret = INCOMPLETE_SEQUENCE, cv_out = None, cv_errno = None,
                                   cv_state = state'\<rparr>
                        else
                          let c32 = mb_decode state' msk len in
                          if c32 < lower_bound
                          then Some (mbstate_reset_and_return_illegal EILSEQ state' None)
                          else if (c32 \<ge> 0xd800 \<and> c32 \<le> 0xdfff) \<or> c32 > 0x10ffff
                          then Some (mbstate_reset_and_return_illegal EILSEQ state' None)
                          else Some (mbstate_reset_and_return (if c32 = 0 then 0 else bytes_wanted)
                                       state' (if pc32 then Some c32 else None))))))"

section \<open>UTF-32 to UTF-8\<close>

text \<open>The loop that writes \<open>s[i]\<close> for \<open>i\<close> from \<open>length - 1\<close> down to 1 and then \<open>*s\<close>.\<close>

fun utf8_emit :: "u32 \<Rightarrow> u8 \<Rightarrow> nat \<Rightarrow> u8 list \<Rightarrow> u8 list" where
  "utf8_emit c32 lead 0 tail = (ucast (c32 AND 0xff) OR lead) # tail"
| "utf8_emit c32 lead (Suc i) tail =
     utf8_emit (drop_bit 6 c32) lead i ((ucast (c32 AND 0x3f) OR 0x80) # tail)"

definition c32rtomb :: "bool \<Rightarrow> u32 \<Rightarrow> mbstate \<Rightarrow> u8 list conv" where
  "c32rtomb s c32 state =
     (if \<not> s then mbstate_reset_and_return 1 state []
      else if c32 = 0 then mbstate_reset_and_return 1 state [0]
      else if \<not> mbstate_is_initial state then mbstate_reset_and_return_illegal EILSEQ state []
      else if c32 AND NOT 0x7f = 0
      then \<lparr>cv_ret = Count 1, cv_out = [ucast c32], cv_errno = None, cv_state = state\<rparr>
      else if c32 AND NOT 0x7ff = 0
      then \<lparr>cv_ret = Count 2, cv_out = utf8_emit c32 0xc0 1 [], cv_errno = None, cv_state = state\<rparr>
      else if c32 AND NOT 0xffff = 0
      then \<lparr>cv_ret = Count 3, cv_out = utf8_emit c32 0xe0 2 [], cv_errno = None, cv_state = state\<rparr>
      else if c32 AND NOT 0x1fffff = 0
      then \<lparr>cv_ret = Count 4, cv_out = utf8_emit c32 0xf0 3 [], cv_errno = None, cv_state = state\<rparr>
      else \<lparr>cv_ret = ILLEGAL_SEQUENCE, cv_out = [], cv_errno = Some EILSEQ, cv_state = state\<rparr>)"

section \<open>UTF-16\<close>

definition mbspartialc16 :: "mbstate \<Rightarrow> bool" where
  "mbspartialc16 state = (mbstate_get_byte state 3 \<noteq> 0)"

fun mb_put :: "nat \<Rightarrow> u8 \<Rightarrow> mbstate \<Rightarrow> mbstate" where
  "mb_put i x st = (case mbstate_set_byte st i x of Some st' \<Rightarrow> st' | None \<Rightarrow> st)"

definition begin_surrogate :: "u32 \<Rightarrow> nat \<Rightarrow> mbstate \<Rightarrow> u16 option conv" where
  "begin_surrogate c32_arg nconv state =
     (let c32 = c32_arg - 0x10000;
          trail = ucast (c32 AND 0x3ff) OR 0xdc00 :: u16 in
      \<lparr>cv_ret = Count nconv,
       cv_out = Some (ucast (drop_bit 10 (c32 AND 0xffc00)) OR 0xd800),
       cv_errno = None,
       cv_state = mb_put 3 (of_nat nconv AND 0xff)
                    (mb_put 1 (ucast (drop_bit 8 (trail AND 0xff00)))
                       (mb_put 0 (ucast (trail AND 0x00ff)) state))\<rparr>)"

definition finish_surrogate :: "mbstate \<Rightarrow> u16 option conv" where
  "finish_surrogate state =
     \<lparr>cv_ret = NO_BYTES_CONSUMED,
      cv_out = Some (push_bit 8 (ucast (mbstate_get_byte state 1)) OR ucast (mbstate_get_byte state 0)),
      cv_errno = None, cv_state = mbstate_reset state\<rparr>"

text \<open>
  \<open>mbrtoc16\<close> always has somewhere to store to (a local when \<open>pc16\<close> is null), so the model returns
  what is stored in \<open>*pc16\<close>. The call of \<open>mbrtoc32\<close> passes the address of a local: \<open>c32\<close> below is
  read only after it was stored, the last case stands for a read before that.
\<close>

definition mbrtoc16 :: "u8 list option \<Rightarrow> nat \<Rightarrow> mbstate \<Rightarrow> u16 option conv option" where
  "mbrtoc16 s n state =
     (if mbspartialc16 state then Some (finish_surrogate state)
      else
        Option.bind (mbrtoc32 True s n state)
          (\<lambda>r. case cv_ret r of
                 Count nconv \<Rightarrow>
                   if nconv = 0 then Some (mbstate_reset_and_return nconv (cv_state r) None)
                   else (case cv_out r of
                           None \<Rightarrow> None
                         | Some c32 \<Rightarrow>
                             if c32 < 0x10000
                             then Some (mbstate_reset_and_return nconv (cv_state r) (Some (ucast c32)))
                             else if c32 > 0x10ffff
                             then Some (mbstate_reset_and_return_illegal EILSEQ (cv_state r) None)
                             else Some (begin_surrogate c32 nconv (cv_state r)))
               | e \<Rightarrow> Some \<lparr>cv_ret = e, cv_out = None, cv_errno = cv_errno r, cv_state = cv_state r\<rparr>))"

definition is_high_surrogate :: "u16 \<Rightarrow> bool" where
  "is_high_surrogate c16 = (c16 \<ge> 0xd800 \<and> c16 < 0xdc00)"

definition is_low_surrogate :: "u16 \<Rightarrow> bool" where
  "is_low_surrogate c16 = (c16 \<ge> 0xdc00 \<and> c16 < 0xe000)"

text \<open>
  The second \<open>c32rtomb\<close> call below passes a null state, which selects the static state of
  \<open>c32rtomb\<close>; that state is never changed from its initial value, see \<open>c32rtomb\<close>.
\<close>

definition c16rtomb :: "bool \<Rightarrow> u16 \<Rightarrow> mbstate \<Rightarrow> u8 list conv" where
  "c16rtomb s c16 state =
     (if mbstate_is_initial state then
        (if is_high_surrogate c16 then
           (let c32 = push_bit 10 (ucast c16 AND NOT 0xd800) :: u32 in
            \<lparr>cv_ret = Count 0, cv_out = [], cv_errno = None,
             cv_state = mb_put 2 (ucast (drop_bit 8 (c32 AND 0x00ff00)))
                          (mb_put 3 (ucast (drop_bit 16 (c32 AND 0xff0000))) state)\<rparr>)
         else if is_low_surrogate c16 then mbstate_reset_and_return_illegal EINVAL state []
         else c32rtomb s (ucast c16) state)
      else if \<not> is_low_surrogate c16 then mbstate_reset_and_return_illegal EINVAL state []
      else
        (let c32 = (push_bit 16 (ucast (mbstate_get_byte state 3))
                    OR push_bit 8 (ucast (mbstate_get_byte state 2))
                    OR (ucast c16 AND NOT 0xdc00)) + 0x10000 in
         (c32rtomb s c32 mbstate_zero)\<lparr>cv_state := mbstate_reset state\<rparr>))"

section \<open>Whole strings\<close>

text \<open>
  \<open>sc_out\<close> is what was written to \<open>dst\<close>, in order from \<open>dst[0]\<close>; \<open>sc_src\<close> is the distance \<open>*src\<close> was
  advanced, or \<open>None\<close> when it was set to null.
\<close>

record 'a sconv =
  sc_ret :: mb_ret
  sc_out :: "'a list"
  sc_src :: "nat option"
  sc_errno :: "mb_errno option"
  sc_state :: mbstate

definition mbsinit :: "mbstate option \<Rightarrow> bool" where
  "mbsinit ps = (case ps of None \<Rightarrow> True | Some st \<Rightarrow> mbstate_is_initial st)"

definition mbrtowc :: "bool \<Rightarrow> u8 list option \<Rightarrow> nat \<Rightarrow> mbstate \<Rightarrow> u32 option conv option" where
  "mbrtowc pwc s n state = mbrtoc32 pwc s n state"

definition sconv_illegal :: "'a list \<Rightarrow> nat option \<Rightarrow> mbstate \<Rightarrow> 'a sconv" where
  "sconv_illegal out src state =
     \<lparr>sc_ret = ILLEGAL_SEQUENCE, sc_out = out, sc_src = src, sc_errno = Some EILSEQ,
      sc_state = mbstate_reset state\<rparr>"

definition sconv_return :: "nat \<Rightarrow> 'a list \<Rightarrow> nat option \<Rightarrow> mbstate \<Rightarrow> 'a sconv" where
  "sconv_return o_arg out src state =
     \<lparr>sc_ret = Count o_arg, sc_out = out, sc_src = src, sc_errno = None, sc_state = mbstate_reset state\<rparr>"

function mbsnrtowcs_measure :: "u8 list \<Rightarrow> nat \<Rightarrow> mbstate \<Rightarrow> nat \<Rightarrow> nat \<Rightarrow> u32 sconv option" where
  "mbsnrtowcs_measure src nmc state i cnt =
     (if i < nmc then
        (case drop i src of
           [] \<Rightarrow> None
         | ch # _ \<Rightarrow>
             if ch < 0x80 then
               (if ch = 0 then Some (sconv_return cnt [] (Some 0) state)
                else mbsnrtowcs_measure src nmc state (i + 1) (cnt + 1))
             else
               (case mbrtowc False (Some (drop i src)) (nmc - i) state of
                  None \<Rightarrow> None
                | Some r \<Rightarrow>
                    (case cv_ret r of
                       Count k \<Rightarrow>
                         if k = 0 then Some (sconv_return cnt [] (Some 0) (cv_state r))
                         else mbsnrtowcs_measure src nmc (cv_state r) (i + k) (cnt + 1)
                     | _ \<Rightarrow> Some (sconv_illegal [] (Some 0) (cv_state r)))))
      else Some (sconv_return cnt [] (Some 0) state))"
  by pat_completeness auto
termination by (relation "measure (\<lambda>(src, nmc, state, i, cnt). nmc - i)") auto

declare mbsnrtowcs_measure.simps [simp del]

function mbsnrtowcs_convert ::
  "u8 list \<Rightarrow> nat \<Rightarrow> nat \<Rightarrow> mbstate \<Rightarrow> nat \<Rightarrow> u32 list \<Rightarrow> u32 sconv option" where
  "mbsnrtowcs_convert src nmc len state i dst =
     (if i < nmc \<and> length dst < len then
        (case drop i src of
           [] \<Rightarrow> None
         | ch # _ \<Rightarrow>
             if ch < 0x80 then
               (if ch = 0 then Some (sconv_return (length dst) (dst @ [0]) None state)
                else mbsnrtowcs_convert src nmc len state (i + 1) (dst @ [ucast ch]))
             else
               (case mbrtowc True (Some (drop i src)) (nmc - i) state of
                  None \<Rightarrow> None
                | Some r \<Rightarrow>
                    (case cv_ret r of
                       ILLEGAL_SEQUENCE \<Rightarrow> Some (sconv_illegal dst (Some i) (cv_state r))
                     | INCOMPLETE_SEQUENCE \<Rightarrow> Some (sconv_illegal dst (Some nmc) (cv_state r))
                     | NO_BYTES_CONSUMED \<Rightarrow> None
                     | Count k \<Rightarrow>
                         if k = 0
                         then Some (sconv_return (length dst) (dst @ [0]) None (cv_state r))
                         else (case cv_out r of
                                 None \<Rightarrow> None
                               | Some wc \<Rightarrow>
                                   mbsnrtowcs_convert src nmc len (cv_state r) (i + k) (dst @ [wc])))))
      else Some (sconv_return (length dst) dst (Some i) state))"
  by pat_completeness auto
termination by (relation "measure (\<lambda>(src, nmc, len, state, i, dst). nmc - i)") auto

declare mbsnrtowcs_convert.simps [simp del]

definition mbsnrtowcs :: "bool \<Rightarrow> u8 list \<Rightarrow> nat \<Rightarrow> nat \<Rightarrow> mbstate \<Rightarrow> u32 sconv option" where
  "mbsnrtowcs dst src nmc len state =
     (if nmc > 0 \<and> mbstate_bytes_so_far state > 0 then
        (case src of
           [] \<Rightarrow> None
         | ch # _ \<Rightarrow>
             if ch < 0x80 then Some (sconv_illegal [] (Some 0) state)
             else if \<not> dst then mbsnrtowcs_measure src nmc state 0 0
             else mbsnrtowcs_convert src nmc len state 0 [])
      else if \<not> dst then mbsnrtowcs_measure src nmc state 0 0
      else mbsnrtowcs_convert src nmc len state 0 [])"

definition SIZE_MAX :: nat where "SIZE_MAX = 2 ^ 64 - 1"

definition mbsrtowcs :: "bool \<Rightarrow> u8 list \<Rightarrow> nat \<Rightarrow> mbstate \<Rightarrow> u32 sconv option" where
  "mbsrtowcs dst src len state = mbsnrtowcs dst src SIZE_MAX len state"

definition wcrtomb :: "bool \<Rightarrow> u32 \<Rightarrow> mbstate \<Rightarrow> u8 list conv" where
  "wcrtomb s wc state = c32rtomb s wc state"

definition MB_LEN_MAX :: nat where "MB_LEN_MAX = 4"

text \<open>
  The loops of \<open>wcsnrtombs\<close>: recursion over the wide characters from \<open>(*src)[i]\<close>, with the number \<open>n\<close>
  of them that are left. \<open>dst\<close> is what has been written, so \<open>o\<close> is its length.
\<close>

fun wcsnrtombs_measure :: "u32 list \<Rightarrow> nat \<Rightarrow> mbstate \<Rightarrow> nat \<Rightarrow> u8 sconv option" where
  "wcsnrtombs_measure src 0 state cnt =
     Some \<lparr>sc_ret = Count cnt, sc_out = [], sc_src = Some 0, sc_errno = None, sc_state = state\<rparr>"
| "wcsnrtombs_measure [] (Suc n) state cnt = None"
| "wcsnrtombs_measure (wc # src) (Suc n) state cnt =
     (if wc < 0x80 then
        (if wc = 0
         then Some \<lparr>sc_ret = Count cnt, sc_out = [], sc_src = Some 0, sc_errno = None, sc_state = state\<rparr>
         else wcsnrtombs_measure src n state (cnt + 1))
      else
        (let r = wcrtomb True wc state in
         case cv_ret r of
           Count k \<Rightarrow> wcsnrtombs_measure src n (cv_state r) (cnt + k)
         | e \<Rightarrow> Some \<lparr>sc_ret = e, sc_out = [], sc_src = Some 0, sc_errno = cv_errno r,
                       sc_state = cv_state r\<rparr>))"

fun wcsnrtombs_convert ::
  "u32 list \<Rightarrow> nat \<Rightarrow> nat \<Rightarrow> mbstate \<Rightarrow> nat \<Rightarrow> u8 list \<Rightarrow> u8 sconv option" where
  "wcsnrtombs_convert src 0 len state i dst =
     Some \<lparr>sc_ret = Count (length dst), sc_out = dst, sc_src = Some i, sc_errno = None, sc_state = state\<rparr>"
| "wcsnrtombs_convert src (Suc n) len state i dst =
     (if length dst < len then
        (case src of
           [] \<Rightarrow> None
         | wc # src' \<Rightarrow>
             if wc < 0x80 then
               (if wc = 0
                then Some \<lparr>sc_ret = Count (length dst), sc_out = dst @ [0], sc_src = None,
                           sc_errno = None, sc_state = state\<rparr>
                else wcsnrtombs_convert src' n len state (i + 1) (dst @ [ucast wc]))
             else
               (let r = wcrtomb True wc state in
                case cv_ret r of
                  Count k \<Rightarrow>
                    if len - length dst \<ge> MB_LEN_MAX \<or> k \<le> len - length dst
                    then wcsnrtombs_convert src' n len (cv_state r) (i + 1) (dst @ take k (cv_out r))
                    else Some \<lparr>sc_ret = Count (length dst), sc_out = dst, sc_src = Some i,
                               sc_errno = None, sc_state = cv_state r\<rparr>
                | e \<Rightarrow> Some \<lparr>sc_ret = e, sc_out = dst, sc_src = Some i, sc_errno = cv_errno r,
                              sc_state = cv_state r\<rparr>))
      else Some \<lparr>sc_ret = Count (length dst), sc_out = dst, sc_src = Some i, sc_errno = None,
                 sc_state = state\<rparr>)"

definition wcsnrtombs :: "bool \<Rightarrow> u32 list \<Rightarrow> nat \<Rightarrow> nat \<Rightarrow> mbstate \<Rightarrow> u8 sconv option" where
  "wcsnrtombs dst src nwc len state =
     (if \<not> mbstate_is_initial state then Some (sconv_illegal [] (Some 0) state)
      else if \<not> dst then wcsnrtombs_measure src nwc state 0
      else wcsnrtombs_convert src nwc len state 0 [])"

definition wcsrtombs :: "bool \<Rightarrow> u32 list \<Rightarrow> nat \<Rightarrow> mbstate \<Rightarrow> u8 sconv option" where
  "wcsrtombs dst src len state = wcsnrtombs dst src SIZE_MAX len state"

fun wmemchr :: "u32 list \<Rightarrow> u32 \<Rightarrow> nat \<Rightarrow> nat option" where
  "wmemchr s c 0 = None"
| "wmemchr [] c (Suc n) = None"
| "wmemchr (x # s) c (Suc n) = (if x = c then Some 0 else map_option Suc (wmemchr s c n))"

definition mblen :: "u8 list option \<Rightarrow> nat \<Rightarrow> u32 option conv option" where
  "mblen s n = mbrtoc32 False s n mbstate_zero"

end
