(* ===== verification/Utf8_Bits.thy ===== *)
theory Utf8_Bits
  imports Utf8
begin

text \<open>
  The bit-level facts behind UTF-8: a code point is cut into groups of six bits, least significant
  last, and the lead byte carries the length and the remaining bits. The two directions are
  \<open>foldl_conts\<close> and \<open>foldl_add_bits\<close> for the continuation bytes and \<open>utf8_lead_byte\<close> and
  \<open>utf8_lead_SomeD\<close> for the lead byte.
\<close>

section \<open>Bits\<close>

named_theorems mask_consts \<open>numerals as masks, so that the bitwise automation can read them\<close>

lemma masks8 [mask_consts]:
  "(0xc0::u8) = NOT (mask 6)" "(0xe0::u8) = NOT (mask 5)" "(0xf0::u8) = NOT (mask 4)"
  "(0xf8::u8) = NOT (mask 3)" "(0x80::u8) = NOT (mask 7)" "(0x3f::u8) = mask 6" "(0x1f::u8) = mask 5"
  "(0x0f::u8) = mask 4" "(0x07::u8) = mask 3" "(0x7f::u8) = mask 7"
  by (simp_all add: mask_eq_exp_minus_1)

lemma masks32 [mask_consts]:
  "(0x3f::u32) = mask 6" "(0x7f::u32) = mask 7" "(0x1f::u32) = mask 5" "(0x0f::u32) = mask 4" "(0x07::u32) = mask 3"
  "(0x7ff::u32) = mask 11" "(0xff::u32) = mask 8" "(0xffff::u32) = mask 16" "(0x1fffff::u32) = mask 21"
  by (simp_all add: mask_eq_exp_minus_1)

section \<open>Continuation bytes\<close>

definition cont :: "u8 \<Rightarrow> bool" where
  "cont b = (b AND 0xc0 = 0x80)"

definition cont_byte :: "u32 \<Rightarrow> u8" where
  "cont_byte c = ucast (c AND 0x3f) OR 0x80"

primrec conts :: "u32 \<Rightarrow> nat \<Rightarrow> u8 list" where
  "conts c 0 = []"
| "conts c (Suc k) = conts (drop_bit 6 c) k @ [cont_byte c]"

definition add_bits :: "u32 \<Rightarrow> u8 \<Rightarrow> u32" where
  "add_bits c b = push_bit 6 c OR ucast (b AND 0x3f)"

lemma length_conts [simp]: "length (conts c k) = k"
  by (induction k arbitrary: c) auto

lemma cont_cont_byte [simp]: "cont (cont_byte c)"
  unfolding cont_def cont_byte_def mask_consts
  by (rule bit_eqI) (auto simp: bit_simps)

lemma conts_cont: "b \<in> set (conts c k) \<Longrightarrow> cont b"
  by (induction k arbitrary: c) auto

lemma add_bits_cont_byte: "add_bits (drop_bit 6 c) (cont_byte c) = c"
proof (rule bit_eqI)
  fix n
  show "bit (add_bits (drop_bit 6 c) (cont_byte c)) n = bit c n"
    unfolding add_bits_def cont_byte_def mask_consts
    by (cases "n < 6") (auto simp: bit_simps dest: bit_imp_le_length)
qed

lemma foldl_conts: "foldl add_bits (drop_bit (6 * k) c) (conts c k) = c"
proof (induction k arbitrary: c)
  case (Suc k)
  have "drop_bit (6 * Suc k) c = drop_bit (6 * k) (drop_bit 6 c)"
    by (simp add: algebra_simps)
  then show ?case
    using Suc [of "drop_bit 6 c"] by (simp add: add_bits_cont_byte)
qed simp

lemma less8: "n < 8 \<longleftrightarrow> n \<in> {0, 1, 2, 3, 4, 5, 6, 7 :: nat}"
  by auto

lemma byte_eq_iff:
  "(a :: u8) = b \<longleftrightarrow>
     bit a 0 = bit b 0 \<and> bit a 1 = bit b 1 \<and> bit a 2 = bit b 2 \<and> bit a 3 = bit b 3 \<and>
     bit a 4 = bit b 4 \<and> bit a 5 = bit b 5 \<and> bit a 6 = bit b 6 \<and> bit a 7 = bit b 7"
  unfolding bit_eq_iff by (simp add: less8) blast

lemma cont_bits: "cont b \<longleftrightarrow> \<not> bit b 6 \<and> bit b 7"
  unfolding cont_def mask_consts byte_eq_iff by (simp add: bit_simps)

lemma cont_byte_add_bits: "cont b \<Longrightarrow> cont_byte (add_bits c b) = b"
  unfolding cont_byte_def add_bits_def cont_bits mask_consts byte_eq_iff by (simp add: bit_simps)

lemma drop_bit_add_bits:
  assumes "unat c < 2 ^ 26"
  shows "drop_bit 6 (add_bits c b) = c"
proof (rule bit_eqI)
  fix n
  have "\<not> bit c m" if "26 \<le> m" for m
    using assms that and_not_mask_less [of 26 c] by (simp add: high_bits_clear)
  then show "bit (drop_bit 6 (add_bits c b)) n = bit c n"
    unfolding add_bits_def mask_consts
    by (auto simp: bit_simps dest: bit_imp_le_length) (meson linorder_not_less)+
qed

lemma unat_ucast_byte [simp]: "unat (ucast (b :: u8) :: u32) = unat b"
  by (simp add: unsigned_ucast_eq take_bit_nat_eq_self_iff) (use unsigned_less [of b, where 'a = nat] in simp)

lemma unat_add_bits:
  assumes "unat c < 2 ^ 26"
  shows "unat (add_bits c b) = unat c * 64 + unat (b AND 0x3f)" "unat (add_bits c b) < (unat c + 1) * 64"
proof -
  have "unat (add_bits c b) div 64 = unat c"
    using arg_cong [OF drop_bit_add_bits [OF assms, of b], of unat]
    by (simp add: drop_bit_eq_div unat_div)
  moreover have "take_bit 6 (add_bits c b) = ucast (b AND 0x3f)"
    unfolding add_bits_def mask_consts by (rule bit_eqI) (auto simp: bit_simps)
  then have "unat (take_bit 6 (add_bits c b)) = unat (b AND 0x3f)"
    by (simp only: unat_ucast_byte)
  then have "unat (add_bits c b) mod 64 = unat (b AND 0x3f)"
    by (simp add: take_bit_eq_mod unat_mod)
  ultimately show eq: "unat (add_bits c b) = unat c * 64 + unat (b AND 0x3f)"
    by (metis div_mult_mod_eq)
  have "unat (b AND 0x3f) < 64"
    using unat_and_mask [of b 6] by (simp add: mask_eq_exp_minus_1)
  then show "unat (add_bits c b) < (unat c + 1) * 64"
    using eq by simp
qed

lemma foldl_add_bits:
  assumes "\<forall>b\<in>set bs. cont b" and "(unat a + 1) * 64 ^ length bs \<le> 2 ^ 32"
  shows "conts (foldl add_bits a bs) (length bs) = bs
    \<and> drop_bit (6 * length bs) (foldl add_bits a bs) = a
    \<and> unat (foldl add_bits a bs) < (unat a + 1) * 64 ^ length bs"
  using assms
proof (induction bs rule: rev_induct)
  case (snoc b bs)
  let ?d = "foldl add_bits a bs"
  have small: "(unat a + 1) * 64 ^ length bs \<le> 2 ^ 26"
    using snoc.prems(2) by simp
  then have IH: "conts ?d (length bs) = bs" "drop_bit (6 * length bs) ?d = a"
    "unat ?d < (unat a + 1) * 64 ^ length bs"
    using snoc by simp_all
  then have d: "unat ?d < 2 ^ 26"
    using small by linarith
  have "drop_bit (6 * Suc (length bs)) (add_bits ?d b) = a"
    using IH(2) drop_bit_add_bits [OF d, of b] by (metis drop_bit_drop_bit mult_Suc_right add.commute)
  moreover have "unat (add_bits ?d b) < (unat a + 1) * 64 ^ length bs * 64"
    using unat_add_bits(2) [OF d, of b] IH(3)
      mult_le_mono1 [of "unat ?d + 1" "(unat a + 1) * 64 ^ length bs" 64] by linarith
  ultimately show ?case
    using IH d snoc.prems by (simp add: drop_bit_add_bits cont_byte_add_bits)
qed simp

section \<open>Lead bytes\<close>

lemma lead_bits:
  "b AND 0xe0 = 0xc0 \<longleftrightarrow> bit b 7 \<and> bit b 6 \<and> \<not> bit b 5"
  "b AND 0xf0 = 0xe0 \<longleftrightarrow> bit b 7 \<and> bit b 6 \<and> bit b 5 \<and> \<not> bit b 4"
  "b AND 0xf8 = 0xf0 \<longleftrightarrow> bit b 7 \<and> bit b 6 \<and> bit b 5 \<and> bit b 4 \<and> \<not> bit b 3"
  for b :: u8
  unfolding mask_consts byte_eq_iff by (auto simp: bit_simps)

lemma ascii_bits: "b AND NOT 0x7f = 0 \<longleftrightarrow> \<not> bit b 7" "b < 0x80 \<longleftrightarrow> \<not> bit b 7" for b :: u8
proof -
  show "b AND NOT 0x7f = 0 \<longleftrightarrow> \<not> bit b 7"
    unfolding mask_consts byte_eq_iff by (auto simp: bit_simps)
  then show "b < 0x80 \<longleftrightarrow> \<not> bit b 7"
    unfolding mask_consts using and_not_mask_less [of 7 b] by (simp add: word_less_nat_alt mask_consts(5) [symmetric])
qed

text \<open>The lead byte of a sequence of \<open>len\<close> bytes, and what it carries.\<close>

definition lead_of :: "nat \<Rightarrow> u8" where
  "lead_of len = (if len = 2 then 0xc0 else if len = 3 then 0xe0 else 0xf0)"

definition lead_byte :: "nat \<Rightarrow> u32 \<Rightarrow> u8" where
  "lead_byte len a = ucast (a AND 0xff) OR lead_of len"

definition lower_bound :: "nat \<Rightarrow> u32" where
  "lower_bound len = (if len = 2 then 0x80 else if len = 3 then 0x800 else 0x10000)"

lemma lead_byte_bits:
  "b AND 0xe0 = 0xc0 \<Longrightarrow> lead_byte 2 (ucast (b AND 0x1f)) = b"
  "b AND 0xf0 = 0xe0 \<Longrightarrow> lead_byte 3 (ucast (b AND 0x0f)) = b"
  "b AND 0xf8 = 0xf0 \<Longrightarrow> lead_byte 4 (ucast (b AND 0x07)) = b"
  unfolding lead_bits lead_byte_def lead_of_def mask_consts byte_eq_iff by (simp_all add: bit_simps)

lemma lead_value_less:
  "unat (b AND 0x1f :: u8) < 2 ^ 5" "unat (b AND 0x0f :: u8) < 2 ^ 4" "unat (b AND 0x07 :: u8) < 2 ^ 3"
  unfolding mask_consts by (rule unat_and_mask)+

lemma utf8_lead_SomeD:
  assumes "utf8_lead b = Some (m, len, lb)"
  shows "len \<in> {2, 3, 4}" "unat (b AND m) < 2 ^ (7 - len)" "lead_byte len (ucast (b AND m)) = b"
    "lb = lower_bound len" "b \<noteq> 0" "\<not> cont b" "bit b 7"
  using assms lead_byte_bits [of b] lead_value_less [of b]
  by (auto simp: utf8_lead_def lower_bound_def cont_bits lead_bits split: if_splits)

lemma lead_value:
  assumes "\<And>n. k \<le> n \<Longrightarrow> \<not> bit a n" and "k \<le> j" "j \<le> 8"
  shows "ucast ((ucast (a AND mask 8) OR NOT (mask j) :: u8) AND mask k) = (a :: u32)"
proof (rule bit_eqI)
  fix n
  show "bit (ucast ((ucast (a AND mask 8) OR NOT (mask j) :: u8) AND mask k) :: u32) n = bit a n"
    using assms by (cases "n < k") (auto simp: bit_simps)
qed

lemma utf8_lead_byte:
  assumes "len \<in> {2, 3, 4}" "unat a < 2 ^ (7 - len)"
  obtains m where "utf8_lead (lead_byte len a) = Some (m, len, lower_bound len)"
    "ucast (lead_byte len a AND m) = a"
proof -
  have clear: "\<not> bit a n" if "7 - len \<le> n" for n
    using and_not_mask_less [of "7 - len" a] assms that by (auto simp: high_bits_clear)
  consider "len = 2" | "len = 3" | "len = 4"
    using assms(1) by blast
  then show ?thesis
  proof cases
    case 1
    have "lead_byte 2 a AND 0xe0 = 0xc0"
      using clear [of 5] 1 
      unfolding lead_bits unfolding lead_byte_def lead_of_def mask_consts by (simp add: bit_simps)
    moreover have "ucast (lead_byte 2 a AND 0x1f) = a"
      using clear 1 lead_value [of 5 a 6] by (simp add: lead_byte_def lead_of_def mask_consts)
    ultimately show ?thesis
      using that 1 by (simp add: utf8_lead_def lower_bound_def)
  next
    case 2
    have "lead_byte 3 a AND 0xf0 = 0xe0"
      using clear [of 4] 2 
      unfolding lead_bits unfolding lead_byte_def lead_of_def mask_consts by (simp add: bit_simps)
    moreover have "ucast (lead_byte 3 a AND 0x0f) = a"
      using clear 2 lead_value [of 4 a 5] by (simp add: lead_byte_def lead_of_def mask_consts)
    ultimately show ?thesis
      using that 2 by (simp add: utf8_lead_def lower_bound_def lead_bits)
  next
    case 3
    have "lead_byte 4 a AND 0xf8 = 0xf0"
      using clear [of 3] 3 
      unfolding lead_bits unfolding lead_byte_def lead_of_def mask_consts by (simp add: bit_simps)
    moreover have "ucast (lead_byte 4 a AND 0x07) = a"
      using clear 3 lead_value [of 3 a 4] by (simp add: lead_byte_def lead_of_def mask_consts)
    ultimately show ?thesis
      using that 3 by (simp add: utf8_lead_def lower_bound_def lead_bits)
  qed
qed
end
