(* ===== verification/Utf8_Codec.thy ===== *)
theory Utf8_Codec
  imports Utf8_Bits
begin

text \<open>
  A reference encoder and scanner for UTF-8 and their round trip, and the first half of the link to
  the code: \<open>c32rtomb\<close> is the encoder, and the bytes an unfinished call leaves in the conversion
  state are the bytes it has read.
\<close>

section \<open>A reference encoder and decoder\<close>

definition scalar :: "u32 \<Rightarrow> bool" where
  "scalar c = (c \<le> 0x10ffff \<and> \<not> (0xd800 \<le> c \<and> c \<le> 0xdfff))"

definition utf8_length :: "u32 \<Rightarrow> nat" where
  "utf8_length c = (if c < 0x80 then 1 else if c < 0x800 then 2 else if c < 0x10000 then 3 else 4)"

definition utf8_encode :: "u32 \<Rightarrow> u8 list" where
  "utf8_encode c =
     (if c < 0x80 then [ucast c]
      else let k = utf8_length c - 1 in lead_byte (Suc k) (drop_bit (6 * k) c) # conts c k)"

datatype scan = Need | Bad | Done nat u32

definition utf8_scan :: "u8 list \<Rightarrow> scan" where
  "utf8_scan s =
     (case s of
        [] \<Rightarrow> Need
      | b # r \<Rightarrow>
          if b < 0x80 then Done 1 (ucast b)
          else (case utf8_lead b of
                  None \<Rightarrow> Bad
                | Some (m, len, lb) \<Rightarrow>
                    if \<exists>x\<in>set (take (len - 1) r). \<not> cont x then Bad
                    else if length r < len - 1 then Need
                    else let c = foldl add_bits (ucast (b AND m)) (take (len - 1) r) in
                         if c < lb \<or> \<not> scalar c then Bad else Done len c))"

lemma length_utf8_encode [simp]: "length (utf8_encode c) = utf8_length c"
  by (simp add: utf8_encode_def utf8_length_def)

lemma utf8_length_pos [simp]: "0 < utf8_length c" "utf8_length c \<noteq> 0" "utf8_length c \<le> 4"
  by (simp_all add: utf8_length_def)

lemma utf8_emit_conts: "utf8_emit c lead k tail = (ucast (drop_bit (6 * k) c AND 0xff) OR lead) # conts c k @ tail"
proof (induction k arbitrary: c tail)
  case (Suc k)
  have "drop_bit (6 * k) (drop_bit 6 c) = drop_bit (6 * Suc k) c"
    by (simp add: algebra_simps)
  then show ?case
    using Suc by (simp add: cont_byte_def)
qed simp

lemma c32_masks:
  "(c::u32) AND NOT 0x7f = 0 \<longleftrightarrow> c < 0x80" "c AND NOT 0x7ff = 0 \<longleftrightarrow> c < 0x800"
  "c AND NOT 0xffff = 0 \<longleftrightarrow> c < 0x10000" "c AND NOT 0x1fffff = 0 \<longleftrightarrow> c < 0x200000"
  using and_not_mask_less [of 7 c] and_not_mask_less [of 11 c] and_not_mask_less [of 16 c]
    and_not_mask_less [of 21 c]
  by (simp_all add: mask_eq_exp_minus_1 word_less_nat_alt)

lemma mbstate_is_initial_zero [simp]: "mbstate_is_initial mbstate_zero"
  by (simp add: mbstate_zero_def)

lemma mbstate_is_initial_iff: "mbstate_is_initial st \<longleftrightarrow> st = mbstate_zero"
  by (cases st) (simp add: mbstate_zero_def)

lemma c32rtomb_encode:
  assumes "c \<noteq> 0" "c < 0x200000"
  shows "c32rtomb True c mbstate_zero =
    \<lparr>cv_ret = Count (utf8_length c), cv_out = utf8_encode c, cv_errno = None, cv_state = mbstate_zero\<rparr>"
  using assms unfolding c32rtomb_def c32_masks
  by (simp add: utf8_length_def utf8_encode_def utf8_emit_conts lead_byte_def lead_of_def
      numeral_2_eq_2 numeral_3_eq_3 del: conts.simps)

lemma ucast_ucast_byte [simp]: "ucast (ucast b :: u32) = (b :: u8)"
  by (rule bit_eqI) (auto simp: bit_simps)

lemma utf8_scan_encode:
  assumes "scalar c"
  shows "utf8_scan (utf8_encode c @ rest) = Done (utf8_length c) c"
proof (cases "c < 0x80")
  case True
  have "unat (ucast c :: u8) = unat c"
    using True by (simp add: unsigned_ucast_eq take_bit_nat_eq_self_iff word_less_nat_alt)
  then show ?thesis
    using True by (simp add: utf8_scan_def utf8_encode_def utf8_length_def word_less_nat_alt word_unat_eq_iff)
next
  case False
  define k where "k = utf8_length c - 1"
  have len: "utf8_length c = Suc k" "Suc k \<in> {2, 3, 4}"
    using False by (auto simp: k_def utf8_length_def)
  have "unat (drop_bit (6 * k) c) < 2 ^ (7 - Suc k)"
    using False assms
    by (auto simp: k_def utf8_length_def scalar_def unat_drop_bit word_less_nat_alt word_le_nat_alt less_mult_imp_div_less)
  then obtain m where m: "utf8_lead (lead_byte (Suc k) (drop_bit (6 * k) c)) = Some (m, Suc k, lower_bound (Suc k))"
    "ucast (lead_byte (Suc k) (drop_bit (6 * k) c) AND m) = drop_bit (6 * k) c"
    using utf8_lead_byte len(2) by metis
  have lb: "\<not> c < lower_bound (Suc k)"
    using False by (auto simp: k_def utf8_length_def lower_bound_def)
  have "\<not> lead_byte (Suc k) (drop_bit (6 * k) c) < 0x80"
    using utf8_lead_SomeD(7) [OF m(1)] by (simp add: ascii_bits)
  then show ?thesis
    using False m lb assms
    by (simp add: utf8_scan_def utf8_encode_def len foldl_conts conts_cont Let_def)
qed

lemma utf8_scan_DoneD:
  assumes "utf8_scan s = Done l c"
  shows "scalar c" "l = utf8_length c" "take l s = utf8_encode c" "l \<le> length s"
proof -
  obtain b r where s: "s = b # r"
    using assms by (cases s) (auto simp: utf8_scan_def)
  have "scalar c \<and> l = utf8_length c \<and> take l s = utf8_encode c \<and> l \<le> length s"
  proof (cases "b < 0x80")
    case True
    then show ?thesis
      using assms by (auto simp: s utf8_scan_def scalar_def utf8_length_def utf8_encode_def word_less_nat_alt word_le_nat_alt)
  next
    case False
    obtain m lb where lead: "utf8_lead b = Some (m, l, lb)"
      and cs: "\<forall>x\<in>set (take (l - 1) r). cont x" "l - 1 \<le> length r"
      and c: "c = foldl add_bits (ucast (b AND m)) (take (l - 1) r)" "\<not> c < lb" "scalar c"
      using assms False by (auto simp: s utf8_scan_def Let_def split: option.splits if_splits)
    note L = utf8_lead_SomeD [OF lead]
    have len: "length (take (l - 1) r) = l - 1"
      using cs by simp
    have bound: "(unat (ucast (b AND m) :: u32) + 1) * 64 ^ (l - 1) \<le> 2 ^ (7 - l) * 64 ^ (l - 1)"
      using L(2) by (intro mult_le_mono1) simp
    have "(2::nat) ^ (7 - l) * 64 ^ (l - 1) \<le> 2 ^ 32"
      using L(1) by auto
    then have D: "conts c (l - 1) = take (l - 1) r" "drop_bit (6 * (l - 1)) c = ucast (b AND m)"
      "unat c < 2 ^ (7 - l) * 64 ^ (l - 1)"
      using foldl_add_bits [OF cs(1), of "ucast (b AND m)"] bound c(1) len by auto
    have "l = utf8_length c"
      using L(1,4) D(3) c(2) by (auto simp: utf8_length_def lower_bound_def word_less_nat_alt)
    moreover have "\<not> c < 0x80"
      using L(1,4) c(2) by (auto simp: lower_bound_def word_less_nat_alt)
    moreover have "Suc (l - 1) = l"
      using L(1) by auto
    ultimately show ?thesis
      using D(1,2) L(3) c(3) cs(2) by (cases l) (auto simp: s utf8_encode_def Let_def take_Cons')
  qed
  then show "scalar c" "l = utf8_length c" "take l s = utf8_encode c" "l \<le> length s"
    by blast+
qed

section \<open>The decoder implements the reference\<close>

text \<open>The conversion state after the bytes \<open>bs\<close> of an unfinished sequence.\<close>

definition state_of :: "u8 list \<Rightarrow> mbstate" where
  "state_of bs = (let p = bs @ [0, 0, 0, 0] in MB (p ! 0) (p ! 1) (p ! 2) (p ! 3))"

definition partial :: "u8 list \<Rightarrow> bool" where
  "partial bs = (utf8_scan bs = Need)"

lemma partialE:
  assumes "partial bs" "bs \<noteq> []"
  obtains b r m len lb where "bs = b # r" "utf8_lead b = Some (m, len, lb)" "length bs < len"
    "\<forall>x\<in>set r. cont x" "len \<in> {2, 3, 4}"
proof -
  obtain b r where bs: "bs = b # r"
    using assms(2) by (cases bs) auto
  then show ?thesis
    using assms(1) that utf8_lead_SomeD(1)
    by (fastforce simp: partial_def utf8_scan_def Let_def split: if_splits option.splits)
qed

lemma cont_nonzero: "cont b \<Longrightarrow> b \<noteq> 0"
  by (auto simp: cont_bits)

lemma state_of_simps [simp]:
  "state_of [] = mbstate_zero" "state_of [a] = MB a 0 0 0" "state_of [a, b] = MB a b 0 0"
  "state_of [a, b, c] = MB a b c 0" "state_of [a, b, c, d] = MB a b c d"
  by (simp_all add: state_of_def mbstate_zero_def)

lemma length_less4: "length bs < 4 \<longleftrightarrow> bs = [] \<or> (\<exists>a. bs = [a]) \<or> (\<exists>a b. bs = [a, b]) \<or> (\<exists>a b c. bs = [a, b, c])"
  by (auto simp: numeral_eq_Suc less_Suc_eq length_Suc_conv)

lemma set_byte_state_of:
  "length bs < 4 \<Longrightarrow> mbstate_set_byte (state_of bs) (length bs) b = Some (state_of (bs @ [b]))"
  by (auto simp: length_less4 mbstate_zero_def)

lemma get_byte_state_of:
  "i < length bs \<Longrightarrow> length bs \<le> 4 \<Longrightarrow> mbstate_get_byte (state_of bs) i = bs ! i"
proof -
  assume "i < length bs" "length bs \<le> 4"
  then have "i = 0 \<or> i = 1 \<or> i = 2 \<or> i = 3"
    by linarith
  then have "mbstate_get_byte (state_of bs) i = (bs @ [0, 0, 0, 0]) ! i"
    by (elim disjE) (simp_all add: state_of_def Let_def)
  then show ?thesis
    using \<open>i < length bs\<close> by (simp add: nth_append)
qed

lemma bytes_so_far_partial:
  assumes "partial bs"
  shows "mbstate_bytes_so_far (state_of bs) = length bs" "mbstate_get_byte (state_of bs) 3 = 0"
    "mbstate_is_initial (state_of bs) \<longleftrightarrow> bs = []"
proof -
  have "bs = [] \<or> length bs < 4 \<and> (\<forall>b\<in>set bs. b \<noteq> 0)"
  proof (cases "bs = []")
    case False
    show ?thesis
      by (rule partialE [OF assms False]) (auto dest: utf8_lead_SomeD(5) cont_nonzero)
  qed simp
  then show "mbstate_bytes_so_far (state_of bs) = length bs" "mbstate_get_byte (state_of bs) 3 = 0"
    "mbstate_is_initial (state_of bs) \<longleftrightarrow> bs = []"
    by (auto simp: length_less4 mbstate_zero_def)
qed

lemma mb_fill_cont:
  assumes "bs \<noteq> []" "\<forall>b\<in>set bs. b \<noteq> 0" "length bs + k \<le> 4"
    "k \<le> length s \<or> (\<exists>b\<in>set s. \<not> cont b)"
  shows "mb_fill (state_of bs) (length bs) k s =
    (if \<forall>b\<in>set (take k s). cont b then Filled (state_of (bs @ take k s)) else Malformed)"
  using assms
proof (induction k arbitrary: bs s)
  case (Suc k)
  from Suc.prems(4) obtain b s' where s: "s = b # s'"
    by (cases s) auto
  have "length bs < 4"
    using Suc.prems(3) by simp
  then have "\<not> mbstate_is_initial (state_of bs)"
    using Suc.prems(1,2) by (auto simp: length_less4)
  then show ?case
    using Suc.IH [of "bs @ [b]" s'] Suc.prems
    by (auto simp: s set_byte_state_of cont_def [symmetric] cont_nonzero)
qed simp

lemma mb_decode_state_of:
  assumes "length bs \<le> 4" "bs \<noteq> []"
  shows "mb_decode (state_of bs) m (length bs) = foldl add_bits (ucast (hd bs AND m)) (tl bs)"
proof -
  have "tl bs = map (mbstate_get_byte (state_of bs)) [1..<length bs]"
    using assms by (intro nth_equalityI) (auto simp: nth_tl get_byte_state_of)
  moreover have "mbstate_get_byte (state_of bs) 0 = hd bs"
    using assms by (simp add: get_byte_state_of hd_conv_nth)
  ultimately show ?thesis
    by (simp add: mb_decode_def add_bits_def foldl_map)
qed

end
