(* ===== verification/Utf8_Scan.thy ===== *)
theory Utf8_Scan
  imports Utf8_Codec
begin

text \<open>
  \<open>mbrtoc32\<close> implements the reference scanner: called on the state that holds the bytes \<open>bs\<close>, it
  returns what scanning \<open>bs\<close> followed by its input gives (\<open>mbrtoc32_scan\<close>), without reading or
  storing out of bounds.
\<close>

lemma take_append_min: "length bs \<le> len \<Longrightarrow> bs @ take (min (len - length bs) n) s = take len (bs @ take n s)"
  by (simp add: min.commute)

lemma mb_fill_partial:
  assumes "partial bs" "0 < n" "bs @ s = b # q" "utf8_lead b = Some (m, len, lb)"
    and "n \<le> length s \<or> len \<le> length (b # q) \<or> (\<exists>x\<in>set q. \<not> cont x)"
  shows "mb_fill (state_of bs) (length bs) (min (len - length bs) n) s =
    (if \<forall>x\<in>set (tl (take len (bs @ take n s))). cont x
     then Filled (state_of (take len (bs @ take n s))) else Malformed)"
proof (cases "bs = []")
  case True
  note L = utf8_lead_SomeD [OF assms(4)]
  obtain n' where n: "n = Suc n'"
    using assms(2) by (cases n) auto
  obtain len' where len: "len = Suc len'"
    using L(1) by auto
  have s: "s = b # q"
    using assms(3) True by simp
  have "min len' n' \<le> length q \<or> (\<exists>x\<in>set q. \<not> cont x)"
    using assms(5) by (auto simp: s n len)
  then have "mb_fill (state_of [b]) (length [b]) (min len' n') q =
    (if \<forall>x\<in>set (take (min len' n') q). cont x then Filled (state_of ([b] @ take (min len' n') q)) else Malformed)"
    using L(1,5) len by (intro mb_fill_cont) auto
  moreover have "mb_fill (state_of bs) (length bs) (min (len - length bs) n) s
      = mb_fill (state_of [b]) (length [b]) (min len' n') q"
    by (simp add: True s n len mbstate_zero_def)
  ultimately show ?thesis
    by (simp add: True s n len)
next
  case False
  obtain r where bs: "bs = b # r" "length bs < len" "\<forall>x\<in>set r. cont x" "len \<in> {2, 3, 4}"
    using partialE [OF assms(1) False] assms(3,4)
    by (metis append_Cons list.inject option.inject prod.inject)
  have q: "q = r @ s"
    using assms(3) bs(1) by simp
  have "mb_fill (state_of bs) (length bs) (min (len - length bs) n) s =
    (if \<forall>x\<in>set (take (min (len - length bs) n) s). cont x
     then Filled (state_of (bs @ take (min (len - length bs) n) s)) else Malformed)"
    using assms(5) bs utf8_lead_SomeD(5) [OF assms(4)] cont_nonzero
    by (intro mb_fill_cont) (auto simp: q)
  moreover have "tl (take len (bs @ take n s)) = r @ take (min (len - length bs) n) s"
    using take_append_min [of bs len n s] bs(1,2) by (metis append_Cons less_imp_le list.sel(3))
  moreover have "bs @ take (min (len - length bs) n) s = take len (bs @ take n s)"
    using take_append_min [of bs len n s] bs(2) by simp
  moreover have "(\<forall>x\<in>set (r @ t). cont x) \<longleftrightarrow> (\<forall>x\<in>set t. cont x)" for t
    using bs(3) by auto
  ultimately show ?thesis
    by (simp only:)
qed

lemma utf8_scan_take:
  "utf8_scan (b # r) =
     (if b < 0x80 then Done 1 (ucast b)
      else (case utf8_lead b of
              None \<Rightarrow> Bad
            | Some (m, len, lb) \<Rightarrow>
                let t = take len (b # r) in
                if \<exists>x\<in>set (tl t). \<not> cont x then Bad
                else if length t < len then Need
                else let c = foldl add_bits (ucast (b AND m)) (tl t) in
                     if c < lb \<or> \<not> scalar c then Bad else Done len c))"
proof (cases "utf8_lead b")
  case (Some p)
  obtain m len lb where p: "p = (m, len, lb)"
    by (cases p)
  obtain len' where "len = Suc len'"
    using utf8_lead_SomeD(1) [of b m len lb] Some p by (cases len) auto
  then show ?thesis
    using Some p by (auto simp: utf8_scan_def Let_def)
qed (simp add: utf8_scan_def)

definition conv_of :: "bool \<Rightarrow> u8 list \<Rightarrow> nat \<Rightarrow> u32 option conv" where
  "conv_of pc32 bs before =
     (case utf8_scan bs of
        Bad \<Rightarrow> \<lparr>cv_ret = ILLEGAL_SEQUENCE, cv_out = None, cv_errno = Some EILSEQ, cv_state = mbstate_zero\<rparr>
      | Need \<Rightarrow> \<lparr>cv_ret = INCOMPLETE_SEQUENCE, cv_out = None, cv_errno = None, cv_state = state_of bs\<rparr>
      | Done len c \<Rightarrow>
          \<lparr>cv_ret = Count (if c = 0 then 0 else len - before), cv_out = (if pc32 then Some c else None),
           cv_errno = None, cv_state = mbstate_zero\<rparr>)"

lemma utf8_scan_append:
  "utf8_scan bs \<noteq> Need \<Longrightarrow> utf8_scan (bs @ cs) = utf8_scan bs"
proof (cases bs)
  case (Cons b r)
  assume need: "utf8_scan bs \<noteq> Need"
  show ?thesis
  proof (cases "b < 0x80 \<or> utf8_lead b = None")
    case False
    then obtain m len lb where lead: "utf8_lead b = Some (m, len, lb)" and b: "\<not> b < 0x80"
      by auto
    show ?thesis
    proof (cases "len - 1 \<le> length r")
      case True
      then have "take (len - 1) (r @ cs) = take (len - 1) r"
        by simp
      then show ?thesis
        using lead b True by (simp add: Cons utf8_scan_def)
    next
      case False
      then have "\<exists>x\<in>set r. \<not> cont x"
        using need lead b by (auto simp: Cons utf8_scan_def split: if_splits)
      then show ?thesis
        using lead b False by (auto simp: Cons utf8_scan_def)
    qed
  qed (auto simp: Cons utf8_scan_def)
qed (simp add: utf8_scan_def)

lemma wanted_mod: "len \<in> {2, 3, 4} \<Longrightarrow> k < len \<Longrightarrow> (len + 2 ^ 64 - k) mod 2 ^ 64 = (len - k :: nat)"
proof -
  assume "len \<in> {2, 3, 4}" "k < len"
  then have "len + 2 ^ 64 - k = (len - k) + 2 ^ 64" "len - k < 2 ^ 64"
    by auto
  then show ?thesis
    by (metis mod_add_self2 mod_less)
qed

lemma scalar_0 [simp]: "scalar 0"
  by (simp add: scalar_def)

lemma partial_Cons:
  assumes "partial (b # bs)"
  shows "\<not> b < 0x80" "utf8_lead b \<noteq> None" "b \<noteq> 0"
proof -
  obtain m len lb where "utf8_lead b = Some (m, len, lb)"
    by (rule partialE [OF assms]) auto
  then show "\<not> b < 0x80" "utf8_lead b \<noteq> None" "b \<noteq> 0"
    using utf8_lead_SomeD(5,7) by (auto simp: ascii_bits)
qed

lemma mbrtoc32_first:
  assumes "partial bs" "bs @ s = b # q" "0 < n" "s \<noteq> []"
  shows "mbrtoc32 pc32 (Some s) n (state_of bs) =
    (if b < 0x80
     then Some \<lparr>cv_ret = Count (if b \<noteq> 0 then 1 else 0), cv_out = (if pc32 then Some (ucast b) else None),
                cv_errno = None, cv_state = mbstate_zero\<rparr>
     else (case utf8_lead b of
             None \<Rightarrow> Some \<lparr>cv_ret = ILLEGAL_SEQUENCE, cv_out = None, cv_errno = Some EILSEQ,
                           cv_state = mbstate_zero\<rparr>
           | Some (m, len, lb) \<Rightarrow>
               (case mb_fill (state_of bs) (length bs) (min (len - length bs) n) s of
                  OutOfBounds \<Rightarrow> None
                | Malformed \<Rightarrow> Some \<lparr>cv_ret = ILLEGAL_SEQUENCE, cv_out = None, cv_errno = Some EILSEQ,
                                      cv_state = mbstate_zero\<rparr>
                | Filled st \<Rightarrow>
                    if n < len - length bs
                    then Some \<lparr>cv_ret = INCOMPLETE_SEQUENCE, cv_out = None, cv_errno = None, cv_state = st\<rparr>
                    else let c = mb_decode st m len in
                         if c < lb \<or> \<not> scalar c
                         then Some \<lparr>cv_ret = ILLEGAL_SEQUENCE, cv_out = None, cv_errno = Some EILSEQ,
                                    cv_state = mbstate_zero\<rparr>
                         else Some \<lparr>cv_ret = Count (if c = 0 then 0 else len - length bs),
                                    cv_out = (if pc32 then Some c else None),
                                    cv_errno = None, cv_state = mbstate_zero\<rparr>)))"
proof -
  obtain x s' where s: "s = x # s'"
    using assms(4) by (cases s) auto
  note B = bytes_so_far_partial [OF assms(1)]
  have scal: "(c \<ge> 0xd800 \<and> c \<le> 0xdfff \<or> c > 0x10ffff) \<longleftrightarrow> \<not> scalar c" for c
    by (auto simp: scalar_def)
  note U = mbstate_reset_and_return_illegal_def mbstate_reset_and_return_def mbstate_reset_def
  have len: "(len + 2 ^ 64 - length bs) mod 2 ^ 64 = len - length bs"
    if lead: "utf8_lead b = Some (m, len, lb)" for m len lb
  proof (rule wanted_mod)
    show "len \<in> {2, 3, 4}"
      using utf8_lead_SomeD(1) [OF lead] .
    then show "length bs < len"
      using partialE [OF assms(1)] assms(2) lead by (cases bs) force+
  qed
  have init: "mbstate_is_initial (state_of bs) \<and> x AND NOT 0x7f = 0 \<longleftrightarrow> b < 0x80"
    using partial_Cons(1) [of b] assms(1,2) B(3) unfolding ascii_bits by (cases bs) (auto simp: s)
  have zero: "b < 0x80 \<Longrightarrow> bs = [] \<and> x = b"
    using partial_Cons(1) [of b] assms(1,2) by (cases bs) (auto simp: s)
  have ch: "(if length bs > 0 then mbstate_get_byte (state_of bs) 0 else x) = b"
    using assms(2) B(1) by (cases bs) (auto simp: s state_of_def Let_def)
  have ub: "mbrtoc32 pc32 (Some s) n (state_of bs) =
     (if b < 0x80
      then Some \<lparr>cv_ret = Count (if x \<noteq> 0 then 1 else 0),
                 cv_out = (if pc32 then Some (ucast x) else None), cv_errno = None, cv_state = state_of bs\<rparr>
      else (case utf8_lead b of
              None \<Rightarrow> Some (mbstate_reset_and_return_illegal EILSEQ (state_of bs) None)
            | Some (m, len, lb) \<Rightarrow>
                (case mb_fill (state_of bs) (length bs) (min (len - length bs) n) s of
                   OutOfBounds \<Rightarrow> None
                 | Malformed \<Rightarrow> Some (mbstate_reset_and_return_illegal EILSEQ (state_of bs) None)
                 | Filled st \<Rightarrow>
                     if min (len - length bs) n < len - length bs
                     then Some \<lparr>cv_ret = INCOMPLETE_SEQUENCE, cv_out = None, cv_errno = None, cv_state = st\<rparr>
                     else let c = mb_decode st m len in
                          if c < lb then Some (mbstate_reset_and_return_illegal EILSEQ st None)
                          else if \<not> scalar c then Some (mbstate_reset_and_return_illegal EILSEQ st None)
                          else Some (mbstate_reset_and_return (if c = 0 then 0 else len - length bs)
                                       st (if pc32 then Some c else None)))))"
    unfolding mbrtoc32_def B(2) option.case s list.case prod.case Let_def init [unfolded s] ch scal B(1)
    using assms(3) len
    by (simp split: option.split fill_result.split)
  show ?thesis
    unfolding ub using zero
    by (simp add: U Let_def min_less_iff_conj cong: if_cong split: option.split fill_result.split)
qed

lemma mbrtoc32_scan:
  assumes "partial bs" "0 < n" and avail: "n \<le> length s \<or> utf8_scan (bs @ s) \<noteq> Need"
  shows "mbrtoc32 pc32 (Some s) n (state_of bs) = Some (conv_of pc32 (bs @ take n s) (length bs))"
proof -
  have s: "s \<noteq> []"
    using assms by (auto simp: partial_def)
  then obtain b q where bq: "bs @ s = b # q"
    by (cases "bs @ s") auto
  obtain r where r: "bs @ take n s = b # r"
    using bq s assms(2) by (cases bs; cases s; cases n) auto
  note F = mbrtoc32_first [OF assms(1) bq assms(2) s, of pc32]
  consider "b < 0x80" | "\<not> b < 0x80" "utf8_lead b = None"
    | m len lb where "\<not> b < 0x80" "utf8_lead b = Some (m, len, lb)"
    by (cases "utf8_lead b") auto
  then show ?thesis
  proof cases
    case 1
    then have "bs = []"
      using partial_Cons(1) [of b] assms(1) bq by (cases bs) auto
    then show ?thesis
      using 1 unfolding F r by (simp add: conv_of_def utf8_scan_def word_unat_eq_iff)
  next
    case 2
    then show ?thesis
      unfolding F r by (simp add: conv_of_def utf8_scan_def)
  next
    case (3 m len lb)
    note L = utf8_lead_SomeD [OF 3(2)]
    let ?t = "take len (b # r)"
    have fill_ok: "n \<le> length s \<or> len \<le> length (b # q) \<or> (\<exists>x\<in>set q. \<not> cont x)"
      using avail 3 unfolding bq by (auto simp: utf8_scan_def Let_def split: if_splits dest: in_set_takeD)
    note M = mb_fill_partial [OF assms(1,2) bq 3(2) fill_ok, unfolded r]
    have short: "n < len - length bs \<longleftrightarrow> length ?t < len" if "\<forall>x\<in>set (tl ?t). cont x"
    proof (cases "n \<le> length s")
      case True
      then have "length (b # r) = length bs + n"
        unfolding r [symmetric] by simp
      then show ?thesis
        by auto
    next
      case False
      then have "b # r = b # q"
        unfolding r [symmetric] bq [symmetric] by simp
      moreover have "len \<le> length (b # q)"
        using that avail 3 False calculation unfolding bq
        by (auto simp: utf8_scan_take Let_def split: if_splits)
      moreover have "length (b # q) < length bs + n"
        using False unfolding bq [symmetric] by simp
      ultimately show ?thesis
        by auto
    qed
    show ?thesis
    proof (cases "\<forall>x\<in>set (tl ?t). cont x")
      case True
      show ?thesis
      proof (cases "length ?t < len")
        case short_t: True
        then have "?t = b # r"
          by (auto simp: min_def split: if_splits)
        then show ?thesis
          using True 3 short [OF True] short_t M unfolding F r conv_of_def utf8_scan_take by simp
      next
        case False
        then have "length ?t = len"
          by simp
        then have "mb_decode (state_of ?t) m len = foldl add_bits (ucast (b AND m)) (tl ?t)"
          using mb_decode_state_of [of ?t m] L(1) by (cases len) auto
        then show ?thesis
          using True 3 short [OF True] False M unfolding F r conv_of_def utf8_scan_take
          by (simp add: Let_def)
      qed
    next
      case False
      then show ?thesis
        using 3 M unfolding F r conv_of_def utf8_scan_take by (auto simp: Let_def)
    qed
  qed
qed

end
