(* ===== verification/Utf8_Spec.thy ===== *)
theory Utf8_Spec
  imports Utf8_Scan
begin

text \<open>
  The properties of the conversions of one character: independence of how the input is cut, and the
  two directions of the round trip between \<open>c32rtomb\<close> and \<open>mbrtoc32\<close>.
\<close>

section \<open>Feeding a sequence in pieces\<close>

text \<open>Calls of \<open>mbrtoc32\<close> on one piece after another until a call does not ask for more.\<close>

fun feed :: "u8 list list \<Rightarrow> nat \<Rightarrow> mbstate \<Rightarrow> (nat \<times> u32 option conv) option" where
  "feed [] consumed st = None"
| "feed (s # ss) consumed st =
     (case mbrtoc32 True (Some s) (length s) st of
        None \<Rightarrow> None
      | Some r \<Rightarrow> if cv_ret r = INCOMPLETE_SEQUENCE \<and> ss \<noteq> [] then feed ss (consumed + length s) (cv_state r)
                  else Some (consumed, r))"

lemma partial_Nil [simp]: "partial []"
  by (simp add: partial_def utf8_scan_def)

lemma mbrtoc32_whole:
  "partial bs \<Longrightarrow> s \<noteq> [] \<Longrightarrow>
   mbrtoc32 pc32 (Some s) (length s) (state_of bs) = Some (conv_of pc32 (bs @ s) (length bs))"
  using mbrtoc32_scan [of bs "length s" s pc32] by simp

lemma conv_of_ret: "cv_ret (conv_of pc32 bs k) = INCOMPLETE_SEQUENCE \<longleftrightarrow> partial bs"
  by (simp add: conv_of_def partial_def split: scan.split)

lemma utf8_scan_length: "utf8_scan bs = Done l c \<Longrightarrow> partial as \<Longrightarrow> bs = as @ cs \<Longrightarrow> length as < l"
  using utf8_scan_append utf8_scan_DoneD utf8_scan_encode by (metis append_take_drop_id length_utf8_encode scan.distinct(4) partial_def take_all_iff not_less take_append append_Nil2 diff_is_0_eq take_eq_Nil)

definition fed :: "u8 list \<Rightarrow> nat \<Rightarrow> u32 option conv \<Rightarrow> bool" where
  "fed bs k r \<longleftrightarrow>
    (case utf8_scan bs of
       Bad \<Rightarrow> r = \<lparr>cv_ret = ILLEGAL_SEQUENCE, cv_out = None, cv_errno = Some EILSEQ, cv_state = mbstate_zero\<rparr>
     | Need \<Rightarrow> r = \<lparr>cv_ret = INCOMPLETE_SEQUENCE, cv_out = None, cv_errno = None, cv_state = state_of bs\<rparr>
     | Done len c \<Rightarrow> k < len \<and>
         r = \<lparr>cv_ret = Count (if c = 0 then 0 else len - k), cv_out = Some c, cv_errno = None,
              cv_state = mbstate_zero\<rparr>)"

lemma feed_scan:
  assumes "partial bs" "ss \<noteq> []" "\<forall>s\<in>set ss. s \<noteq> []"
  shows "\<exists>k r. feed ss (length bs) (state_of bs) = Some (k, r) \<and> fed (bs @ concat ss) k r"
  using assms
proof (induction ss arbitrary: bs)
  case (Cons s ss)
  note W = mbrtoc32_whole [OF Cons.prems(1), of s True]
  show ?case
  proof (cases "partial (bs @ s) \<and> ss \<noteq> []")
    case True
    then have "conv_of True (bs @ s) (length bs) =
      \<lparr>cv_ret = INCOMPLETE_SEQUENCE, cv_out = None, cv_errno = None, cv_state = state_of (bs @ s)\<rparr>"
      by (simp add: conv_of_def partial_def)
    then show ?thesis
      using Cons.IH [of "bs @ s"] Cons.prems True W by simp
  next
    case False
    then have "utf8_scan (bs @ s @ concat ss) = utf8_scan (bs @ s)"
      using utf8_scan_append [of "bs @ s" "concat ss"] by (cases ss) (auto simp: partial_def)
    moreover have "feed (s # ss) (length bs) (state_of bs) = Some (length bs, conv_of True (bs @ s) (length bs))"
      using W Cons.prems(3) False by (auto simp: conv_of_ret)
    moreover have "length bs < l" if "utf8_scan (bs @ s) = Done l c" for l c
      using utf8_scan_length [OF that Cons.prems(1)] by blast
    ultimately show ?thesis
      using False by (auto simp: conv_of_def fed_def partial_def split: scan.split)
  qed
qed simp

text \<open>
  C22: Decoding does not depend on how the input is cut. Feeding the pieces of a byte string to
  \<open>mbrtoc32\<close> one after another from the initial state stores the same character, sets the same errno
  and leaves the same state as one call on the whole string, and the bytes counted over the calls add
  up; no call reads or writes out of bounds.
\<close>

theorem utf8_decode_pieces:
  assumes "ss \<noteq> []" and "\<forall>s\<in>set ss. s \<noteq> []"
  shows "\<exists>k r r'. feed ss 0 mbstate_zero = Some (k, r)
    \<and> mbrtoc32 True (Some (concat ss)) (length (concat ss)) mbstate_zero = Some r'
    \<and> cv_out r = cv_out r' \<and> cv_errno r = cv_errno r' \<and> cv_state r = cv_state r'
    \<and> cv_ret r' = (case cv_ret r of Count j \<Rightarrow> Count (if j = 0 then 0 else k + j) | e \<Rightarrow> e)"
proof -
  have "concat ss \<noteq> []"
    using assms by (cases ss) auto
  then have "mbrtoc32 True (Some (concat ss)) (length (concat ss)) mbstate_zero
      = Some (conv_of True (concat ss) 0)"
    using mbrtoc32_whole [of "[]"] by simp
  then show ?thesis
    using feed_scan [of "[]" ss] assms by (auto simp: conv_of_def fed_def split: scan.splits)
qed

theorem utf8_decode_pieces_witness:
  "\<exists>k r r'. feed [[0xe2], [0x82, 0xac, 0x41]] 0 mbstate_zero = Some (k, r)
    \<and> mbrtoc32 True (Some [0xe2, 0x82, 0xac, 0x41]) (length [0xe2, 0x82, 0xac, 0x41 :: u8]) mbstate_zero = Some r'
    \<and> cv_out r = cv_out r' \<and> cv_errno r = cv_errno r' \<and> cv_state r = cv_state r'
    \<and> cv_ret r' = (case cv_ret r of Count j \<Rightarrow> Count (if j = 0 then 0 else k + j) | e \<Rightarrow> e)"
  using utf8_decode_pieces [of "[[0xe2], [0x82, 0xac, 0x41]]"] by (simp del: feed.simps)

section \<open>One character\<close>

text \<open>
  C23: Encode, then decode. For every Unicode scalar value but NUL, \<open>c32rtomb\<close> writes one to four
  bytes from which \<open>mbrtoc32\<close> reads the same value back, whatever follows them, counting exactly
  those bytes and leaving the initial state.
\<close>

theorem utf8_encode_decode:
  assumes "scalar c" "c \<noteq> 0"
  shows "\<exists>bs. c32rtomb True c mbstate_zero =
      \<lparr>cv_ret = Count (length bs), cv_out = bs, cv_errno = None, cv_state = mbstate_zero\<rparr>
    \<and> length bs \<in> {1..4}
    \<and> (\<forall>rest n. length bs \<le> n \<longrightarrow> mbrtoc32 True (Some (bs @ rest)) n mbstate_zero =
         Some \<lparr>cv_ret = Count (length bs), cv_out = Some c, cv_errno = None, cv_state = mbstate_zero\<rparr>)"
proof -
  have "c < 0x200000"
    using assms(1) by (simp add: scalar_def word_less_nat_alt word_le_nat_alt)
  then have e: "c32rtomb True c mbstate_zero =
      \<lparr>cv_ret = Count (length (utf8_encode c)), cv_out = utf8_encode c, cv_errno = None,
       cv_state = mbstate_zero\<rparr>"
    using c32rtomb_encode assms(2) by simp
  have "mbrtoc32 True (Some (utf8_encode c @ rest)) n mbstate_zero =
       Some \<lparr>cv_ret = Count (length (utf8_encode c)), cv_out = Some c, cv_errno = None, cv_state = mbstate_zero\<rparr>"
    if n: "length (utf8_encode c) \<le> n" for n rest
  proof -
    have "take n (utf8_encode c @ rest) = utf8_encode c @ take (n - length (utf8_encode c)) rest"
      using n by simp
    then show ?thesis
      using mbrtoc32_scan [of "[]" n "utf8_encode c @ rest" True] n utf8_scan_encode [OF assms(1)]
        utf8_length_pos(1) [of c] assms(2)
      by (simp add: conv_of_def)
  qed
  then show ?thesis
    using e utf8_length_pos [of c] by (intro exI [of _ "utf8_encode c"]) (simp add: Suc_le_eq)
qed

theorem utf8_encode_decode_witness:
  "\<exists>bs. c32rtomb True 0x20ac mbstate_zero =
      \<lparr>cv_ret = Count (length bs), cv_out = bs, cv_errno = None, cv_state = mbstate_zero\<rparr>
    \<and> length bs \<in> {1..4}
    \<and> (\<forall>rest n. length bs \<le> n \<longrightarrow> mbrtoc32 True (Some (bs @ rest)) n mbstate_zero =
         Some \<lparr>cv_ret = Count (length bs), cv_out = Some 0x20ac, cv_errno = None, cv_state = mbstate_zero\<rparr>)"
  by (rule utf8_encode_decode) (simp_all add: scalar_def)

text \<open>
  C24: Decode, then encode. Whenever \<open>mbrtoc32\<close> accepts bytes as a character other than NUL, the
  character is a Unicode scalar value and \<open>c32rtomb\<close> gives back exactly the bytes read: no overlong
  form, no surrogate and no value above U+10FFFF is accepted.
\<close>

theorem utf8_decode_encode:
  assumes "mbrtoc32 True (Some s) n mbstate_zero = Some r" "n \<le> length s"
    and "cv_ret r = Count k" "k \<noteq> 0"
  shows "\<exists>c. cv_out r = Some c \<and> scalar c \<and> c \<noteq> 0 \<and> k \<le> n
    \<and> c32rtomb True c mbstate_zero =
        \<lparr>cv_ret = Count k, cv_out = take k s, cv_errno = None, cv_state = mbstate_zero\<rparr>"
proof -
  have "0 < n"
    using assms(1,3) by (cases n) (auto simp: mbrtoc32_def mbstate_zero_def)
  then have r: "r = conv_of True (take n s) 0"
    using mbrtoc32_scan [of "[]" n s True] assms(1,2) by simp
  then obtain l c where scan: "utf8_scan (take n s) = Done l c" and c: "c \<noteq> 0" "k = l" "cv_out r = Some c"
    using assms(3,4) by (auto simp: conv_of_def split: scan.splits if_splits)
  note D = utf8_scan_DoneD [OF scan]
  have "c < 0x200000"
    using D(1) by (simp add: scalar_def word_less_nat_alt word_le_nat_alt)
  then show ?thesis
    using c D c32rtomb_encode [of c] by (auto simp: min_def split: if_splits)
qed

theorem utf8_decode_encode_witness:
  "\<exists>r. mbrtoc32 True (Some [0xc2, 0xa2, 0x41]) 3 mbstate_zero = Some r \<and> cv_ret r = Count 2
    \<and> (\<exists>c. cv_out r = Some c \<and> scalar c \<and> c \<noteq> 0 \<and> 2 \<le> (3::nat)
      \<and> c32rtomb True c mbstate_zero =
          \<lparr>cv_ret = Count 2, cv_out = take 2 [0xc2, 0xa2, 0x41], cv_errno = None, cv_state = mbstate_zero\<rparr>)"
proof -
  let ?r = "\<lparr>cv_ret = Count 2, cv_out = Some 0xa2, cv_errno = None, cv_state = mbstate_zero\<rparr>"
  have "conv_of True [0xc2, 0xa2, 0x41] 0 = ?r"
    by code_simp
  then have "mbrtoc32 True (Some [0xc2, 0xa2, 0x41]) 3 mbstate_zero = Some ?r"
    using mbrtoc32_whole [of "[]" "[0xc2, 0xa2, 0x41]" True] by (simp add: numeral_3_eq_3)
  then show ?thesis
    using utf8_decode_encode [of "[0xc2, 0xa2, 0x41]" 3 ?r 2] by auto
qed

end
