(* ===== verification/Wide_Strings.thy ===== *)
theory Wide_Strings
  imports Utf8_Spec
begin

text \<open>
  The string conversions of wchar.cpp: whole strings are converted character by character, the
  destination is never overrun and a character is never cut, and measuring agrees with converting.
\<close>

definition valid_wide :: "u32 list \<Rightarrow> bool" where
  "valid_wide ws \<longleftrightarrow> (\<forall>c\<in>set ws. scalar c \<and> c \<noteq> 0)"

definition encode_all :: "u32 list \<Rightarrow> u8 list" where
  "encode_all ws = concat (map utf8_encode ws)"

lemma valid_wide_simps [simp]:
  "valid_wide []" "valid_wide (c # ws) \<longleftrightarrow> scalar c \<and> c \<noteq> 0 \<and> valid_wide ws"
  by (auto simp: valid_wide_def)

lemma encode_all_simps [simp]:
  "encode_all [] = []" "encode_all (c # ws) = utf8_encode c @ encode_all ws"
  "encode_all (ws @ vs) = encode_all ws @ encode_all vs"
  by (simp_all add: encode_all_def)

lemma scalar_less: "scalar c \<Longrightarrow> c < 0x200000"
  by (simp add: scalar_def word_less_nat_alt word_le_nat_alt)

lemma wcrtomb_encode:
  "scalar c \<Longrightarrow> c \<noteq> 0 \<Longrightarrow> wcrtomb True c mbstate_zero =
    \<lparr>cv_ret = Count (utf8_length c), cv_out = utf8_encode c, cv_errno = None, cv_state = mbstate_zero\<rparr>"
  by (simp add: wcrtomb_def c32rtomb_encode scalar_less)

lemma ascii_encode: "c < 0x80 \<Longrightarrow> utf8_encode c = [ucast c]" "c < 0x80 \<Longrightarrow> utf8_length c = 1"
  by (simp_all add: utf8_encode_def utf8_length_def)

lemma length_encode_all: "length ws \<le> length (encode_all ws)"
proof (induction ws)
  case (Cons c ws)
  have "0 < utf8_length c"
    by simp
  then have "Suc (length ws) \<le> utf8_length c + length (encode_all ws)"
    using Cons by linarith
  then show ?case
    by simp
qed simp

section \<open>Wide characters to bytes\<close>

lemma wcsnrtombs_measure_valid:
  assumes "valid_wide ws" "length ws < n"
  shows "wcsnrtombs_measure (ws @ 0 # rest) n mbstate_zero cnt =
    Some \<lparr>sc_ret = Count (cnt + length (encode_all ws)), sc_out = [], sc_src = Some 0, sc_errno = None,
          sc_state = mbstate_zero\<rparr>"
  using assms
proof (induction ws arbitrary: n cnt)
  case Nil
  then show ?case
    by (cases n) auto
next
  case (Cons c ws)
  then obtain n' where n: "n = Suc n'" "length ws < n'"
    by (cases n) auto
  then show ?case
    using Cons.prems(1) Cons.IH [of n'] by (simp add: wcrtomb_encode ascii_encode Let_def)
qed

text \<open>How many of the characters fit into \<open>len\<close> bytes.\<close>

fun fitting :: "u32 list \<Rightarrow> nat \<Rightarrow> nat" where
  "fitting [] len = 0"
| "fitting (c # ws) len = (if utf8_length c \<le> len then Suc (fitting ws (len - utf8_length c)) else 0)"

lemma fitting_le: "fitting ws len \<le> length ws" "length (encode_all (take (fitting ws len) ws)) \<le> len"
  by (induction ws len rule: fitting.induct) auto

lemma fitting_all: "length (encode_all ws) \<le> len \<Longrightarrow> fitting ws len = length ws"
  by (induction ws len rule: fitting.induct) auto

lemma fitting_maximal:
  "fitting ws len < length ws \<Longrightarrow> len < length (encode_all (take (Suc (fitting ws len)) ws))"
  by (induction ws len rule: fitting.induct) (auto split: if_splits)

lemma wcsnrtombs_convert_prefix:
  assumes "valid_wide ws" "length dst \<le> len"
  shows "wcsnrtombs_convert (ws @ rest) (length ws) len mbstate_zero i dst =
    Some \<lparr>sc_ret = Count (length dst + length (encode_all (take (fitting ws (len - length dst)) ws))),
          sc_out = dst @ encode_all (take (fitting ws (len - length dst)) ws),
          sc_src = Some (i + fitting ws (len - length dst)), sc_errno = None, sc_state = mbstate_zero\<rparr>"
  using assms
proof (induction ws arbitrary: i dst)
  case (Cons c ws)
  have pos: "0 < utf8_length c" "utf8_length c \<le> MB_LEN_MAX"
    by (simp_all add: MB_LEN_MAX_def)
  show ?case
  proof (cases "utf8_length c \<le> len - length dst")
    case True
    then have "length dst < len"
      using pos(1) by linarith
    with True have "wcsnrtombs_convert ((c # ws) @ rest) (length (c # ws)) len mbstate_zero i dst
      = wcsnrtombs_convert (ws @ rest) (length ws) len mbstate_zero (Suc i) (dst @ utf8_encode c)"
      using Cons.prems pos by (simp add: wcrtomb_encode ascii_encode Let_def)
    then show ?thesis
      using Cons.IH [of "dst @ utf8_encode c" "Suc i"] Cons.prems True by (simp add: le_diff_conv2 add.commute)
  next
    case False
    then have "\<not> (length dst < len \<and> c < 0x80)" "\<not> MB_LEN_MAX \<le> len - length dst"
      using pos ascii_encode(2) [of c] by auto
    then show ?thesis
      using Cons.prems False by (auto simp: wcrtomb_encode Let_def)
  qed
qed simp

lemma wcsnrtombs_convert_all:
  assumes "valid_wide ws" "length dst + length (encode_all ws) < len" "length ws < n"
  shows "wcsnrtombs_convert (ws @ 0 # rest) n len mbstate_zero i dst =
    Some \<lparr>sc_ret = Count (length dst + length (encode_all ws)), sc_out = dst @ encode_all ws @ [0],
          sc_src = None, sc_errno = None, sc_state = mbstate_zero\<rparr>"
  using assms
proof (induction ws arbitrary: n i dst)
  case Nil
  then show ?case
    by (cases n) auto
next
  case (Cons c ws)
  then obtain n' where n: "n = Suc n'" "length ws < n'"
    by (cases n) auto
  show ?case
    using Cons.prems(1,2) n Cons.IH [of "dst @ utf8_encode c" n' "Suc i"]
    by (auto simp: wcrtomb_encode ascii_encode Let_def)
qed

section \<open>Bytes to wide characters\<close>

lemma mbrtowc_encode:
  assumes "scalar c" "c \<noteq> 0" "utf8_length c \<le> n"
  shows "mbrtowc pc (Some (utf8_encode c @ rest)) n mbstate_zero =
    Some \<lparr>cv_ret = Count (utf8_length c), cv_out = (if pc then Some c else None), cv_errno = None,
          cv_state = mbstate_zero\<rparr>"
proof -
  have "take n (utf8_encode c @ rest) = utf8_encode c @ take (n - utf8_length c) rest"
    using assms(3) by simp
  then show ?thesis
    using mbrtoc32_scan [of "[]" n "utf8_encode c @ rest" pc] assms utf8_scan_encode [OF assms(1)]
      utf8_length_pos(1) [of c]
    by (simp add: mbrtowc_def conv_of_def)
qed

lemma utf8_encode_first:
  assumes "scalar c"
  obtains b r where "utf8_encode c = b # r" "b < 0x80 \<longleftrightarrow> c < 0x80" "c < 0x80 \<Longrightarrow> ucast b = c \<and> r = []"
    "c < 0x80 \<Longrightarrow> b = 0 \<longleftrightarrow> c = 0"
proof -
  obtain b r where br: "utf8_encode c = b # r"
    using length_utf8_encode [of c] utf8_length_pos(1) [of c] by (cases "utf8_encode c") auto
  have scan: "utf8_scan (b # r) = Done (utf8_length c) c"
    using utf8_scan_encode [OF assms, of "[]"] br by simp
  have "b < 0x80 \<longleftrightarrow> c < 0x80"
  proof
    assume b: "b < 0x80"
    then have "c = ucast b"
      using scan by (simp add: utf8_scan_def)
    then show "c < 0x80"
      using b by (simp add: word_less_nat_alt)
  next
    assume "c < 0x80"
    then show "b < 0x80"
      using br by (auto simp: utf8_encode_def word_less_nat_alt unsigned_ucast_eq
          intro: le_less_trans [OF take_bit_nat_less_eq_self])
  qed
  moreover have "ucast b = c \<and> r = []" if "c < 0x80"
    using scan that calculation br by (auto simp: utf8_scan_def utf8_encode_def)
  moreover have "b = 0 \<longleftrightarrow> c = 0" if "c < 0x80"
    using calculation(2) [OF that] by (auto simp: word_unat_eq_iff)
  ultimately show ?thesis
    using that br by blast
qed

lemma mbsnrtowcs_convert_step:
  assumes "scalar c" "c \<noteq> 0" "drop i src = utf8_encode c @ rest" "i + utf8_length c \<le> nmc" "length dst < len"
  shows "mbsnrtowcs_convert src nmc len mbstate_zero i dst =
    mbsnrtowcs_convert src nmc len mbstate_zero (i + utf8_length c) (dst @ [c])"
proof (rule utf8_encode_first [OF assms(1)])
  fix b r
  assume e: "utf8_encode c = b # r" "b < 0x80 \<longleftrightarrow> c < 0x80" "c < 0x80 \<Longrightarrow> ucast b = c \<and> r = []"
    "c < 0x80 \<Longrightarrow> b = 0 \<longleftrightarrow> c = 0"
  have "i < nmc"
    using assms(4) utf8_length_pos(1) [of c] by linarith
  then show ?thesis
    using assms e mbrtowc_encode [of c "nmc - i" True rest]
    by (subst mbsnrtowcs_convert.simps) (auto simp: ascii_encode)
qed

lemma mbsnrtowcs_measure_step:
  assumes "scalar c" "c \<noteq> 0" "drop i src = utf8_encode c @ rest" "i + utf8_length c \<le> nmc"
  shows "mbsnrtowcs_measure src nmc mbstate_zero i cnt =
    mbsnrtowcs_measure src nmc mbstate_zero (i + utf8_length c) (cnt + 1)"
proof (rule utf8_encode_first [OF assms(1)])
  fix b r
  assume e: "utf8_encode c = b # r" "b < 0x80 \<longleftrightarrow> c < 0x80" "c < 0x80 \<Longrightarrow> ucast b = c \<and> r = []"
    "c < 0x80 \<Longrightarrow> b = 0 \<longleftrightarrow> c = 0"
  have "i < nmc"
    using assms(4) utf8_length_pos(1) [of c] by linarith
  then show ?thesis
    using assms e mbrtowc_encode [of c "nmc - i" False rest]
    by (subst mbsnrtowcs_measure.simps) (auto simp: ascii_encode)
qed

lemma drop_encode_step:
  "drop i src = utf8_encode c @ rest \<Longrightarrow> drop (i + utf8_length c) src = rest"
  by (metis add.commute append_eq_conv_conj drop_drop length_utf8_encode)

lemma mbsnrtowcs_convert_all:
  assumes "valid_wide ws" "drop i src = encode_all ws @ 0 # rest"
    "i + length (encode_all ws) < nmc" "length dst + length ws < len"
  shows "mbsnrtowcs_convert src nmc len mbstate_zero i dst =
    Some (sconv_return (length dst + length ws) (dst @ ws @ [0]) None mbstate_zero)"
  using assms
proof (induction ws arbitrary: i dst)
  case Nil
  then show ?case
    by (subst mbsnrtowcs_convert.simps) simp
next
  case (Cons c ws)
  have "mbsnrtowcs_convert src nmc len mbstate_zero i dst =
      mbsnrtowcs_convert src nmc len mbstate_zero (i + utf8_length c) (dst @ [c])"
    using Cons.prems by (intro mbsnrtowcs_convert_step [where rest = "encode_all ws @ 0 # rest"]) auto
  then show ?case
    using Cons.IH [of "i + utf8_length c" "dst @ [c]"] Cons.prems
      drop_encode_step [of i src c "encode_all ws @ 0 # rest"] by simp
qed

lemma mbsnrtowcs_measure_all:
  assumes "valid_wide ws" "drop i src = encode_all ws @ 0 # rest" "i + length (encode_all ws) < nmc"
  shows "mbsnrtowcs_measure src nmc mbstate_zero i cnt =
    Some (sconv_return (cnt + length ws) [] (Some 0) mbstate_zero)"
  using assms
proof (induction ws arbitrary: i cnt)
  case Nil
  then show ?case
    by (subst mbsnrtowcs_measure.simps) simp
next
  case (Cons c ws)
  have "mbsnrtowcs_measure src nmc mbstate_zero i cnt =
      mbsnrtowcs_measure src nmc mbstate_zero (i + utf8_length c) (cnt + 1)"
    using Cons.prems by (intro mbsnrtowcs_measure_step [where rest = "encode_all ws @ 0 # rest"]) auto
  then show ?case
    using Cons.IH [of "i + utf8_length c" "cnt + 1"] Cons.prems
      drop_encode_step [of i src c "encode_all ws @ 0 # rest"] by simp
qed

section \<open>Properties\<close>

text \<open>
  C25: Whole strings round trip. A NUL-terminated wide string of scalar values is written by
  \<open>wcsrtombs\<close> to NUL-terminated bytes when the buffer is larger than their number, and \<open>mbsrtowcs\<close>
  reads the same wide string back; the measuring calls (null destination) return the same counts.
\<close>

theorem wide_string_roundtrip:
  assumes "valid_wide ws" and "length (encode_all ws) < SIZE_MAX"
    and "length (encode_all ws) < len" and "length ws < wlen"
  shows "\<exists>bs. wcsrtombs True (ws @ [0]) len mbstate_zero =
        Some \<lparr>sc_ret = Count (length bs), sc_out = bs @ [0], sc_src = None, sc_errno = None,
              sc_state = mbstate_zero\<rparr>
    \<and> mbsrtowcs True (bs @ [0]) wlen mbstate_zero =
        Some \<lparr>sc_ret = Count (length ws), sc_out = ws @ [0], sc_src = None, sc_errno = None,
              sc_state = mbstate_zero\<rparr>
    \<and> map_option sc_ret (wcsrtombs False (ws @ [0]) 0 mbstate_zero) = Some (Count (length bs))
    \<and> map_option sc_ret (mbsrtowcs False (bs @ [0]) 0 mbstate_zero) = Some (Count (length ws))"
proof (intro exI conjI)
  let ?bs = "encode_all ws"
  have len_ws: "length ws \<le> length ?bs"
    by (rule length_encode_all)
  show "wcsrtombs True (ws @ [0]) len mbstate_zero =
        Some \<lparr>sc_ret = Count (length ?bs), sc_out = ?bs @ [0], sc_src = None, sc_errno = None,
              sc_state = mbstate_zero\<rparr>"
    using wcsnrtombs_convert_all [of ws "[]" len SIZE_MAX "[]" 0] assms len_ws
    by (simp add: wcsrtombs_def wcsnrtombs_def)
  show "mbsrtowcs True (?bs @ [0]) wlen mbstate_zero =
        Some \<lparr>sc_ret = Count (length ws), sc_out = ws @ [0], sc_src = None, sc_errno = None,
              sc_state = mbstate_zero\<rparr>"
    using mbsnrtowcs_convert_all [of ws 0 "?bs @ [0]" "[]" SIZE_MAX "[]" wlen] assms
    by (simp add: mbsrtowcs_def mbsnrtowcs_def sconv_return_def mbstate_reset_def mbstate_zero_def)
  show "map_option sc_ret (wcsrtombs False (ws @ [0]) 0 mbstate_zero) = Some (Count (length ?bs))"
    using wcsnrtombs_measure_valid [of ws SIZE_MAX "[]" 0] assms len_ws
    by (simp add: wcsrtombs_def wcsnrtombs_def)
  show "map_option sc_ret (mbsrtowcs False (?bs @ [0]) 0 mbstate_zero) = Some (Count (length ws))"
    using mbsnrtowcs_measure_all [of ws 0 "?bs @ [0]" "[]" SIZE_MAX 0] assms
    by (simp add: mbsrtowcs_def mbsnrtowcs_def sconv_return_def mbstate_zero_def)
qed

theorem wide_string_roundtrip_witness:
  "\<exists>bs. wcsrtombs True ([0x48, 0x20ac] @ [0]) 16 mbstate_zero =
        Some \<lparr>sc_ret = Count (length bs), sc_out = bs @ [0], sc_src = None, sc_errno = None,
              sc_state = mbstate_zero\<rparr>
    \<and> mbsrtowcs True (bs @ [0]) 8 mbstate_zero =
        Some \<lparr>sc_ret = Count (length [0x48, 0x20ac :: u32]), sc_out = [0x48, 0x20ac] @ [0], sc_src = None,
              sc_errno = None, sc_state = mbstate_zero\<rparr>
    \<and> map_option sc_ret (wcsrtombs False ([0x48, 0x20ac] @ [0]) 0 mbstate_zero) = Some (Count (length bs))
    \<and> map_option sc_ret (mbsrtowcs False (bs @ [0]) 0 mbstate_zero)
        = Some (Count (length [0x48, 0x20ac :: u32]))"
  by (rule wide_string_roundtrip) (simp_all add: scalar_def utf8_length_def SIZE_MAX_def)

text \<open>
  C26: The destination is never overrun and no character is cut. Converting \<open>length ws\<close> wide
  characters into a buffer of \<open>len\<close> bytes writes exactly the encodings of the longest prefix of them
  that fits into \<open>len\<close> bytes, returns their number and leaves \<open>*src\<close> at the first one not converted.
\<close>

theorem wcsnrtombs_truncation:
  assumes "valid_wide ws"
  shows "\<exists>j r. wcsnrtombs True (ws @ rest) (length ws) len mbstate_zero = Some r
    \<and> sc_ret r = Count (length (sc_out r)) \<and> length (sc_out r) \<le> len
    \<and> j \<le> length ws \<and> sc_src r = Some j \<and> sc_out r = encode_all (take j ws)
    \<and> (j < length ws \<longrightarrow> len < length (encode_all (take (Suc j) ws)))"
  using wcsnrtombs_convert_prefix [of ws "[]" len rest 0] assms fitting_le [of ws len] fitting_maximal [of ws len]
  by (intro exI [of _ "fitting ws len"]) (simp add: wcsnrtombs_def)

theorem wcsnrtombs_truncation_witness:
  "\<exists>j r. wcsnrtombs True ([0x48, 0x20ac] @ [0]) (length [0x48, 0x20ac :: u32]) 3 mbstate_zero = Some r
    \<and> sc_ret r = Count (length (sc_out r)) \<and> length (sc_out r) \<le> 3
    \<and> j \<le> length [0x48, 0x20ac :: u32] \<and> sc_src r = Some j \<and> sc_out r = encode_all (take j [0x48, 0x20ac])
    \<and> (j < length [0x48, 0x20ac :: u32] \<longrightarrow> 3 < length (encode_all (take (Suc j) [0x48, 0x20ac])))"
  by (rule wcsnrtombs_truncation) (simp add: scalar_def)

end
