(* ===== verification/Utf16.thy ===== *)
theory Utf16
  imports Utf8_Spec
begin

text \<open>
  UTF-16: a code point above U+FFFF is delivered by \<open>mbrtoc16\<close> as two surrogates and put together
  again by \<open>c16rtomb\<close>, which fails for the first 1024 of them.
\<close>

definition high_of :: "u32 \<Rightarrow> u16" where
  "high_of c = ucast (drop_bit 10 ((c - 0x10000) AND 0xffc00)) OR 0xd800"

definition low_of :: "u32 \<Rightarrow> u16" where
  "low_of c = ucast ((c - 0x10000) AND 0x3ff) OR 0xdc00"

lemma masks16 [mask_consts]:
  "(0xd800::u16) = push_bit 11 (mask 2) OR push_bit 14 (mask 2)"
  "(0xdc00::u16) = push_bit 10 (mask 3) OR push_bit 14 (mask 2)"
  "(0xd800::u32) = push_bit 11 (mask 2) OR push_bit 14 (mask 2)"
  "(0xdc00::u32) = push_bit 10 (mask 3) OR push_bit 14 (mask 2)"
  "(0x3ff::u32) = mask 10" "(0xffc00::u32) = push_bit 10 (mask 10)"
  "(0xff::u16) = mask 8" "(0xff00::u16) = push_bit 8 (mask 8)"
  "(0xff00::u32) = push_bit 8 (mask 8)" "(0xff0000::u32) = push_bit 16 (mask 8)"
  by (simp_all add: mask_eq_exp_minus_1)

lemma split_bytes:
  "push_bit 8 (ucast (ucast (drop_bit 8 (t AND 0xff00)) :: u8)) OR ucast (ucast (t AND 0x00ff) :: u8) = (t :: u16)"
  (is "?l = t")
proof (rule bit_eqI)
  fix n
  show "bit ?l n = bit t n"
    unfolding mask_consts by (cases "n < 8") (auto simp: bit_simps dest: bit_imp_le_length)
qed

lemma bit_less_2_20: "unat (d :: u32) < 2 ^ 20 \<Longrightarrow> bit d n \<Longrightarrow> n < 20"
  using and_not_mask_less [of 20 d] by (auto simp: high_bits_clear not_le [symmetric])

lemma high_bits:
  assumes "unat d < 2 ^ 20"
  shows "push_bit 10 (ucast (ucast (drop_bit 10 (d AND 0xffc00)) OR 0xd800 :: u16) AND NOT 0xd800)
    = (d AND NOT (mask 10) :: u32)" (is "?l = ?r")
proof (rule bit_eqI)
  fix n
  show "bit ?l n = bit ?r n"
    unfolding mask_consts using bit_less_2_20 [OF assms, of n]
    by (cases "n < 10") (auto simp: bit_simps)
qed

lemma join_bits:
  assumes "unat d < 2 ^ 20"
  shows "push_bit 16 (ucast (ucast (drop_bit 16 ((d AND NOT (mask 10)) AND 0xff0000)) :: u8))
    OR push_bit 8 (ucast (ucast (drop_bit 8 ((d AND NOT (mask 10)) AND 0x00ff00)) :: u8))
    OR (ucast (ucast (d AND 0x3ff) OR 0xdc00 :: u16) AND NOT 0xdc00) = (d :: u32)" (is "?l = d")
proof (rule bit_eqI)
  fix n
  show "bit ?l n = bit d n"
    unfolding mask_consts using bit_less_2_20 [OF assms, of n]
    by (cases "n < 10"; cases "n < 16") (auto simp: bit_simps)
qed

lemma surrogate_iff:
  "is_high_surrogate w \<longleftrightarrow> drop_bit 10 w = 0x36" "is_low_surrogate w \<longleftrightarrow> drop_bit 10 w = 0x37"
proof -
  have u: "unat (drop_bit 10 w) = unat w div 1024"
    by (simp add: drop_bit_eq_div unat_div)
  show "is_high_surrogate w \<longleftrightarrow> drop_bit 10 w = 0x36"
    unfolding is_high_surrogate_def word_unat_eq_iff u by (auto simp: word_le_nat_alt word_less_nat_alt)
  show "is_low_surrogate w \<longleftrightarrow> drop_bit 10 w = 0x37"
    unfolding is_low_surrogate_def word_unat_eq_iff u by (auto simp: word_le_nat_alt word_less_nat_alt)
qed

lemma high_surrogate [simp]: "is_high_surrogate (high_of c)"
proof -
  have "drop_bit 10 (ucast (drop_bit 10 (d AND 0xffc00)) :: u16) = 0" for d :: u32
    unfolding mask_consts by (rule bit_eqI) (auto simp: bit_simps)
  then show ?thesis
    unfolding surrogate_iff high_of_def by (simp add: drop_bit_or)
qed

lemma low_surrogate [simp]: "is_low_surrogate (low_of c)"
proof -
  have "drop_bit 10 (ucast (d AND 0x3ff) :: u16) = 0" for d :: u32
    unfolding mask_consts by (rule bit_eqI) (auto simp: bit_simps)
  then show ?thesis
    unfolding surrogate_iff low_of_def by (simp add: drop_bit_or)
qed

lemma surrogates_disjoint: "is_low_surrogate w \<Longrightarrow> \<not> is_high_surrogate w"
  by (auto simp: surrogate_iff)

lemma above_bmp:
  assumes "scalar c" "0x10000 \<le> c"
  shows "unat (c - 0x10000) < 2 ^ 20" "unat (c - 0x10000) = unat c - 0x10000" "utf8_length c = 4"
proof -
  show "unat (c - 0x10000) = unat c - 0x10000"
    using assms(2) by (simp add: unat_sub)
  then show "unat (c - 0x10000) < 2 ^ 20"
    using assms by (simp add: scalar_def word_le_nat_alt)
  show "utf8_length c = 4"
    using assms(2) by (auto simp: utf8_length_def word_less_nat_alt word_le_nat_alt)
qed

lemma c16rtomb_high:
  assumes "scalar c" "0x10000 \<le> c"
  shows "c16rtomb s (high_of c) mbstate_zero =
    \<lparr>cv_ret = Count 0, cv_out = [], cv_errno = None,
     cv_state = MB 0 0 (ucast (drop_bit 8 (((c - 0x10000) AND NOT (mask 10)) AND 0x00ff00)))
                       (ucast (drop_bit 16 (((c - 0x10000) AND NOT (mask 10)) AND 0xff0000)))\<rparr>"
proof -
  have "push_bit 10 (ucast (high_of c) AND NOT 0xd800) = (c - 0x10000) AND NOT (mask 10)"
    using high_bits [OF above_bmp(1) [OF assms]] unfolding high_of_def .
  then show ?thesis
    unfolding c16rtomb_def Let_def by (simp only:) (simp add: mbstate_zero_def)
qed

lemma c16rtomb_low:
  assumes "scalar c" "0x10000 \<le> c"
    and st: "st = MB 0 0 (ucast (drop_bit 8 (((c - 0x10000) AND NOT (mask 10)) AND 0x00ff00)))
                       (ucast (drop_bit 16 (((c - 0x10000) AND NOT (mask 10)) AND 0xff0000)))"
    and "\<not> mbstate_is_initial st"
  shows "c16rtomb True (low_of c) st =
    \<lparr>cv_ret = Count 4, cv_out = utf8_encode c, cv_errno = None, cv_state = mbstate_zero\<rparr>"
proof -
  have c: "c \<noteq> 0" "c < 0x200000"
    using assms(1,2) by (auto simp: scalar_def word_less_nat_alt word_le_nat_alt)
  have "(push_bit 16 (ucast (mbstate_get_byte st 3)) OR push_bit 8 (ucast (mbstate_get_byte st 2))
      OR (ucast (low_of c) AND NOT 0xdc00)) = c - 0x10000"
    using join_bits [OF above_bmp(1) [OF assms(1,2)]] unfolding st low_of_def by simp
  then show ?thesis
    using assms(4) c32rtomb_encode [OF c] above_bmp(3) [OF assms(1,2)]
    by (simp add: c16rtomb_def Let_def mbstate_reset_def del: mbstate_get_byte.simps)
qed

lemma second_surrogate_state:
  assumes "scalar c" "0x10000 \<le> c"
  shows "mbstate_is_initial (MB 0 0 (ucast (drop_bit 8 (((c - 0x10000) AND NOT (mask 10)) AND 0x00ff00)))
                       (ucast (drop_bit 16 (((c - 0x10000) AND NOT (mask 10)) AND 0xff0000))))
    \<longleftrightarrow> c < 0x10400" (is "mbstate_is_initial (MB 0 0 ?b2 ?b3) \<longleftrightarrow> _")
proof -
  let ?d = "c - 0x10000"
  have "?b2 = 0 \<and> ?b3 = 0 \<longleftrightarrow> ?d AND NOT (mask 10) = 0"
  proof
    assume "?b2 = 0 \<and> ?b3 = 0"
    then have b: "\<not> bit ?b2 m" "\<not> bit ?b3 m" for m
      by (simp_all only: bit_0_eq bot_apply) simp_all
    have "\<not> bit ?d n" if "10 \<le> n" for n
      using b(1) [of "n - 8"] b(2) [of "n - 16"] that bit_less_2_20 [OF above_bmp(1) [OF assms], of n]
      unfolding mask_consts by (cases "n < 16") (auto simp: bit_simps)
    then show "?d AND NOT (mask 10) = 0"
      by (simp add: high_bits_clear)
  qed simp
  also have "\<dots> \<longleftrightarrow> unat ?d < 1024"
    by (subst and_not_mask_less) simp_all
  also have "\<dots> \<longleftrightarrow> c < 0x10400"
    using above_bmp(2) [OF assms] assms(2) by (auto simp: word_less_nat_alt word_le_nat_alt)
  finally show ?thesis
    by simp
qed

lemma mbrtoc16_encode:
  assumes "scalar c" "c \<noteq> 0"
  shows "mbrtoc16 (Some (utf8_encode c)) (utf8_length c) mbstate_zero =
    Some (if c < 0x10000 then mbstate_reset_and_return (utf8_length c) mbstate_zero (Some (ucast c))
          else begin_surrogate c 4 mbstate_zero)"
proof -
  have "mbrtoc32 True (Some (utf8_encode c)) (utf8_length c) mbstate_zero =
    Some \<lparr>cv_ret = Count (utf8_length c), cv_out = Some c, cv_errno = None, cv_state = mbstate_zero\<rparr>"
    using mbrtoc32_whole [of "[]" "utf8_encode c" True] utf8_scan_encode [OF assms(1), of "[]"] assms(2)
      utf8_length_pos(2) [of c]
    by (auto simp: conv_of_def simp flip: length_utf8_encode)
  then show ?thesis
    using assms above_bmp(3) [OF assms(1)]
    by (auto simp: mbrtoc16_def mbspartialc16_def mbstate_zero_def scalar_def)
qed

lemma begin_surrogate_eq:
  "begin_surrogate c 4 mbstate_zero =
    \<lparr>cv_ret = Count 4, cv_out = Some (high_of c), cv_errno = None,
     cv_state = MB (ucast (low_of c AND 0x00ff)) (ucast (drop_bit 8 (low_of c AND 0xff00))) 0 4\<rparr>"
  unfolding begin_surrogate_def Let_def low_of_def high_of_def by (simp add: mbstate_zero_def)

lemma mbrtoc16_second:
  "mbrtoc16 s n (MB (ucast (low_of c AND 0x00ff)) (ucast (drop_bit 8 (low_of c AND 0xff00))) 0 4) =
    Some \<lparr>cv_ret = NO_BYTES_CONSUMED, cv_out = Some (low_of c), cv_errno = None, cv_state = mbstate_zero\<rparr>"
  using split_bytes [of "low_of c"]
  by (simp add: mbrtoc16_def mbspartialc16_def finish_surrogate_def mbstate_reset_def)

section \<open>Properties\<close>

text \<open>
  C27: UTF-8 to UTF-16 and back. For every scalar value from U+10400 up, \<open>mbrtoc16\<close> turns its UTF-8
  bytes into a high and a low surrogate in two calls, the second of which consumes no bytes, and
  \<open>c16rtomb\<close> turns the two surrogates back into the same bytes, writing nothing for the first.
\<close>

theorem utf16_roundtrip:
  assumes "scalar c" "0x10400 \<le> c"
  shows "\<exists>bs hi lo st st'. c32rtomb True c mbstate_zero =
        \<lparr>cv_ret = Count 4, cv_out = bs, cv_errno = None, cv_state = mbstate_zero\<rparr>
    \<and> is_high_surrogate hi \<and> is_low_surrogate lo
    \<and> mbrtoc16 (Some bs) 4 mbstate_zero =
        Some \<lparr>cv_ret = Count 4, cv_out = Some hi, cv_errno = None, cv_state = st\<rparr>
    \<and> (\<forall>s n. mbrtoc16 s n st =
        Some \<lparr>cv_ret = NO_BYTES_CONSUMED, cv_out = Some lo, cv_errno = None, cv_state = mbstate_zero\<rparr>)
    \<and> c16rtomb True hi mbstate_zero =
        \<lparr>cv_ret = Count 0, cv_out = [], cv_errno = None, cv_state = st'\<rparr>
    \<and> c16rtomb True lo st' =
        \<lparr>cv_ret = Count 4, cv_out = bs, cv_errno = None, cv_state = mbstate_zero\<rparr>"
proof -
  have c: "0x10000 \<le> c" "c \<noteq> 0" "c < 0x200000" "\<not> c < 0x10000" "\<not> c < 0x10400"
    using assms by (auto simp: scalar_def word_less_nat_alt word_le_nat_alt)
  note st' = second_surrogate_state [OF assms(1) c(1)]
  show ?thesis
    using c c32rtomb_encode [OF c(2,3)] above_bmp(3) [OF assms(1) c(1)] mbrtoc16_encode [OF assms(1) c(2)]
      begin_surrogate_eq [of c] mbrtoc16_second [of _ _ c] c16rtomb_high [OF assms(1) c(1), of True]
      c16rtomb_low [OF assms(1) c(1) refl] st' high_surrogate [of c] low_surrogate [of c]
    by (intro exI [of _ "utf8_encode c"] exI [of _ "high_of c"] exI [of _ "low_of c"] exI conjI) auto
qed

theorem utf16_roundtrip_witness:
  "\<exists>bs hi lo st st'. c32rtomb True 0x1f600 mbstate_zero =
        \<lparr>cv_ret = Count 4, cv_out = bs, cv_errno = None, cv_state = mbstate_zero\<rparr>
    \<and> is_high_surrogate hi \<and> is_low_surrogate lo
    \<and> mbrtoc16 (Some bs) 4 mbstate_zero =
        Some \<lparr>cv_ret = Count 4, cv_out = Some hi, cv_errno = None, cv_state = st\<rparr>
    \<and> (\<forall>s n. mbrtoc16 s n st =
        Some \<lparr>cv_ret = NO_BYTES_CONSUMED, cv_out = Some lo, cv_errno = None, cv_state = mbstate_zero\<rparr>)
    \<and> c16rtomb True hi mbstate_zero =
        \<lparr>cv_ret = Count 0, cv_out = [], cv_errno = None, cv_state = st'\<rparr>
    \<and> c16rtomb True lo st' =
        \<lparr>cv_ret = Count 4, cv_out = bs, cv_errno = None, cv_state = mbstate_zero\<rparr>"
  by (rule utf16_roundtrip) (simp_all add: scalar_def)

text \<open>
  C35: The round trip fails for U+10000 to U+103FF. Their high surrogate is 0xD800, for which
  \<open>c16rtomb\<close> stores zero bytes in the state; the state then looks initial, so the low surrogate that
  follows is rejected with EINVAL and nothing is written, although \<open>mbrtoc16\<close> produced exactly
  these two surrogates.
\<close>

theorem c16rtomb_loses_first_block:
  assumes "0x10000 \<le> c" "c < 0x10400"
  shows "mbrtoc16 (Some (cv_out (c32rtomb True c mbstate_zero))) 4 mbstate_zero =
        Some \<lparr>cv_ret = Count 4, cv_out = Some (high_of c), cv_errno = None,
              cv_state = MB (ucast (low_of c AND 0x00ff)) (ucast (drop_bit 8 (low_of c AND 0xff00))) 0 4\<rparr>
    \<and> c16rtomb True (high_of c) mbstate_zero =
        \<lparr>cv_ret = Count 0, cv_out = [], cv_errno = None, cv_state = mbstate_zero\<rparr>
    \<and> c16rtomb True (low_of c) mbstate_zero =
        \<lparr>cv_ret = ILLEGAL_SEQUENCE, cv_out = [], cv_errno = Some EINVAL, cv_state = mbstate_zero\<rparr>"
proof -
  have c: "c \<noteq> 0" "c < 0x200000" "\<not> c < 0x10000" and sc: "scalar c"
    using assms by (auto simp: scalar_def word_less_nat_alt word_le_nat_alt)
  have "c16rtomb True (low_of c) mbstate_zero =
        \<lparr>cv_ret = ILLEGAL_SEQUENCE, cv_out = [], cv_errno = Some EINVAL, cv_state = mbstate_zero\<rparr>"
    using low_surrogate [of c] surrogates_disjoint [of "low_of c"]
    by (simp add: c16rtomb_def mbstate_reset_and_return_illegal_def mbstate_reset_def del: low_surrogate)
  moreover have "c16rtomb True (high_of c) mbstate_zero =
        \<lparr>cv_ret = Count 0, cv_out = [], cv_errno = None, cv_state = mbstate_zero\<rparr>"
    using c16rtomb_high [OF sc assms(1), of True] second_surrogate_state [OF sc assms(1)] assms(2)
    unfolding mbstate_is_initial_iff by simp
  moreover have "mbrtoc16 (Some (cv_out (c32rtomb True c mbstate_zero))) 4 mbstate_zero =
      Some (begin_surrogate c 4 mbstate_zero)"
    using c32rtomb_encode [OF c(1,2)] mbrtoc16_encode [OF sc c(1)] c(3) above_bmp(3) [OF sc assms(1)]
    by simp
  ultimately show ?thesis
    unfolding begin_surrogate_eq by blast
qed

theorem c16rtomb_loses_first_block_witness:
  "mbrtoc16 (Some (cv_out (c32rtomb True 0x10001 mbstate_zero))) 4 mbstate_zero =
        Some \<lparr>cv_ret = Count 4, cv_out = Some (high_of 0x10001), cv_errno = None,
              cv_state = MB (ucast (low_of 0x10001 AND 0x00ff)) (ucast (drop_bit 8 (low_of 0x10001 AND 0xff00))) 0 4\<rparr>
    \<and> c16rtomb True (high_of 0x10001) mbstate_zero =
        \<lparr>cv_ret = Count 0, cv_out = [], cv_errno = None, cv_state = mbstate_zero\<rparr>
    \<and> c16rtomb True (low_of 0x10001) mbstate_zero =
        \<lparr>cv_ret = ILLEGAL_SEQUENCE, cv_out = [], cv_errno = Some EINVAL, cv_state = mbstate_zero\<rparr>"
  by (rule c16rtomb_loses_first_block) simp_all

end
