(* ===== verification/Ctype.thy ===== *)
theory Ctype
  imports Bionic_Prelude
begin

text \<open>
  The character classes of libc/include/ctype.h and the case-insensitive comparisons of
  libc/bionic/casecmp.cpp. An \<open>int\<close> character is a 32-bit word; the comparisons are unsigned, as the
  casts in the code make them. Code units of strings are such words too, and a C string is the list
  of the units before its terminator. Whether plain \<open>char\<close> is signed depends on the architecture (it is on x86, it
  is not on Arm), so the comparisons of \<open>char\<close> strings have it as a parameter.
\<close>

definition tolower_bit :: "u32 \<Rightarrow> u32" where "tolower_bit ch = ch OR 0x20"
definition toupper_bit :: "u32 \<Rightarrow> u32" where "toupper_bit ch = ch XOR 0x20"

definition ctype_in_range :: "u32 \<Rightarrow> u32 \<Rightarrow> u32 \<Rightarrow> bool" where
  "ctype_in_range lo ch hi = (ch - lo < hi - lo + 1)"

definition isalpha :: "u32 \<Rightarrow> bool" where "isalpha ch = ctype_in_range 0x61 (tolower_bit ch) 0x7a"
definition isblank :: "u32 \<Rightarrow> bool" where "isblank ch = (ch = 0x20 \<or> ch = 0x09)"
definition iscntrl :: "u32 \<Rightarrow> bool" where "iscntrl ch = (ch < 0x20 \<or> ch = 0x7f)"
definition isdigit :: "u32 \<Rightarrow> bool" where "isdigit ch = ctype_in_range 0x30 ch 0x39"
definition isgraph :: "u32 \<Rightarrow> bool" where "isgraph ch = ctype_in_range 0x21 ch 0x7e"
definition islower :: "u32 \<Rightarrow> bool" where "islower ch = ctype_in_range 0x61 ch 0x7a"
definition isprint :: "u32 \<Rightarrow> bool" where "isprint ch = ctype_in_range 0x20 ch 0x7e"
definition isspace :: "u32 \<Rightarrow> bool" where "isspace ch = (ch = 0x20 \<or> ctype_in_range 0x09 ch 0x0d)"
definition isupper :: "u32 \<Rightarrow> bool" where "isupper ch = ctype_in_range 0x41 ch 0x5a"
definition isxdigit :: "u32 \<Rightarrow> bool" where
  "isxdigit ch = (isdigit ch \<or> ctype_in_range 0x61 (tolower_bit ch) 0x66)"
definition isalnum :: "u32 \<Rightarrow> bool" where "isalnum ch = (isalpha ch \<or> isdigit ch)"
definition ispunct :: "u32 \<Rightarrow> bool" where "ispunct ch = (isgraph ch \<and> \<not> isalnum ch)"
definition tolower :: "u32 \<Rightarrow> u32" where
  "tolower ch = (if ctype_in_range 0x41 ch 0x5a then tolower_bit ch else ch)"
definition toupper :: "u32 \<Rightarrow> u32" where
  "toupper ch = (if ctype_in_range 0x61 ch 0x7a then toupper_bit ch else ch)"
definition isascii :: "u32 \<Rightarrow> bool" where "isascii ch = (ch < 0x80)"
definition toascii :: "u32 \<Rightarrow> u32" where "toascii ch = ch AND 0x7f"

text \<open>The unit at the start of the rest of a string, its terminator at the end.\<close>

definition unit_at :: "u32 list \<Rightarrow> u32" where
  "unit_at s = (case s of [] \<Rightarrow> 0 | c # _ \<Rightarrow> c)"

text \<open>White space among bytes.\<close>

abbreviation isspace_char :: "char \<Rightarrow> bool" where
  "isspace_char c \<equiv> isspace (of_char c)"

section \<open>The classes as ranges\<close>

text \<open>The single unsigned comparison is the two comparisons it stands for.\<close>

lemma in_range_iff: "lo \<le> hi \<Longrightarrow> unat hi < 2 ^ 32 - 1 \<Longrightarrow> ctype_in_range lo ch hi \<longleftrightarrow> lo \<le> ch \<and> ch \<le> hi"
proof -
  assume le: "lo \<le> hi" and hi: "unat hi < 2 ^ 32 - 1"
  have n: "unat (hi - lo + 1) = unat hi - unat lo + 1"
    using le hi by (simp add: unat_word_ariths unat_sub word_le_nat_alt mod_less)
  show ?thesis
  proof (cases "lo \<le> ch")
    case True
    then have "unat (ch - lo) = unat ch - unat lo"
      by (simp add: unat_sub)
    then show ?thesis
      using True le n by (auto simp: ctype_in_range_def word_less_nat_alt word_le_nat_alt)
  next
    case False
    then have lt: "unat ch < unat lo"
      by (simp add: word_le_nat_alt)
    have "unat (ch - lo) = 2 ^ 32 + unat ch - unat lo"
      using lt by (simp add: unat_sub_if')
    then show ?thesis
      using False lt n hi le by (simp add: ctype_in_range_def word_less_nat_alt word_le_nat_alt)
  qed
qed

lemma bit_5_iff: "bit (ch :: u32) 5 \<longleftrightarrow> odd (unat ch div 32)"
proof -
  have "bit ch 5 \<longleftrightarrow> bit (unat ch) 5"
    by (simp add: bit_unsigned_iff)
  then show ?thesis
    by (simp add: bit_iff_odd)
qed

lemma bit_0x20 [simp]: "bit (0x20 :: int) n \<longleftrightarrow> n = 5"
proof -
  have "bit (2 ^ 5 :: int) n \<longleftrightarrow> n = 5"
    unfolding bit_exp_iff by auto
  then show ?thesis by simp
qed

lemma tolower_bit_cases: "tolower_bit ch = (if bit ch 5 then ch else ch + 0x20)"
proof -
  have "ch OR 0x20 = ch" if "bit ch 5"
    using that by (auto intro!: bit_eqI simp: bit_or_iff)
  moreover have "ch OR 0x20 = ch + 0x20" if "\<not> bit ch 5"
  proof -
    have "ch AND 0x20 = 0"
      using that bit_iff_and_push_bit_not_eq_0 [of ch 5] by (simp add: push_bit_eq_mult)
    then show ?thesis
      by (metis disjunctive_add_eq_or)
  qed
  ultimately show ?thesis
    by (simp add: tolower_bit_def)
qed

lemma unat_tolower_bit:
  "unat (tolower_bit ch) =
     (if odd (unat ch div 32) then unat ch else if unat ch < 2 ^ 32 - 32 then unat ch + 32 else unat ch + 32 - 2 ^ 32)"
proof -
  have "unat ch < 2 ^ 32"
    using unsigned_less [of ch] by simp
  then show ?thesis
    by (simp add: tolower_bit_cases bit_5_iff unat_word_ariths mod_if)
qed

text \<open>Lower-casing by setting a bit maps into a range exactly the upper and lower case of that range.\<close>

lemma tolower_range:
  assumes "0x61 \<le> lo" "lo \<le> hi" "hi \<le> (0x7a :: u32)"
  shows "ctype_in_range lo (tolower_bit ch) hi \<longleftrightarrow> lo \<le> ch \<and> ch \<le> hi \<or> lo - 0x20 \<le> ch \<and> ch \<le> hi - 0x20"
proof -
  have n: "97 \<le> unat lo" "unat lo \<le> unat hi" "unat hi \<le> 122"
    using assms by (simp_all add: word_le_nat_alt)
  then have d: "unat (lo - 0x20) = unat lo - 32" "unat (hi - 0x20) = unat hi - 32"
    by (simp_all add: unat_sub word_le_nat_alt)
  have "ctype_in_range lo (tolower_bit ch) hi \<longleftrightarrow> unat lo \<le> unat (tolower_bit ch) \<and> unat (tolower_bit ch) \<le> unat hi"
    using n by (simp add: in_range_iff word_le_nat_alt)
  also have "\<dots> \<longleftrightarrow> unat lo \<le> unat ch \<and> unat ch \<le> unat hi \<or> unat lo - 32 \<le> unat ch \<and> unat ch \<le> unat hi - 32"
  proof -
    have odd: "odd (unat ch div 32)" if "97 \<le> unat ch" "unat ch \<le> 122"
    proof -
      have "unat ch div 32 = 3"
        using that by auto
      then show ?thesis by simp
    qed
    have even: "even (unat ch div 32)" if "65 \<le> unat ch" "unat ch \<le> 90"
    proof -
      have "unat ch div 32 = 2"
        using that by auto
      then show ?thesis by simp
    qed
    define t where "t = unat (tolower_bit ch)"
    have t: "odd (unat ch div 32) \<Longrightarrow> t = unat ch" "even (unat ch div 32) \<Longrightarrow> t = unat ch + 32 \<or> t < 32 \<and> 90 < unat ch"
      using unsigned_less [of ch, where 'a = nat] by (auto simp: t_def unat_tolower_bit)
    consider "97 \<le> unat ch" "unat ch \<le> 122" | "65 \<le> unat ch" "unat ch \<le> 90"
      | "\<not> (97 \<le> unat ch \<and> unat ch \<le> 122)" "\<not> (65 \<le> unat ch \<and> unat ch \<le> 90)"
      by blast
    then have "unat lo \<le> t \<and> t \<le> unat hi \<longleftrightarrow>
        unat lo \<le> unat ch \<and> unat ch \<le> unat hi \<or> unat lo - 32 \<le> unat ch \<and> unat ch \<le> unat hi - 32"
    proof cases
      case 1
      then show ?thesis
        using t(1) odd n by simp linarith
    next
      case 2
      then show ?thesis
        using t(2) even n by simp linarith
    next
      case 3
      then show ?thesis
        using t n by (cases "odd (unat ch div 32)") (simp, linarith)+
    qed
    then show ?thesis
      by (simp add: t_def)
  qed
  finally show ?thesis
    using d by (simp add: word_le_nat_alt)
qed

lemma in_range_numeral [simp]:
  "ctype_in_range 0x30 ch 0x39 \<longleftrightarrow> 0x30 \<le> ch \<and> ch \<le> 0x39"
  "ctype_in_range 0x21 ch 0x7e \<longleftrightarrow> 0x21 \<le> ch \<and> ch \<le> 0x7e"
  "ctype_in_range 0x61 ch 0x7a \<longleftrightarrow> 0x61 \<le> ch \<and> ch \<le> 0x7a"
  "ctype_in_range 0x20 ch 0x7e \<longleftrightarrow> 0x20 \<le> ch \<and> ch \<le> 0x7e"
  "ctype_in_range 0x09 ch 0x0d \<longleftrightarrow> 0x09 \<le> ch \<and> ch \<le> 0x0d"
  "ctype_in_range 0x41 ch 0x5a \<longleftrightarrow> 0x41 \<le> ch \<and> ch \<le> 0x5a"
  by (simp_all add: in_range_iff word_le_nat_alt)

lemma isalpha_iff: "isalpha ch \<longleftrightarrow> 0x61 \<le> ch \<and> ch \<le> 0x7a \<or> 0x41 \<le> ch \<and> ch \<le> 0x5a"
  unfolding isalpha_def by (subst tolower_range) simp_all

lemma isxdigit_iff:
  "isxdigit ch \<longleftrightarrow> 0x30 \<le> ch \<and> ch \<le> 0x39 \<or> 0x61 \<le> ch \<and> ch \<le> 0x66 \<or> 0x41 \<le> ch \<and> ch \<le> 0x46"
  unfolding isxdigit_def isdigit_def by (subst tolower_range) simp_all

lemma tolower_add: "tolower ch = (if isupper ch then ch + 0x20 else ch)"
proof (cases "isupper ch")
  case True
  then have "65 \<le> unat ch" "unat ch \<le> 90"
    by (simp_all add: isupper_def word_le_nat_alt)
  then have "unat ch div 32 = 2"
    by auto
  then have "\<not> bit ch 5"
    by (simp add: bit_5_iff)
  then show ?thesis
    using True by (simp add: tolower_def isupper_def tolower_bit_cases)
qed (auto simp: tolower_def isupper_def)

lemma toupper_sub: "toupper ch = (if islower ch then ch - 0x20 else ch)"
proof (cases "islower ch")
  case True
  then have "97 \<le> unat ch" "unat ch \<le> 122"
    by (simp_all add: islower_def word_le_nat_alt)
  then have "unat ch div 32 = 3"
    by auto
  then have b: "bit ch 5"
    by (simp add: bit_5_iff)
  have "(ch XOR 0x20) AND 0x20 = 0" "(ch XOR 0x20) OR 0x20 = ch"
    using b by (auto intro!: bit_eqI simp: bit_or_iff bit_and_iff bit_xor_iff)
  then have "ch = (ch XOR 0x20) + 0x20"
    by (metis disjunctive_add_eq_or)
  then have "ch XOR 0x20 = ch - 0x20"
    by (metis add_diff_cancel_right')
  then show ?thesis
    using True by (simp add: toupper_def toupper_bit_def islower_def)
qed (auto simp: toupper_def islower_def)

section \<open>Case-insensitive comparison\<close>

fun CaseCmp :: "(u32 \<Rightarrow> u32) \<Rightarrow> u32 list \<Rightarrow> u32 list \<Rightarrow> int" where
  "CaseCmp mapper [] rhs = sint (mapper 0 - mapper (unit_at rhs))"
| "CaseCmp mapper (c # lhs) rhs =
     (if mapper c = mapper (unit_at rhs) then CaseCmp mapper lhs (tl rhs)
      else sint (mapper c - mapper (unit_at rhs)))"

text \<open>The loop of the bounded comparison, with \<open>n\<close> decremented already.\<close>

fun CaseCmpN :: "(u32 \<Rightarrow> u32) \<Rightarrow> u32 list \<Rightarrow> u32 list \<Rightarrow> nat \<Rightarrow> int" where
  "CaseCmpN mapper (c # lhs) (d # rhs) (Suc n) =
     (if mapper c = mapper d then CaseCmpN mapper lhs rhs n else sint (mapper c - mapper d))"
| "CaseCmpN mapper lhs rhs n = sint (mapper (unit_at lhs) - mapper (unit_at rhs))"

text \<open>A plain \<open>char\<close> that is passed as an \<open>int\<close>.\<close>

definition char_to_int :: "bool \<Rightarrow> u8 \<Rightarrow> u32" where
  "char_to_int char_is_signed c = (if char_is_signed then scast c else ucast c)"

definition strcasecmp :: "bool \<Rightarrow> u8 list \<Rightarrow> u8 list \<Rightarrow> int" where
  "strcasecmp char_is_signed lhs rhs =
     CaseCmp tolower (map (char_to_int char_is_signed) lhs) (map (char_to_int char_is_signed) rhs)"

definition strncasecmp :: "bool \<Rightarrow> u8 list \<Rightarrow> u8 list \<Rightarrow> nat \<Rightarrow> int" where
  "strncasecmp char_is_signed lhs rhs n =
     (if n = 0 then 0
      else CaseCmpN tolower (map (char_to_int char_is_signed) lhs) (map (char_to_int char_is_signed) rhs) (n - 1))"

lemma unat_tolower: "unat (tolower c) = (if 65 \<le> unat c \<and> unat c \<le> 90 then unat c + 32 else unat c)"
  by (auto simp: tolower_add isupper_def word_le_nat_alt unat_word_ariths)

lemma tolower_0 [simp]: "tolower 0 = 0" "tolower c = 0 \<longleftrightarrow> c = 0"
proof -
  show "tolower 0 = 0"
    by (simp add: tolower_def)
  show "tolower c = 0 \<longleftrightarrow> c = 0"
    using unat_tolower [of c] by (auto simp: word_unat_eq_iff split: if_splits)
qed

text \<open>The order of the code units: by the lower case of the unit as an \<open>int\<close>.\<close>

definition fold_key :: "u32 \<Rightarrow> int" where
  "fold_key c = sint (tolower c)"

definition small_unit :: "u32 \<Rightarrow> bool" where
  "small_unit c \<longleftrightarrow> - 256 \<le> sint c \<and> sint c < 256"

lemma small_char: "small_unit (char_to_int cs c)"
proof (cases cs)
  case True
  have "sint (scast c :: u32) = sint c"
    by (rule sint_up_scast) (simp add: is_up)
  then show ?thesis
    using True sint_greater_eq [of c] sint_less [of c] by (simp add: small_unit_def char_to_int_def)
next
  case False
  have "uint (ucast c :: u32) = uint c"
    by (rule uint_up_ucast) (simp add: is_up)
  then have "sint (ucast c :: u32) = signed_take_bit 31 (uint c)"
    by (simp add: sint_uint)
  also have "\<dots> = uint c"
    by (rule signed_take_bit_int_eq_self) (use uint_lt2p [of c] uint_ge_0 [of c] in \<open>simp_all del: uint_ge_0, linarith+\<close>)
  finally have "sint (ucast c :: u32) = uint c" .
  moreover have "- 256 \<le> uint c"
    using uint_ge_0 [of c] by linarith
  moreover have "uint c < 256"
    using uint_lt2p [of c] by simp
  ultimately show ?thesis
    using False by (simp add: small_unit_def char_to_int_def)
qed

lemma char_to_int_eq_0 [simp]: "char_to_int cs c = 0 \<longleftrightarrow> c = 0"
proof -
  have s: "sint (scast c :: u32) = sint c" and u: "uint (ucast c :: u32) = uint c"
    by (simp_all add: sint_up_scast uint_up_ucast is_up)
  have "(scast c :: u32) = 0 \<longleftrightarrow> c = 0"
    using s signed_word_eqI [of c 0] signed_word_eqI [of "scast c :: u32" 0] by (auto simp: sint_0)
  moreover have "(ucast c :: u32) = 0 \<longleftrightarrow> c = 0"
    using u by (metis unsigned_0 word_uint_eq_iff)
  ultimately show ?thesis
    by (simp add: char_to_int_def)
qed

lemma fold_key_eq: "fold_key c = fold_key d \<longleftrightarrow> tolower c = tolower d" "fold_key 0 = 0" "fold_key c = 0 \<longleftrightarrow> c = 0"
proof -
  show "fold_key c = fold_key d \<longleftrightarrow> tolower c = tolower d" for c d
    by (auto simp: fold_key_def intro: signed_word_eqI)
  from this [of c 0] show "fold_key 0 = 0" "fold_key c = 0 \<longleftrightarrow> c = 0"
    by (simp_all add: fold_key_def)
qed

lemma fold_key_cases:
  assumes "small_unit c"
  shows "fold_key c = (if isupper c then sint c + 32 else sint c)"
proof -
  have "sint (c + 0x20) = signed_take_bit 31 (sint c + 32)"
    using sint_word_ariths(1) [of c "0x20"] by simp
  also have "\<dots> = sint c + 32"
    using assms by (intro signed_take_bit_int_eq_self) (simp_all add: small_unit_def)
  finally show ?thesis
    by (simp add: fold_key_def tolower_add)
qed

text \<open>The difference of two mapped units orders them.\<close>

lemma sint_diff:
  assumes "small_unit c" "small_unit d"
  shows "sint (tolower c - tolower d) = fold_key c - fold_key d"
proof -
  have r: "- 256 \<le> fold_key x" "fold_key x < 512" if "small_unit x" for x
    using that fold_key_cases [OF that] by (auto simp: small_unit_def)
  have "sint (tolower c - tolower d) = signed_take_bit 31 (fold_key c - fold_key d)"
    using sint_word_ariths(2) [of "tolower c" "tolower d"] by (simp add: fold_key_def)
  moreover have "- 2147483648 \<le> fold_key c - fold_key d" "fold_key c - fold_key d < 2147483648"
    using r [OF assms(1)] r [OF assms(2)] by linarith+
  ultimately show ?thesis
    using signed_take_bit_int_eq_self [of 31 "fold_key c - fold_key d"] by simp
qed

lemma sint_diff_0:
  assumes "small_unit c"
  shows "sint (tolower c) = fold_key c" "sint (- tolower c) = - fold_key c"
  using sint_diff [of 0 c] assms by (simp_all add: small_unit_def fold_key_eq fold_key_def)

text \<open>Strings are compared with their terminator, so that it takes part in the order.\<close>

definition fold_keys :: "u32 list \<Rightarrow> int list" where
  "fold_keys s = map fold_key s @ [0]"

lemma fold_keys_simps [simp]: "fold_keys [] = [0]" "fold_keys (c # s) = fold_key c # fold_keys s"
  by (simp_all add: fold_keys_def)

definition units_ok :: "u32 list \<Rightarrow> bool" where
  "units_ok s \<longleftrightarrow> (\<forall>c \<in> set s. c \<noteq> 0 \<and> small_unit c)"

lemma units_ok_simps [simp]: "units_ok []" "units_ok (c # s) \<longleftrightarrow> c \<noteq> 0 \<and> small_unit c \<and> units_ok s"
  by (auto simp: units_ok_def)

lemma CaseCmp_fold_keys:
  "units_ok a \<Longrightarrow> units_ok b \<Longrightarrow>
   (CaseCmp tolower a b = 0 \<longleftrightarrow> fold_keys a = fold_keys b) \<and> (CaseCmp tolower a b < 0 \<longleftrightarrow> fold_keys a < fold_keys b)"
proof (induction a arbitrary: b)
  case Nil
  then show ?case
    using fold_key_eq(3) by (cases b) (auto simp: unit_at_def sint_diff_0)
next
  case (Cons c a)
  show ?case
  proof (cases b)
    case Nil
    then show ?thesis
      using Cons.prems fold_key_eq(3) [of c] by (simp add: unit_at_def sint_diff_0)
  next
    case b: (Cons d b')
    have d: "sint (tolower c - tolower d) = fold_key c - fold_key d"
      using Cons.prems sint_diff by (simp add: b)
    show ?thesis
    proof (cases "tolower c = tolower d")
      case True
      then show ?thesis
        using Cons.IH [of b'] Cons.prems fold_key_eq(1) [of c d] by (simp add: b unit_at_def)
    next
      case False
      then have "fold_key c \<noteq> fold_key d"
        using fold_key_eq(1) by simp
      then show ?thesis
        using False d by (simp add: b unit_at_def)
    qed
  qed
qed

lemma CaseCmpN_fold_keys:
  "units_ok a \<Longrightarrow> units_ok b \<Longrightarrow>
   (CaseCmpN tolower a b n = 0 \<longleftrightarrow> take (Suc n) (fold_keys a) = take (Suc n) (fold_keys b)) \<and>
   (CaseCmpN tolower a b n < 0 \<longleftrightarrow> take (Suc n) (fold_keys a) < take (Suc n) (fold_keys b))"
proof (induction a arbitrary: b n)
  case Nil
  then show ?case
    using fold_key_eq(3) by (cases b) (auto simp: unit_at_def sint_diff_0)
next
  case (Cons c a)
  show ?case
  proof (cases b)
    case Nil
    then show ?thesis
      using Cons.prems fold_key_eq(3) [of c] by (auto simp: unit_at_def sint_diff_0)
  next
    case (Cons d b')
    then show ?thesis
      using Cons.IH [of b' "n - 1"] Cons.prems fold_key_eq(1) [of c d] sint_diff [of c d] by (cases n) (auto simp: unit_at_def)
  qed
qed

section \<open>Properties\<close>

text \<open>
  The character classes are the documented sets, for every value of an \<open>int\<close> and not only for
  those of a character, although each is a single unsigned comparison after setting a bit; the case
  conversions move exactly the letters of the other case by 0x20 and undo each other on them.
\<close>

lemma ctype_classes:
  fixes ch :: u32
  shows "isupper ch \<longleftrightarrow> unat ch \<in> {65..90}" "islower ch \<longleftrightarrow> unat ch \<in> {97..122}"
    "isalpha ch \<longleftrightarrow> unat ch \<in> {65..90} \<union> {97..122}" "isdigit ch \<longleftrightarrow> unat ch \<in> {48..57}"
    "isxdigit ch \<longleftrightarrow> unat ch \<in> {48..57} \<union> {65..70} \<union> {97..102}"
    "isspace ch \<longleftrightarrow> unat ch \<in> {9..13} \<union> {32}" "isblank ch \<longleftrightarrow> unat ch \<in> {9, 32}"
    "isprint ch \<longleftrightarrow> unat ch \<in> {32..126}" "isgraph ch \<longleftrightarrow> unat ch \<in> {33..126}" "iscntrl ch \<longleftrightarrow> unat ch \<in> {0..31} \<union> {127}"
    "isascii ch \<longleftrightarrow> unat ch \<in> {0..127}" "isalnum ch \<longleftrightarrow> unat ch \<in> {48..57} \<union> {65..90} \<union> {97..122}"
    "ispunct ch \<longleftrightarrow> unat ch \<in> {33..47} \<union> {58..64} \<union> {91..96} \<union> {123..126}"
proof -
  note defs = isalpha_iff isupper_def islower_def isdigit_def isxdigit_iff isspace_def isblank_def isprint_def
    isgraph_def isalnum_def ispunct_def isascii_def iscntrl_def
  note nats = word_le_nat_alt word_less_nat_alt word_unat_eq_iff
  show "isupper ch \<longleftrightarrow> unat ch \<in> {65..90}" "islower ch \<longleftrightarrow> unat ch \<in> {97..122}"
    "isalpha ch \<longleftrightarrow> unat ch \<in> {65..90} \<union> {97..122}" "isdigit ch \<longleftrightarrow> unat ch \<in> {48..57}"
    "isxdigit ch \<longleftrightarrow> unat ch \<in> {48..57} \<union> {65..70} \<union> {97..102}"
    "isspace ch \<longleftrightarrow> unat ch \<in> {9..13} \<union> {32}" "isblank ch \<longleftrightarrow> unat ch \<in> {9, 32}"
    "isprint ch \<longleftrightarrow> unat ch \<in> {32..126}" "isgraph ch \<longleftrightarrow> unat ch \<in> {33..126}"
    "iscntrl ch \<longleftrightarrow> unat ch \<in> {0..31} \<union> {127}" "isascii ch \<longleftrightarrow> unat ch \<in> {0..127}"
    by (auto simp: defs nats)
  show "isalnum ch \<longleftrightarrow> unat ch \<in> {48..57} \<union> {65..90} \<union> {97..122}"
    by (auto simp: defs nats)
  show "ispunct ch \<longleftrightarrow> unat ch \<in> {33..47} \<union> {58..64} \<union> {91..96} \<union> {123..126}"
    unfolding defs in_range_numeral nats by simp linarith
qed

lemma case_conversions:
  "isupper ch \<Longrightarrow> islower (tolower ch) \<and> toupper (tolower ch) = ch" "islower ch \<Longrightarrow> isupper (toupper ch) \<and> tolower (toupper ch) = ch"
proof -
  have "isupper ch \<Longrightarrow> islower (ch + 0x20)" "islower ch \<Longrightarrow> isupper (ch - 0x20)"
    by (auto simp: isupper_def islower_def word_le_nat_alt unat_word_ariths unat_sub)
  then show "isupper ch \<Longrightarrow> islower (tolower ch) \<and> toupper (tolower ch) = ch"
    "islower ch \<Longrightarrow> isupper (toupper ch) \<and> tolower (toupper ch) = ch"
    by (simp_all add: tolower_add toupper_sub)
qed

text \<open>
  \<open>strcasecmp\<close> and \<open>strncasecmp\<close> compare lexicographically the lower cases of the characters as the
  architecture reads them, the terminator included: the result is zero exactly when these agree (in their first
  \<open>n\<close> places), and negative exactly when the first is smaller.
\<close>

lemma casecmp_lexicographic:
  fixes cs :: bool
  assumes "0 \<notin> set a" "0 \<notin> set b"
  defines "ka \<equiv> fold_keys (map (char_to_int cs) a)" and "kb \<equiv> fold_keys (map (char_to_int cs) b)"
  shows "strcasecmp cs a b = 0 \<longleftrightarrow> ka = kb" "strcasecmp cs a b < 0 \<longleftrightarrow> ka < kb"
    "strncasecmp cs a b n = 0 \<longleftrightarrow> take n ka = take n kb" "strncasecmp cs a b n < 0 \<longleftrightarrow> take n ka < take n kb"
proof -
  have "0 \<notin> set s \<Longrightarrow> units_ok (map (char_to_int cs) s)" for s
    using small_char by (induction s) auto
  then have ok: "units_ok (map (char_to_int cs) a)" "units_ok (map (char_to_int cs) b)"
    using assms(1,2) by blast+
  show "strcasecmp cs a b = 0 \<longleftrightarrow> ka = kb" "strcasecmp cs a b < 0 \<longleftrightarrow> ka < kb"
    using CaseCmp_fold_keys [OF ok] by (simp_all add: strcasecmp_def ka_def kb_def)
  show "strncasecmp cs a b n = 0 \<longleftrightarrow> take n ka = take n kb" "strncasecmp cs a b n < 0 \<longleftrightarrow> take n ka < take n kb"
    using CaseCmpN_fold_keys [OF ok, of "n - 1"] by (cases n; simp add: strncasecmp_def ka_def kb_def)+
qed

text \<open>Where plain \<open>char\<close> is signed, a byte from 0x80 on is smaller than every letter, and even than the terminator.\<close>

lemma strcasecmp_signed: "strcasecmp True [0x80] [] < 0" "0 < strcasecmp False [0x80] []"
  by code_simp+

end
