(* ===== verification/Property_Contexts.thy ===== *)
theory Property_Contexts
  imports Prop_Area_Spec Ctype
begin

text \<open>
  Which property area holds a name: the mapping of property files (the first part of prop_area.cpp),
  \<open>ContextNode\<close> (context_node.cpp), and the three implementations of \<open>Contexts\<close>
  (contexts_serialized.cpp, contexts_split.cpp, contexts_pre_split.h).

  A property file is mapped MAP_SHARED, so an area is identified by the path of its file: a
  \<open>prop_area*\<close> is a path, and the world maps paths to files and the areas in them. The results of the
  system calls, and the property_info_parser library that assigns an index of a context to a name,
  are a parameter \<open>sysenv\<close>. The static \<open>pa_size_\<close>, shared by all areas in the code, is the size of each
  file here; property files all have the same size.

\<close>

section \<open>Mapping property files\<close>

record pfile =
  pf_uid :: nat
  pf_gid :: nat
  pf_mode :: u32
  pf_size :: nat
  pf_area :: prop_area

type_synonym world = "string \<rightharpoonup> pfile"

datatype open_result = OpenOk | OpenEACCES | OpenError

record sysenv =
  se_open_rw :: "string \<Rightarrow> open_result"
  se_open_ro :: "string \<Rightarrow> bool"
  se_fsetxattr :: "string \<Rightarrow> bool"
  se_ftruncate :: "string \<Rightarrow> bool"
  se_fstat :: "string \<Rightarrow> bool"
  se_mmap :: "string \<Rightarrow> bool"
  se_access :: "string \<Rightarrow> bool"
  se_is_dir :: "string \<Rightarrow> bool"
  se_prop_tree_file :: string
  se_uid :: nat
  se_gid :: nat
  se_lines :: "string \<Rightarrow> string list option"
  se_info_contexts :: "string \<Rightarrow> string list option"
  se_info_index :: "string \<Rightarrow> nat"
  se_anon_mmap :: bool
  se_override_env :: bool
  se_init_or_root :: bool

definition zero_area :: prop_area where
  "zero_area = \<lparr>pa_data_size = 0, bytes_used = 0, pa_serial = 0, pa_magic = 0, pa_version = 0,
                dirty_backup_area = [], pa_data = Map.empty\<rparr>"

text \<open>
  \<open>flag\<close> is the caller's \<open>fsetxattr_failed\<close>, \<open>None\<close> for a null pointer. \<open>O_CREAT | O_EXCL\<close> fails on a
  path that exists; the new file has mode 0444 and is zero until the area is constructed in it.
\<close>

definition map_prop_area_rw ::
  "sysenv \<Rightarrow> world \<Rightarrow> string \<Rightarrow> bool option \<Rightarrow> (world \<times> string option \<times> bool option) res" where
  "map_prop_area_rw e w filename flag =
     (if w filename \<noteq> None then Ok (w, None, flag)
      else case se_open_rw e filename of
        OpenEACCES \<Rightarrow> Abort
      | OpenError \<Rightarrow> Ok (w, None, flag)
      | OpenOk \<Rightarrow>
          (let flag' = (if se_fsetxattr e filename then flag else map_option (\<lambda>_. True) flag);
               file = \<lparr>pf_uid = se_uid e, pf_gid = se_gid e, pf_mode = 0x124, pf_size = 0, pf_area = zero_area\<rparr> in
           if \<not> se_ftruncate e filename then Ok (w(filename \<mapsto> file), None, flag')
           else if \<not> se_mmap e filename
           then Ok (w(filename \<mapsto> file\<lparr>pf_size := PA_SIZE\<rparr>), None, flag')
           else Ok (w(filename \<mapsto> file\<lparr>pf_size := PA_SIZE,
                        pf_area := new_prop_area PROP_AREA_MAGIC PROP_AREA_VERSION (PA_SIZE - sizeof_prop_area)\<rparr>),
                    Some filename, flag')))"

definition S_IWGRP :: u32 where "S_IWGRP = 0x10"
definition S_IWOTH :: u32 where "S_IWOTH = 0x2"

definition map_fd_ro :: "sysenv \<Rightarrow> string \<Rightarrow> pfile \<Rightarrow> string option" where
  "map_fd_ro e filename file =
     (if \<not> se_fstat e filename then None
      else if pf_uid file \<noteq> 0 \<or> pf_gid file \<noteq> 0 \<or> pf_mode file AND (S_IWGRP OR S_IWOTH) \<noteq> 0
              \<or> pf_size file < sizeof_prop_area then None
      else if \<not> se_mmap e filename then None
      else if pa_magic (pf_area file) \<noteq> PROP_AREA_MAGIC \<or> pa_version (pf_area file) \<noteq> PROP_AREA_VERSION
      then None
      else Some filename)"

definition map_prop_area :: "sysenv \<Rightarrow> world \<Rightarrow> string \<Rightarrow> string option" where
  "map_prop_area e w filename =
     (case w filename of
        None \<Rightarrow> None
      | Some file \<Rightarrow> if se_open_ro e filename then map_fd_ro e filename file else None)"

definition properties_filename :: "string \<Rightarrow> string \<Rightarrow> string res" where
  "properties_filename dir file =
     (if length dir + 1 + length file \<ge> 256 then Abort else Ok (dir @ ''/'' @ file))"

section \<open>Context nodes\<close>

record context_node =
  cn_context :: string
  cn_pa :: "string option"
  cn_no_access :: bool
  cn_filename :: string

definition new_context_node :: "string \<Rightarrow> string \<Rightarrow> context_node" where
  "new_context_node context filename =
     \<lparr>cn_context = context, cn_pa = None, cn_no_access = False, cn_filename = filename\<rparr>"

definition cn_open ::
  "sysenv \<Rightarrow> world \<Rightarrow> bool \<Rightarrow> bool option \<Rightarrow> context_node \<Rightarrow> (world \<times> context_node \<times> bool \<times> bool option) res" where
  "cn_open e w access_rw flag cn =
     (case cn_pa cn of
        Some _ \<Rightarrow> Ok (w, cn, True, flag)
      | None \<Rightarrow>
          res_bind (properties_filename (cn_filename cn) (cn_context cn))
            (\<lambda>filename.
               if access_rw then
                 res_bind (map_prop_area_rw e w filename flag)
                   (\<lambda>(w', pa, flag'). Ok (w', cn\<lparr>cn_pa := pa\<rparr>, pa \<noteq> None, flag'))
               else (let pa = map_prop_area e w filename in
                     Ok (w, cn\<lparr>cn_pa := pa\<rparr>, pa \<noteq> None, flag))))"

definition check_access :: "sysenv \<Rightarrow> context_node \<Rightarrow> bool res" where
  "check_access e cn =
     res_bind (properties_filename (cn_filename cn) (cn_context cn)) (\<lambda>filename. Ok (se_access e filename))"

definition check_access_and_open :: "sysenv \<Rightarrow> world \<Rightarrow> context_node \<Rightarrow> (context_node \<times> bool) res" where
  "check_access_and_open e w cn =
     (if cn_pa cn = None \<and> \<not> cn_no_access cn then
        res_bind (check_access e cn)
          (\<lambda>ok. if \<not> ok then Ok (cn\<lparr>cn_no_access := True\<rparr>, False)
                 else res_bind (cn_open e w False None cn)
                        (\<lambda>(w', cn', opened, flag).
                           Ok (if opened then cn' else cn'\<lparr>cn_no_access := True\<rparr>, opened)))
      else Ok (cn, cn_pa cn \<noteq> None))"

definition cn_unmap :: "context_node \<Rightarrow> context_node" where
  "cn_unmap cn = cn\<lparr>cn_pa := None\<rparr>"

definition cn_reset_access :: "sysenv \<Rightarrow> context_node \<Rightarrow> context_node res" where
  "cn_reset_access e cn =
     res_bind (check_access e cn)
       (\<lambda>ok. if \<not> ok then Ok ((cn_unmap cn)\<lparr>cn_no_access := True\<rparr>) else Ok (cn\<lparr>cn_no_access := False\<rparr>))"

text \<open>An operation on each node of a list, in order.\<close>

fun map_nodes :: "(context_node \<Rightarrow> context_node res) \<Rightarrow> context_node list \<Rightarrow> context_node list res" where
  "map_nodes f [] = Ok []"
| "map_nodes f (cn # cns) =
     res_bind (f cn) (\<lambda>cn'. res_bind (map_nodes f cns) (\<lambda>cns'. Ok (cn' # cns')))"

text \<open>\<open>Open(true, ...)\<close> on each node of a list, in order; all are tried, whether or not one failed.\<close>

fun open_all ::
  "sysenv \<Rightarrow> world \<Rightarrow> bool option \<Rightarrow> context_node list \<Rightarrow> (world \<times> context_node list \<times> bool \<times> bool option) res" where
  "open_all e w flag [] = Ok (w, [], False, flag)"
| "open_all e w flag (cn # cns) =
     res_bind (cn_open e w True flag cn)
       (\<lambda>(w', cn', opened, flag').
          res_bind (open_all e w' flag' cns)
            (\<lambda>(w'', cns', open_failed, flag''). Ok (w'', cn' # cns', open_failed \<or> \<not> opened, flag'')))"

text \<open>\<open>foreach\<close> on the area of each accessible node, in order.\<close>

fun foreach_nodes ::
  "sysenv \<Rightarrow> world \<Rightarrow> (string \<times> nat \<Rightarrow> 'c \<Rightarrow> 'c) \<Rightarrow> context_node list \<Rightarrow> 'c \<Rightarrow> (context_node list \<times> 'c) res" where
  "foreach_nodes e w propfn [] cookie = Ok ([], cookie)"
| "foreach_nodes e w propfn (cn # cns) cookie =
     res_bind (check_access_and_open e w cn)
       (\<lambda>(cn', ok).
          res_bind
            (case (ok, cn_pa cn') of
               (True, Some pa) \<Rightarrow>
                 (case w pa of
                    None \<Rightarrow> Undef
                  | Some file \<Rightarrow>
                      res_bind (of_option (pa_foreach (pf_area file) (\<lambda>off. propfn (pa, off)) cookie))
                        (\<lambda>(cookie', _). Ok cookie'))
             | _ \<Rightarrow> Ok cookie)
            (\<lambda>cookie'. res_bind (foreach_nodes e w propfn cns cookie')
                          (\<lambda>(cns', cookie''). Ok (cn' # cns', cookie''))))"

section \<open>Serialized contexts\<close>

record contexts_serialized =
  cs_dirname :: string
  cs_tree_filename :: string
  cs_serial_filename :: string
  cs_context_nodes :: "context_node list"
  cs_num_context_nodes :: nat
  cs_serial_prop_area :: "string option"

definition new_contexts_serialized :: contexts_serialized where
  "new_contexts_serialized =
     \<lparr>cs_dirname = [], cs_tree_filename = [], cs_serial_filename = [], cs_context_nodes = [],
      cs_num_context_nodes = 0, cs_serial_prop_area = None\<rparr>"

text \<open>\<open>FreeAndUnmap\<close> unmaps the array of nodes and leaves \<open>num_context_nodes_\<close> as it is.\<close>

definition cs_free_and_unmap :: "contexts_serialized \<Rightarrow> contexts_serialized" where
  "cs_free_and_unmap cs = cs\<lparr>cs_context_nodes := [], cs_serial_prop_area := None\<rparr>"

definition cs_initialize_context_nodes ::
  "sysenv \<Rightarrow> string list \<Rightarrow> contexts_serialized \<Rightarrow> contexts_serialized \<times> bool" where
  "cs_initialize_context_nodes e names cs =
     (if \<not> se_anon_mmap e then (cs, False)
      else (cs\<lparr>cs_context_nodes := map (\<lambda>c. new_context_node c (cs_dirname cs)) names,
               cs_num_context_nodes := length names\<rparr>, True))"

definition map_serial_property_area ::
  "sysenv \<Rightarrow> world \<Rightarrow> bool \<Rightarrow> string \<Rightarrow> bool option \<Rightarrow> (world \<times> string option \<times> bool option) res" where
  "map_serial_property_area e w access_rw filename flag =
     (if access_rw then map_prop_area_rw e w filename flag
      else Ok (w, map_prop_area e w filename, flag))"

text \<open>
  \<open>se_info_contexts\<close> gives the contexts named by the property-info file at a path, \<open>None\<close> when it cannot
  be loaded; \<open>LoadDefaultPath\<close> is the empty path.
\<close>

definition cs_initialize_properties ::
  "sysenv \<Rightarrow> bool \<Rightarrow> contexts_serialized \<Rightarrow> contexts_serialized \<times> bool" where
  "cs_initialize_properties e load_default_path cs =
     (case se_info_contexts e (if load_default_path then [] else cs_tree_filename cs) of
        None \<Rightarrow> (cs, False)
      | Some names \<Rightarrow>
          (case cs_initialize_context_nodes e names cs of
             (cs', True) \<Rightarrow> (cs', True)
           | (cs', False) \<Rightarrow> (cs_free_and_unmap cs', False)))"

definition cs_initialize ::
  "sysenv \<Rightarrow> world \<Rightarrow> bool \<Rightarrow> string \<Rightarrow> bool option \<Rightarrow> bool \<Rightarrow> contexts_serialized
   \<Rightarrow> (world \<times> contexts_serialized \<times> bool \<times> bool option) res" where
  "cs_initialize e w writable dirname flag load_default_path cs0 =
     res_bind (properties_filename dirname ''property_info'')
       (\<lambda>tree. res_bind (properties_filename dirname ''properties_serial'')
         (\<lambda>serial.
            let cs1 = cs0\<lparr>cs_dirname := dirname, cs_tree_filename := tree, cs_serial_filename := serial\<rparr> in
            case cs_initialize_properties e load_default_path cs1 of
              (cs2, False) \<Rightarrow> Ok (w, cs2, False, flag)
            | (cs2, True) \<Rightarrow>
                if writable then
                  res_bind (open_all e w (map_option (\<lambda>_. False) flag) (cs_context_nodes cs2))
                    (\<lambda>(w1, nodes, open_failed, flag1).
                       let cs3 = cs2\<lparr>cs_context_nodes := nodes\<rparr> in
                       if open_failed then Ok (w1, cs_free_and_unmap cs3, False, flag1)
                       else res_bind (map_serial_property_area e w1 True serial flag1)
                              (\<lambda>(w2, pa, flag2).
                                 if pa = None then Ok (w2, cs_free_and_unmap cs3, False, flag2)
                                 else Ok (w2, cs3\<lparr>cs_serial_prop_area := pa\<rparr>, True, flag2)))
                else
                  res_bind (map_serial_property_area e w False serial None)
                    (\<lambda>(w1, pa, _).
                       if pa = None then Ok (w1, cs_free_and_unmap cs2, False, flag)
                       else Ok (w1, cs2\<lparr>cs_serial_prop_area := pa\<rparr>, True, flag))))"

text \<open>
  The index of a name comes from the property-info file; an index that names no node (\<open>~0u\<close> among
  them) means that the name has no context.
\<close>

definition cs_get_prop_area_for_name ::
  "sysenv \<Rightarrow> world \<Rightarrow> string \<Rightarrow> contexts_serialized \<Rightarrow> (contexts_serialized \<times> string option) res" where
  "cs_get_prop_area_for_name e w nm cs =
     (let index = se_info_index e nm in
      if index = 2 ^ 32 - 1 \<or> index \<ge> cs_num_context_nodes cs then Ok (cs, None)
      else if index \<ge> length (cs_context_nodes cs) then Undef
      else (let cn = cs_context_nodes cs ! index in
            if cn_pa cn \<noteq> None then Ok (cs, cn_pa cn)
            else res_bind (cn_open e w False None cn)
                   (\<lambda>(_, cn', _, _).
                      Ok (cs\<lparr>cs_context_nodes := (cs_context_nodes cs)[index := cn']\<rparr>, cn_pa cn'))))"

section \<open>Split contexts\<close>

record prefix_node =
  pn_prefix :: string
  pn_context :: string

record contexts_split =
  sp_prefixes :: "prefix_node list"
  sp_contexts :: "context_node list"
  sp_serial_prop_area :: "string option"
  sp_filename :: string

definition new_contexts_split :: contexts_split where
  "new_contexts_split = \<lparr>sp_prefixes = [], sp_contexts = [], sp_serial_prop_area = None, sp_filename = []\<rparr>"

definition is_wildcard :: "prefix_node \<Rightarrow> bool" where
  "is_wildcard pn = (c_head (pn_prefix pn) = of_char (CHR ''*''))"

text \<open>
  A \<open>ContextListNode*\<close> is the context of the node: a node is added only when the list has none with
  its context, so contexts identify nodes.
\<close>

fun list_add_after_len :: "prefix_node list \<Rightarrow> prefix_node \<Rightarrow> prefix_node list" where
  "list_add_after_len [] pn = [pn]"
| "list_add_after_len (p # ps) pn =
     (if length (pn_prefix p) < length (pn_prefix pn) \<or> is_wildcard p then pn # p # ps
      else p # list_add_after_len ps pn)"

text \<open>Parsing a line of a property_contexts file.\<close>

definition read_spec_entry :: "string \<Rightarrow> string \<times> string" where
  "read_spec_entry ptr =
     (let s = dropWhile isspace_char ptr; entry = takeWhile (\<lambda>c. \<not> isspace_char c) s in
      (entry, drop (length entry) s))"

function read_entries :: "nat \<Rightarrow> string list \<Rightarrow> string \<Rightarrow> string list" where
  "read_entries num_args items buf =
     (if length items < num_args \<and> buf \<noteq> [] then
        (case read_spec_entry buf of
           (entry, rest) \<Rightarrow> read_entries num_args (if entry = [] then items else items @ [entry]) rest)
      else items)"
  by pat_completeness auto

lemma read_spec_entry_less:
  "buf \<noteq> [] \<Longrightarrow> read_spec_entry buf = (entry, rest) \<Longrightarrow> length rest < length buf"
proof -
  assume b: "buf \<noteq> []" and r: "read_spec_entry buf = (entry, rest)"
  let ?s = "dropWhile isspace_char buf"
  have le: "length ?s \<le> length buf"
    by (rule length_dropWhile_le)
  have rest: "rest = drop (length (takeWhile (\<lambda>c. \<not> isspace_char c) ?s)) ?s"
    using r by (auto simp: read_spec_entry_def Let_def)
  show ?thesis
  proof (cases "?s")
    case Nil
    then have "rest = []"
      unfolding rest by (simp only:) simp
    then show ?thesis
      using b by simp
  next
    case (Cons c s)
    then have "\<not> isspace_char c"
      by (metis dropWhile_eq_Cons_conv)
    then have "length rest < length ?s"
      unfolding rest Cons by simp
    then show ?thesis
      using le by simp
  qed
qed

termination read_entries
  by (relation "measure (\<lambda>(n, items, buf). length buf)") (auto intro: read_spec_entry_less [OF _ sym])

declare read_entries.simps [simp del]

text \<open>The entries of a line; \<open>None\<close> for an empty line, where \<open>line_buf[len - 1]\<close> is out of bounds.\<close>

definition read_spec_entries :: "string \<Rightarrow> nat \<Rightarrow> string list option" where
  "read_spec_entries line num_args =
     (if line = [] then None
      else (let buf = (if last line = CHR 0x0a then butlast line else line);
                buf_p = dropWhile isspace_char buf in
            if buf_p = [] \<or> hd buf_p = CHR ''#'' then Some [] else Some (read_entries num_args [] buf_p)))"

definition list_find :: "('a \<Rightarrow> bool) \<Rightarrow> 'a list \<Rightarrow> 'a option" where
  "list_find f l = List.find f l"

definition add_property_line :: "contexts_split \<Rightarrow> string \<Rightarrow> contexts_split res" where
  "add_property_line sp line =
     (case read_spec_entries line 2 of
        None \<Rightarrow> Undef
      | Some [prop_prefix, context] \<Rightarrow>
          if strncmp prop_prefix ''ctl.'' 4 = 0 then Ok sp
          else Ok (sp\<lparr>sp_prefixes := list_add_after_len (sp_prefixes sp)
                         \<lparr>pn_prefix = prop_prefix, pn_context = context\<rparr>,
                       sp_contexts :=
                         (case list_find (\<lambda>l. strcmp (cn_context l) context = 0) (sp_contexts sp) of
                            Some _ \<Rightarrow> sp_contexts sp
                          | None \<Rightarrow> new_context_node context (sp_filename sp) # sp_contexts sp)\<rparr>)
      | Some _ \<Rightarrow> Ok sp)"

fun add_property_lines :: "contexts_split \<Rightarrow> string list \<Rightarrow> contexts_split res" where
  "add_property_lines sp [] = Ok sp"
| "add_property_lines sp (l # ls) = res_bind (add_property_line sp l) (\<lambda>sp'. add_property_lines sp' ls)"

definition initialize_properties_from_file ::
  "sysenv \<Rightarrow> string \<Rightarrow> contexts_split \<Rightarrow> (contexts_split \<times> bool) res" where
  "initialize_properties_from_file e filename sp =
     (case se_lines e filename of
        None \<Rightarrow> Ok (sp, False)
      | Some lines \<Rightarrow> res_bind (add_property_lines sp lines) (\<lambda>sp'. Ok (sp', True)))"

definition sp_initialize_properties :: "sysenv \<Rightarrow> contexts_split \<Rightarrow> (contexts_split \<times> bool) res" where
  "sp_initialize_properties e sp0 =
     res_bind (initialize_properties_from_file e ''/property_contexts'' sp0)
       (\<lambda>(sp1, ok1).
          if ok1 then Ok (sp1, True)
          else
            let (plat, vendor) =
                  (if se_access e ''/system/etc/selinux/plat_property_contexts''
                   then (''/system/etc/selinux/plat_property_contexts'',
                         ''/vendor/etc/selinux/vendor_property_contexts'')
                   else (''/plat_property_contexts'', ''/vendor_property_contexts'')) in
            res_bind (initialize_properties_from_file e plat sp1)
              (\<lambda>(sp2, ok2).
                 if \<not> ok2 then Ok (sp2, False)
                 else if se_access e vendor
                 then res_bind (initialize_properties_from_file e vendor sp2) (\<lambda>(sp3, _). Ok (sp3, True))
                 else Ok (sp2, True)))"

definition sp_free_and_unmap :: "contexts_split \<Rightarrow> contexts_split" where
  "sp_free_and_unmap sp = sp\<lparr>sp_prefixes := [], sp_contexts := [], sp_serial_prop_area := None\<rparr>"

definition sp_initialize ::
  "sysenv \<Rightarrow> world \<Rightarrow> bool \<Rightarrow> string \<Rightarrow> bool option \<Rightarrow> contexts_split
   \<Rightarrow> (world \<times> contexts_split \<times> bool \<times> bool option) res" where
  "sp_initialize e w writable filename flag sp0 =
     res_bind (sp_initialize_properties e (sp0\<lparr>sp_filename := filename\<rparr>))
       (\<lambda>(sp1, ok).
          if \<not> ok then Ok (w, sp1, False, flag)
          else if writable then
            res_bind (open_all e w (map_option (\<lambda>_. False) flag) (sp_contexts sp1))
              (\<lambda>(w1, nodes, open_failed, flag1).
                 let sp2 = sp1\<lparr>sp_contexts := nodes\<rparr> in
                 if open_failed then Ok (w1, sp_free_and_unmap sp2, False, flag1)
                 else res_bind (properties_filename filename ''properties_serial'')
                        (\<lambda>serial. res_bind (map_serial_property_area e w1 True serial flag1)
                           (\<lambda>(w2, pa, flag2).
                              if pa = None then Ok (w2, sp_free_and_unmap sp2, False, flag2)
                              else Ok (w2, sp2\<lparr>sp_serial_prop_area := pa\<rparr>, True, flag2))))
          else
            res_bind (properties_filename filename ''properties_serial'')
              (\<lambda>serial. res_bind (map_serial_property_area e w False serial None)
                 (\<lambda>(w1, pa, _).
                    if pa = None then Ok (w1, sp_free_and_unmap sp1, False, flag)
                    else Ok (w1, sp1\<lparr>sp_serial_prop_area := pa\<rparr>, True, flag))))"

definition prefix_matches :: "string \<Rightarrow> prefix_node \<Rightarrow> bool" where
  "prefix_matches nm l = (is_wildcard l \<or> strncmp (pn_prefix l) nm (length (pn_prefix l)) = 0)"

definition get_prefix_node_for_name :: "contexts_split \<Rightarrow> string \<Rightarrow> prefix_node option" where
  "get_prefix_node_for_name sp nm = list_find (prefix_matches nm) (sp_prefixes sp)"

fun set_node :: "context_node list \<Rightarrow> string \<Rightarrow> context_node \<Rightarrow> context_node list" where
  "set_node [] context cn' = []"
| "set_node (cn # cns) context cn' =
     (if cn_context cn = context then cn' # cns else cn # set_node cns context cn')"

definition sp_get_prop_area_for_name ::
  "sysenv \<Rightarrow> world \<Rightarrow> string \<Rightarrow> contexts_split \<Rightarrow> (contexts_split \<times> string option) res" where
  "sp_get_prop_area_for_name e w nm sp =
     (case get_prefix_node_for_name sp nm of
        None \<Rightarrow> Ok (sp, None)
      | Some entry \<Rightarrow>
          (case list_find (\<lambda>cn. cn_context cn = pn_context entry) (sp_contexts sp) of
             None \<Rightarrow> Undef
           | Some cnode \<Rightarrow>
               if cn_pa cnode \<noteq> None then Ok (sp, cn_pa cnode)
               else res_bind (cn_open e w False None cnode)
                      (\<lambda>(_, cnode', _, _).
                         Ok (sp\<lparr>sp_contexts := set_node (sp_contexts sp) (pn_context entry) cnode'\<rparr>,
                             cn_pa cnode'))))"

section \<open>The interface\<close>

datatype contexts = Serialized contexts_serialized | Split contexts_split | PreSplit "string option"

fun GetSerialPropArea :: "contexts \<Rightarrow> string option" where
  "GetSerialPropArea (Serialized cs) = cs_serial_prop_area cs"
| "GetSerialPropArea (Split sp) = sp_serial_prop_area sp"
| "GetSerialPropArea (PreSplit pa) = pa"

fun GetPropAreaForName :: "sysenv \<Rightarrow> world \<Rightarrow> string \<Rightarrow> contexts \<Rightarrow> (contexts \<times> string option) res" where
  "GetPropAreaForName e w nm (Serialized cs) =
     res_bind (cs_get_prop_area_for_name e w nm cs) (\<lambda>(cs', pa). Ok (Serialized cs', pa))"
| "GetPropAreaForName e w nm (Split sp) =
     res_bind (sp_get_prop_area_for_name e w nm sp) (\<lambda>(sp', pa). Ok (Split sp', pa))"
| "GetPropAreaForName e w nm (PreSplit pa) = Ok (PreSplit pa, pa)"

fun ContextsForEach ::
  "sysenv \<Rightarrow> world \<Rightarrow> (string \<times> nat \<Rightarrow> 'c \<Rightarrow> 'c) \<Rightarrow> contexts \<Rightarrow> 'c \<Rightarrow> (contexts \<times> 'c) res" where
  "ContextsForEach e w propfn (Serialized cs) cookie =
     (if cs_num_context_nodes cs \<noteq> length (cs_context_nodes cs) then Undef else
     res_bind (foreach_nodes e w propfn (cs_context_nodes cs) cookie)
       (\<lambda>(nodes, cookie'). Ok (Serialized (cs\<lparr>cs_context_nodes := nodes\<rparr>), cookie')))"
| "ContextsForEach e w propfn (Split sp) cookie =
     res_bind (foreach_nodes e w propfn (sp_contexts sp) cookie)
       (\<lambda>(nodes, cookie'). Ok (Split (sp\<lparr>sp_contexts := nodes\<rparr>), cookie'))"
| "ContextsForEach e w propfn (PreSplit None) cookie = Undef"
| "ContextsForEach e w propfn (PreSplit (Some pa)) cookie =
     (case w pa of
        None \<Rightarrow> Undef
      | Some file \<Rightarrow>
          res_bind (of_option (pa_foreach (pf_area file) (\<lambda>off. propfn (pa, off)) cookie))
            (\<lambda>(cookie', _). Ok (PreSplit (Some pa), cookie')))"

fun ResetAccess :: "sysenv \<Rightarrow> contexts \<Rightarrow> contexts res" where
  "ResetAccess e (Serialized cs) =
     (if cs_num_context_nodes cs \<noteq> length (cs_context_nodes cs) then Undef
      else res_bind (map_nodes (cn_reset_access e) (cs_context_nodes cs))
             (\<lambda>nodes. Ok (Serialized (cs\<lparr>cs_context_nodes := nodes\<rparr>))))"
| "ResetAccess e (Split sp) =
     res_bind (map_nodes (cn_reset_access e) (sp_contexts sp))
       (\<lambda>nodes. Ok (Split (sp\<lparr>sp_contexts := nodes\<rparr>)))"
| "ResetAccess e (PreSplit pa) = Ok (PreSplit pa)"

fun FreeAndUnmap :: "contexts \<Rightarrow> contexts" where
  "FreeAndUnmap (Serialized cs) = Serialized (cs_free_and_unmap cs)"
| "FreeAndUnmap (Split sp) = Split (sp_free_and_unmap sp)"
| "FreeAndUnmap (PreSplit pa) = PreSplit None"

end
