(* ===== verification/System_Properties.thy ===== *)
theory System_Properties
  imports Property_Contexts
begin

text \<open>
  The property service of libc/system_properties/system_properties.cpp, operation by operation.

  A \<open>prop_info*\<close> is the path of its area and its offset there. This theory is the sequential
  behaviour: no other process writes while an operation runs, so the retry loop of
  \<open>ReadMutablePropertyValue\<close> ends in its first round; the interleaving of a writer with readers, for which
  the serial and the backup area exist, is not modelled. Logging and \<open>__futex_wake\<close> have no effect on the state. Writing
  through a read-only mapping is not modelled: init, the only writer, maps the areas writable.

  An \<open>int\<close> result is an \<open>int\<close>; a null output pointer is \<open>None\<close>.
\<close>

type_synonym pi_ptr = "string \<times> nat"

record sys_props =
  sys_contexts :: "contexts option"
  sys_override_contexts :: "contexts option"
  sys_initialized :: bool
  sys_use_appcompat_override :: bool
  sys_properties_filename :: string
  sys_appcompat_filename :: string

definition SERIAL_DIRTY :: "u32 \<Rightarrow> u32" where "SERIAL_DIRTY serial = serial AND 1"
definition SERIAL_VALUE_LEN :: "u32 \<Rightarrow> nat" where "SERIAL_VALUE_LEN serial = unat (drop_bit 24 serial)"
definition APPCOMPAT_PREFIX :: string where "APPCOMPAT_PREFIX = ''ro.appcompat_override.''"

definition is_appcompat_override :: "string \<Rightarrow> bool" where
  "is_appcompat_override nm = (strncmp nm APPCOMPAT_PREFIX (length APPCOMPAT_PREFIX) = 0)"

definition is_read_only :: "string \<Rightarrow> bool" where
  "is_read_only nm = (strncmp nm ''ro.'' 3 = 0)"

section \<open>Access to the areas\<close>

definition area_at :: "world \<Rightarrow> string \<Rightarrow> prop_area res" where
  "area_at w pa = (case w pa of None \<Rightarrow> Undef | Some file \<Rightarrow> Ok (pf_area file))"

definition set_area :: "world \<Rightarrow> string \<Rightarrow> prop_area \<Rightarrow> world" where
  "set_area w pa a = (case w pa of None \<Rightarrow> w | Some file \<Rightarrow> w(pa \<mapsto> file\<lparr>pf_area := a\<rparr>))"

definition mod_area :: "world \<Rightarrow> string \<Rightarrow> (prop_area \<Rightarrow> prop_area) \<Rightarrow> world res" where
  "mod_area w pa f = res_bind (area_at w pa) (\<lambda>a. Ok (set_area w pa (f a)))"

definition deref :: "world \<Rightarrow> pi_ptr \<Rightarrow> prop_info res" where
  "deref w pi = res_bind (area_at w (fst pi)) (\<lambda>a. of_option (info_at a (snd pi)))"

definition mod_info :: "world \<Rightarrow> pi_ptr \<Rightarrow> (prop_info \<Rightarrow> prop_info) \<Rightarrow> world res" where
  "mod_info w pi f =
     res_bind (deref w pi) (\<lambda>i. mod_area w (fst pi) (\<lambda>a. store_obj a (snd pi) (Info (f i))))"

definition area_find :: "world \<Rightarrow> string \<Rightarrow> string \<Rightarrow> pi_ptr option res" where
  "area_find w pa nm =
     res_bind (area_at w pa)
       (\<lambda>a. res_bind (of_option (pa_find a nm)) (\<lambda>r. Ok (map_option (\<lambda>off. (pa, off)) r)))"

text \<open>\<open>memcpy\<close> of \<open>n\<close> bytes between buffers, both of which must have them.\<close>

definition copy_bytes :: "char list \<Rightarrow> char list \<Rightarrow> nat \<Rightarrow> char list res" where
  "copy_bytes dst src n = (if n \<le> length src \<and> n \<le> length dst then Ok (memcpy dst src n) else Undef)"

definition bump_serial :: "world \<Rightarrow> string \<Rightarrow> world res" where
  "bump_serial w pa = mod_area w pa (\<lambda>a. a\<lparr>pa_serial := pa_serial a + 1\<rparr>)"

definition the_contexts :: "contexts option \<Rightarrow> contexts res" where
  "the_contexts c = of_option c"

text \<open>\<open>contexts_->GetPropAreaForName(name)\<close>, which may open the file of the context.\<close>

definition area_for_name :: "sysenv \<Rightarrow> world \<Rightarrow> sys_props \<Rightarrow> string \<Rightarrow> (sys_props \<times> string option) res" where
  "area_for_name e w sp nm =
     res_bind (the_contexts (sys_contexts sp))
       (\<lambda>c. res_bind (GetPropAreaForName e w nm c)
          (\<lambda>(c', pa). Ok (sp\<lparr>sys_contexts := Some c'\<rparr>, pa)))"

definition override_area_for_name ::
  "sysenv \<Rightarrow> world \<Rightarrow> sys_props \<Rightarrow> string \<Rightarrow> (sys_props \<times> string option) res" where
  "override_area_for_name e w sp nm =
     res_bind (the_contexts (sys_override_contexts sp))
       (\<lambda>c. res_bind (GetPropAreaForName e w nm c)
          (\<lambda>(c', pa). Ok (sp\<lparr>sys_override_contexts := Some c'\<rparr>, pa)))"

section \<open>Initialisation\<close>

definition InitContexts :: "sysenv \<Rightarrow> world \<Rightarrow> sys_props \<Rightarrow> bool \<Rightarrow> (world \<times> sys_props \<times> bool) res" where
  "InitContexts e w sp load_default_path =
     (let filename = sys_properties_filename sp in
      if se_is_dir e filename then
        (if se_access e (se_prop_tree_file e) then
           res_bind (cs_initialize e w False filename None load_default_path new_contexts_serialized)
             (\<lambda>(w', cs, ok, _). Ok (w', sp\<lparr>sys_contexts := Some (Serialized cs)\<rparr>, ok))
         else
           res_bind (sp_initialize e w False filename None new_contexts_split)
             (\<lambda>(w', c, ok, _). Ok (w', sp\<lparr>sys_contexts := Some (Split c)\<rparr>, ok)))
      else
        (let pa = map_prop_area e w filename in
         Ok (w, sp\<lparr>sys_contexts := Some (PreSplit pa)\<rparr>, pa \<noteq> None)))"

text \<open>\<open>properties_filename_ = filename\<close> aborts when the name does not fit its buffer.\<close>

definition assign_filename :: "string \<Rightarrow> string res" where
  "assign_filename v = (if length v \<ge> 256 then Abort else Ok v)"

definition Init :: "sysenv \<Rightarrow> world \<Rightarrow> sys_props \<Rightarrow> string \<Rightarrow> (world \<times> sys_props \<times> bool) res" where
  "Init e w sp filename =
     (if sys_initialized sp then
        res_bind (the_contexts (sys_contexts sp))
          (\<lambda>c. res_bind (ResetAccess e c) (\<lambda>c'. Ok (w, sp\<lparr>sys_contexts := Some c'\<rparr>, True)))
      else
        res_bind (assign_filename filename)
          (\<lambda>fn. res_bind (InitContexts e w (sp\<lparr>sys_properties_filename := fn\<rparr>) False)
             (\<lambda>(w', sp', ok).
                if \<not> ok then Ok (w', sp', False)
                else Ok (w', sp'\<lparr>sys_use_appcompat_override :=
                                   (se_override_env e \<or> sys_use_appcompat_override sp'),
                                 sys_initialized := True\<rparr>, True))))"

definition AreaInit ::
  "sysenv \<Rightarrow> world \<Rightarrow> sys_props \<Rightarrow> string \<Rightarrow> bool option \<Rightarrow> bool \<Rightarrow> (world \<times> sys_props \<times> bool \<times> bool option) res" where
  "AreaInit e w sp0 filename flag load_default_path =
     res_bind (assign_filename filename)
       (\<lambda>fn. res_bind (cs_initialize e w True fn flag load_default_path new_contexts_serialized)
          (\<lambda>(w1, cs, ok, flag1).
             let sp1 = sp0\<lparr>sys_properties_filename := fn, sys_contexts := Some (Serialized cs)\<rparr> in
             if \<not> ok then Ok (w1, sp1, False, flag1)
             else
               res_bind (properties_filename fn ''appcompat_override'')
                 (\<lambda>ofn.
                    let sp2 = sp1\<lparr>sys_appcompat_filename := ofn, sys_override_contexts := None\<rparr> in
                    if se_access e ofn then
                      res_bind (cs_initialize e w1 True ofn flag1 load_default_path new_contexts_serialized)
                        (\<lambda>(w2, ocs, ok2, flag2).
                           if \<not> ok2 then Ok (w2, sp2, False, flag2)
                           else Ok (w2, sp2\<lparr>sys_override_contexts := Some (Serialized ocs),
                                            sys_initialized := True\<rparr>, True, flag2))
                    else Ok (w1, sp2\<lparr>sys_initialized := True\<rparr>, True, flag1))))"

definition EnableOverrides :: "sys_props \<Rightarrow> (sys_props \<times> bool) res" where
  "EnableOverrides sp =
     (if \<not> sys_initialized sp then Abort else Ok (sp\<lparr>sys_use_appcompat_override := True\<rparr>, True))"

section \<open>Reading\<close>

definition AreaSerial :: "world \<Rightarrow> sys_props \<Rightarrow> u32 res" where
  "AreaSerial w sp =
     (if \<not> sys_initialized sp then Ok (- 1)
      else res_bind (the_contexts (sys_contexts sp))
             (\<lambda>c. case GetSerialPropArea c of
                    None \<Rightarrow> Ok (- 1)
                  | Some pa \<Rightarrow> res_bind (area_at w pa) (\<lambda>a. Ok (pa_serial a))))"

definition Find :: "sysenv \<Rightarrow> world \<Rightarrow> sys_props \<Rightarrow> string \<Rightarrow> (sys_props \<times> pi_ptr option) res" where
  "Find e w sp0 nm =
     (if \<not> sys_initialized sp0 then Ok (sp0, None)
      else
        res_bind
          (if sys_use_appcompat_override sp0 then
             res_bind (area_for_name e w sp0 (APPCOMPAT_PREFIX @ nm))
               (\<lambda>(sp1, pa). case pa of
                   None \<Rightarrow> Ok (sp1, None)
                 | Some p \<Rightarrow> res_bind (area_find w p (APPCOMPAT_PREFIX @ nm)) (\<lambda>pi. Ok (sp1, pi)))
           else Ok (sp0, None))
          (\<lambda>(sp1, found). case found of
              Some pi \<Rightarrow> Ok (sp1, Some pi)
            | None \<Rightarrow>
                res_bind (area_for_name e w sp1 nm)
                  (\<lambda>(sp2, pa). case pa of
                      None \<Rightarrow> Ok (sp2, None)
                    | Some p \<Rightarrow> res_bind (area_find w p nm) (\<lambda>pi. Ok (sp2, pi)))))"

definition ReadMutablePropertyValue ::
  "sysenv \<Rightarrow> world \<Rightarrow> sys_props \<Rightarrow> pi_ptr \<Rightarrow> char list \<Rightarrow> (sys_props \<times> u32 \<times> char list) res" where
  "ReadMutablePropertyValue e w sp pi v =
     res_bind (deref w pi)
       (\<lambda>i. let serial = pi_serial i; len = SERIAL_VALUE_LEN serial in
            if SERIAL_DIRTY serial \<noteq> 0 then
              res_bind (area_for_name e w sp (pi_name i))
                (\<lambda>(sp', pa). case pa of
                    None \<Rightarrow> Undef
                  | Some p \<Rightarrow>
                      res_bind (area_at w p)
                        (\<lambda>a. res_bind (copy_bytes v (dirty_backup_area a) (len + 1))
                           (\<lambda>v'. Ok (sp', serial, v'))))
            else
              res_bind (copy_bytes v (value_bytes (pi_value i)) (len + 1)) (\<lambda>v'. Ok (sp, serial, v')))"

definition strlcpy :: "char list \<Rightarrow> string \<Rightarrow> nat \<Rightarrow> char list" where
  "strlcpy dst src n =
     (if n = 0 then dst else memcpy dst (take (n - 1) src @ [CHR 0x00]) (min (n - 1) (length src) + 1))"

definition long_value :: "world \<Rightarrow> pi_ptr \<Rightarrow> prop_info \<Rightarrow> string res" where
  "long_value w pi i =
     (case pi_value i of
        Value _ \<Rightarrow> Undef
      | LongProperty _ off \<Rightarrow>
          res_bind (area_at w (fst pi))
            (\<lambda>a. case pa_data a (snd pi + off) of Some (LongValue s) \<Rightarrow> Ok s | _ \<Rightarrow> Undef))"

definition Read ::
  "sysenv \<Rightarrow> world \<Rightarrow> sys_props \<Rightarrow> pi_ptr \<Rightarrow> char list option \<Rightarrow> char list
   \<Rightarrow> (sys_props \<times> char list option \<times> char list \<times> int) res" where
  "Read e w sp pi nm v =
     res_bind (ReadMutablePropertyValue e w sp pi v)
       (\<lambda>(sp', serial, v'). res_bind (deref w pi)
          (\<lambda>i. let nm' = map_option (\<lambda>b. strlcpy b (pi_name i) PROP_NAME_MAX) nm;
                   r = Ok (sp', nm', v', int (SERIAL_VALUE_LEN serial)) in
               if is_read_only (pi_name i) \<and> is_long i
               then res_bind (long_value w pi i) (\<lambda>_. r)
               else r))"

text \<open>The arguments the callback is called with: name, value and serial.\<close>

definition ReadCallback ::
  "sysenv \<Rightarrow> world \<Rightarrow> sys_props \<Rightarrow> pi_ptr \<Rightarrow> (sys_props \<times> string \<times> string \<times> u32) res" where
  "ReadCallback e w sp pi =
     res_bind (deref w pi)
       (\<lambda>i. if is_read_only (pi_name i) then
              (if is_long i then res_bind (long_value w pi i) (\<lambda>s. Ok (sp, pi_name i, s, pi_serial i))
               else Ok (sp, pi_name i, c_str (value_bytes (pi_value i)), pi_serial i))
            else
              res_bind (ReadMutablePropertyValue e w sp pi (zero_bytes PROP_VALUE_MAX))
                (\<lambda>(sp', serial, buf). Ok (sp', pi_name i, c_str buf, serial)))"

definition Get :: "sysenv \<Rightarrow> world \<Rightarrow> sys_props \<Rightarrow> string \<Rightarrow> char list \<Rightarrow> (sys_props \<times> char list \<times> int) res" where
  "Get e w sp nm v =
     res_bind (Find e w sp nm)
       (\<lambda>(sp', pi). case pi of
           Some p \<Rightarrow> res_bind (Read e w sp' p None v) (\<lambda>(sp'', _, v', len). Ok (sp'', v', len))
         | None \<Rightarrow> Ok (sp', v[0 := CHR 0x00], 0))"

section \<open>Writing\<close>

definition store_value :: "char list \<Rightarrow> nat \<Rightarrow> prop_info \<Rightarrow> prop_info" where
  "store_value v len i = i\<lparr>pi_value := Value (memcpy (value_bytes (pi_value i)) (v @ [CHR 0x00]) (len + 1))\<rparr>"

definition next_serial :: "string \<Rightarrow> nat \<Rightarrow> u32 \<Rightarrow> u32" where
  "next_serial nm len serial =
     push_bit 24 (of_nat len) OR ((if is_read_only nm then 0 else serial + 1) AND 0xffffff)"

text \<open>
  The writes of \<open>Update\<close> to one property and its area, in order: the backup of the old value, the dirty
  serial, the new value, the new serial. \<open>v\<close> is a C string of at least \<open>len\<close> characters.
\<close>

definition backup_value :: "world \<Rightarrow> string \<Rightarrow> pi_ptr \<Rightarrow> nat \<Rightarrow> world res" where
  "backup_value w pa pi n =
     res_bind (deref w pi)
       (\<lambda>i. res_bind (area_at w pa)
          (\<lambda>a. res_bind (copy_bytes (dirty_backup_area a) (value_bytes (pi_value i)) n)
             (\<lambda>b. mod_area w pa (\<lambda>a. a\<lparr>dirty_backup_area := b\<rparr>))))"

definition write_value :: "world \<Rightarrow> pi_ptr \<Rightarrow> string \<Rightarrow> nat \<Rightarrow> world res" where
  "write_value w pi v len =
     (if len + 1 \<le> length v + 1 \<and> len + 1 \<le> PROP_VALUE_MAX then mod_info w pi (store_value v len) else Undef)"

definition set_serial :: "world \<Rightarrow> pi_ptr \<Rightarrow> u32 \<Rightarrow> world res" where
  "set_serial w pi s = mod_info w pi (\<lambda>i. i\<lparr>pi_serial := s\<rparr>)"

text \<open>\<open>when\<close> a step happens only for the override area.\<close>

definition when_some :: "'a option \<Rightarrow> ('a \<Rightarrow> world \<Rightarrow> world res) \<Rightarrow> world \<Rightarrow> world res" where
  "when_some x f w = (case x of None \<Rightarrow> Ok w | Some y \<Rightarrow> f y w)"

definition Update_writes ::
  "world \<Rightarrow> string \<Rightarrow> string \<Rightarrow> pi_ptr \<Rightarrow> (string \<times> string \<times> pi_ptr) option \<Rightarrow> string \<Rightarrow> nat \<Rightarrow> world res" where
  "Update_writes w0 serial_pa pa pi ov v len =
     res_bind (deref w0 pi)
       (\<lambda>i. let old_len = SERIAL_VALUE_LEN (pi_serial i);
                serial = pi_serial i OR 1;
                new_serial = next_serial (pi_name i) len serial in
            res_bind (backup_value w0 pa pi (old_len + 1))
       (\<lambda>w1. res_bind (when_some ov (\<lambda>(_, opa, opi) w. backup_value w opa opi (old_len + 1)) w1)
       (\<lambda>w2. res_bind (set_serial w2 pi serial)
       (\<lambda>w3. res_bind (write_value w3 pi v len)
       (\<lambda>w4. res_bind (when_some ov (\<lambda>(_, _, opi) w. res_bind (set_serial w opi serial)
                                       (\<lambda>w'. write_value w' opi v len)) w4)
       (\<lambda>w5. res_bind (set_serial w5 pi new_serial)
       (\<lambda>w6. res_bind (when_some ov (\<lambda>(_, _, opi) w. set_serial w opi new_serial) w6)
       (\<lambda>w7. res_bind (bump_serial w7 serial_pa)
       (\<lambda>w8. when_some ov
               (\<lambda>(oserial_pa, _, _) w.
                  res_bind (area_at w serial_pa)
                    (\<lambda>a. mod_area w oserial_pa (\<lambda>b. b\<lparr>pa_serial := pa_serial a + 1\<rparr>))) w8)))))))))"

definition Update ::
  "sysenv \<Rightarrow> world \<Rightarrow> sys_props \<Rightarrow> pi_ptr \<Rightarrow> string \<Rightarrow> nat \<Rightarrow> (world \<times> sys_props \<times> int) res" where
  "Update e w sp0 pi v len =
     (if len \<ge> PROP_VALUE_MAX then Ok (w, sp0, -1)
      else if \<not> sys_initialized sp0 then Ok (w, sp0, -1)
      else
        res_bind (the_contexts (sys_contexts sp0))
          (\<lambda>c. case GetSerialPropArea c of
              None \<Rightarrow> Ok (w, sp0, -1)
            | Some serial_pa \<Rightarrow>
                res_bind (deref w pi)
                  (\<lambda>i. res_bind (area_for_name e w sp0 (pi_name i))
                     (\<lambda>(sp1, pa).
                        case sys_override_contexts sp0 of
                          None \<Rightarrow>
                            (case pa of
                               None \<Rightarrow> Ok (w, sp1, -1)
                             | Some p \<Rightarrow>
                                 res_bind (Update_writes w serial_pa p pi None v len)
                                   (\<lambda>w'. Ok (w', sp1, 0)))
                        | Some oc \<Rightarrow>
                            res_bind (override_area_for_name e w sp1 (pi_name i))
                              (\<lambda>(sp2, opa).
                                 case pa of
                                   None \<Rightarrow> Ok (w, sp2, -1)
                                 | Some p \<Rightarrow>
                                     (case (opa, GetSerialPropArea oc) of
                                        (Some op, Some oserial) \<Rightarrow>
                                          res_bind (area_find w op (pi_name i))
                                            (\<lambda>opi. case opi of
                                                None \<Rightarrow> Undef
                                              | Some q \<Rightarrow>
                                                  res_bind (Update_writes w serial_pa p pi (Some (oserial, op, q)) v len)
                                                    (\<lambda>w'. Ok (w', sp2, 0)))
                                      | _ \<Rightarrow> Abort))))))"

definition area_add :: "world \<Rightarrow> string \<Rightarrow> string \<Rightarrow> nat \<Rightarrow> string \<Rightarrow> nat \<Rightarrow> (world \<times> bool) res" where
  "area_add w pa nm namelen v valuelen =
     res_bind (area_at w pa)
       (\<lambda>a. res_bind (of_option (pa_add a nm namelen v valuelen)) (\<lambda>(a', ok). Ok (set_area w pa a', ok)))"

text \<open>The part of \<open>Add\<close> that keeps the appcompat override areas in step.\<close>

definition Add_override ::
  "sysenv \<Rightarrow> world \<Rightarrow> sys_props \<Rightarrow> contexts \<Rightarrow> string \<Rightarrow> string \<Rightarrow> nat \<Rightarrow> (world \<times> sys_props) res" where
  "Add_override e w sp oc nm v valuelen =
     (let is_override = is_appcompat_override nm;
          override_name = (if is_override then drop (length APPCOMPAT_PREFIX) nm else nm) in
      res_bind (override_area_for_name e w sp override_name)
        (\<lambda>(sp', other_pa).
           case (other_pa, GetSerialPropArea oc) of
             (Some op, Some oserial) \<Rightarrow>
               res_bind (area_find w op override_name)
                 (\<lambda>other_pi. case other_pi of
                     None \<Rightarrow>
                       res_bind (area_add w op override_name (length override_name) v valuelen)
                         (\<lambda>(w1, ok).
                            if ok then res_bind (bump_serial w1 oserial) (\<lambda>w2. Ok (w2, sp'))
                            else Ok (w1, sp'))
                   | Some opi \<Rightarrow>
                       if is_override then
                         (if \<not> se_init_or_root e then Abort
                          else res_bind (write_value w opi v valuelen) (\<lambda>w1. Ok (w1, sp')))
                       else Ok (w, sp'))
           | _ \<Rightarrow> Abort))"

definition Add ::
  "sysenv \<Rightarrow> world \<Rightarrow> sys_props \<Rightarrow> string \<Rightarrow> nat \<Rightarrow> string \<Rightarrow> nat \<Rightarrow> (world \<times> sys_props \<times> int) res" where
  "Add e w sp0 nm namelen v valuelen =
     (if namelen < 1 then Ok (w, sp0, -1)
      else if valuelen \<ge> PROP_VALUE_MAX \<and> \<not> is_read_only nm then Ok (w, sp0, -1)
      else if \<not> sys_initialized sp0 then Ok (w, sp0, -1)
      else
        res_bind (the_contexts (sys_contexts sp0))
          (\<lambda>c. case GetSerialPropArea c of
              None \<Rightarrow> Ok (w, sp0, -1)
            | Some serial_pa \<Rightarrow>
                res_bind (area_for_name e w sp0 nm)
                  (\<lambda>(sp1, pa). case pa of
                      None \<Rightarrow> Ok (w, sp1, -1)
                    | Some p \<Rightarrow>
                        res_bind (area_add w p nm namelen v valuelen)
                          (\<lambda>(w1, ok).
                             if \<not> ok then Ok (w1, sp1, -1)
                             else
                               res_bind
                                 (case sys_override_contexts sp1 of
                                    None \<Rightarrow> Ok (w1, sp1)
                                  | Some oc \<Rightarrow> Add_override e w1 sp1 oc nm v valuelen)
                                 (\<lambda>(w2, sp2).
                                    res_bind (bump_serial w2 serial_pa) (\<lambda>w3. Ok (w3, sp2, 0)))))))"

section \<open>Waiting and enumerating\<close>

text \<open>
  One round of the wait loop: whether \<open>__futex_wait\<close> timed out, and the serial that is loaded after
  it. \<open>None\<close> is a wait that is still going on. The result is the bool that is returned and the serial
  that is stored through \<open>new_serial_ptr\<close>, if any.
\<close>

fun wait_loop :: "u32 \<Rightarrow> (bool \<times> u32) list \<Rightarrow> (bool \<times> u32 option) option" where
  "wait_loop old_serial [] = None"
| "wait_loop old_serial ((timed_out, new_serial) # rounds) =
     (if timed_out then Some (False, None)
      else if new_serial = old_serial then wait_loop old_serial rounds
      else Some (True, Some new_serial))"

text \<open>\<open>return -1\<close> in a function returning \<open>bool\<close> returns true.\<close>

definition bool_of_int :: "int \<Rightarrow> bool" where "bool_of_int n = (n \<noteq> 0)"

definition Wait ::
  "sys_props \<Rightarrow> pi_ptr option \<Rightarrow> u32 \<Rightarrow> (bool \<times> u32) list \<Rightarrow> (bool \<times> u32 option) option res" where
  "Wait sp pi old_serial rounds =
     (case pi of
        Some _ \<Rightarrow> Ok (wait_loop old_serial rounds)
      | None \<Rightarrow>
          if \<not> sys_initialized sp then Ok (Some (bool_of_int (-1), None))
          else
            res_bind (the_contexts (sys_contexts sp))
              (\<lambda>c. if GetSerialPropArea c = None then Ok (Some (bool_of_int (-1), None))
                    else Ok (wait_loop old_serial rounds)))"

text \<open>\<open>WaitAny\<close> returns its local \<open>new_serial\<close>, which has no value unless \<open>Wait\<close> stored one.\<close>

definition WaitAny :: "sys_props \<Rightarrow> u32 \<Rightarrow> (bool \<times> u32) list \<Rightarrow> u32 option res" where
  "WaitAny sp old_serial rounds =
     res_bind (Wait sp None old_serial rounds)
       (\<lambda>r. case r of
           None \<Rightarrow> Ok None
         | Some (_, Some new_serial) \<Rightarrow> Ok (Some new_serial)
         | Some (_, None) \<Rightarrow> Undef)"

definition Foreach ::
  "sysenv \<Rightarrow> world \<Rightarrow> sys_props \<Rightarrow> (pi_ptr \<Rightarrow> 'c \<Rightarrow> 'c) \<Rightarrow> 'c \<Rightarrow> (sys_props \<times> 'c \<times> int) res" where
  "Foreach e w sp propfn cookie =
     (if \<not> sys_initialized sp then Ok (sp, cookie, -1)
      else res_bind (the_contexts (sys_contexts sp))
             (\<lambda>c. res_bind (ContextsForEach e w propfn c cookie)
                (\<lambda>(c', cookie'). Ok (sp\<lparr>sys_contexts := Some c'\<rparr>, cookie', 0))))"

definition find_nth_fn :: "u32 \<Rightarrow> pi_ptr \<Rightarrow> u32 \<times> pi_ptr option \<Rightarrow> u32 \<times> pi_ptr option" where
  "find_nth_fn sought pi self = (fst self + 1, if fst self = sought then Some pi else snd self)"

definition FindNth :: "sysenv \<Rightarrow> world \<Rightarrow> sys_props \<Rightarrow> u32 \<Rightarrow> (sys_props \<times> pi_ptr option) res" where
  "FindNth e w sp n =
     res_bind (Foreach e w sp (find_nth_fn n) (0, None)) (\<lambda>(sp', self, _). Ok (sp', snd self))"

end
