(* ===== verification/Property_Records.thy ===== *)
theory Property_Records
  imports System_Properties
begin

text \<open>
  The records of a property area as a map from names to values: the invariant of the records that
  can be found, and what storing into one record, bumping a serial and adding a name do to the map.
\<close>

section \<open>Well-formed records\<close>

definition short_ok :: "prop_info \<Rightarrow> char list \<Rightarrow> bool" where
  "short_ok i b \<longleftrightarrow> (is_read_only (pi_name i) \<longrightarrow> \<not> is_long i) \<and> length b = PROP_VALUE_MAX \<and> SERIAL_VALUE_LEN (pi_serial i) < PROP_VALUE_MAX \<and>
     c_string (take (SERIAL_VALUE_LEN (pi_serial i)) b) \<and> b ! SERIAL_VALUE_LEN (pi_serial i) = CHR 0x00"

definition long_ok :: "prop_area \<Rightarrow> nat \<Rightarrow> prop_info \<Rightarrow> char list \<Rightarrow> nat \<Rightarrow> bool" where
  "long_ok a off i e d \<longleftrightarrow> is_long i \<and> is_read_only (pi_name i) \<and> e = kLongLegacyError @ [CHR 0x00] \<and>
     SERIAL_VALUE_LEN (pi_serial i) = length kLongLegacyError \<and>
     (\<exists>s. pa_data a (off + d) = Some (LongValue s) \<and> c_string s \<and> PROP_VALUE_MAX \<le> length s)"

definition rec_ok :: "prop_area \<Rightarrow> string \<Rightarrow> nat \<Rightarrow> bool" where
  "rec_ok a nm off \<longleftrightarrow> (\<exists>i. info_at a off = Some i \<and> pi_name i = nm \<and> SERIAL_DIRTY (pi_serial i) = 0 \<and>
     (case pi_value i of Value b \<Rightarrow> short_ok i b | LongProperty e d \<Rightarrow> long_ok a off i e d))"

definition area_good :: "prop_area \<Rightarrow> bool" where
  "area_good a \<longleftrightarrow> wf_area a \<and> length (dirty_backup_area a) = PROP_VALUE_MAX \<and>
     (\<forall>nm off. c_string nm \<longrightarrow> pa_find a nm = Some (Some off) \<longrightarrow> rec_ok a nm off)"

text \<open>The value of a record, and the map a well-formed area stands for.\<close>

definition long_at :: "prop_area \<Rightarrow> nat \<Rightarrow> string" where
  "long_at a x = (case pa_data a x of Some (LongValue s) \<Rightarrow> s | _ \<Rightarrow> [])"

definition record_value :: "prop_area \<Rightarrow> nat \<Rightarrow> string" where
  "record_value a off =
     (case info_at a off of
        None \<Rightarrow> []
      | Some i \<Rightarrow>
          (case pi_value i of
             Value b \<Rightarrow> c_str b
           | LongProperty _ d \<Rightarrow> long_at a (off + d)))"

definition props_of :: "prop_area \<Rightarrow> string \<Rightarrow> string option" where
  "props_of a nm = (case pa_find a nm of Some (Some off) \<Rightarrow> Some (record_value a off) | _ \<Rightarrow> None)"

section \<open>Serial words\<close>

lemma of_nat_push_24: "len < 256 \<Longrightarrow> drop_bit 24 (push_bit 24 (of_nat len :: u32)) = of_nat len"
proof (rule bit_eqI)
  fix n
  assume len: "len < 256"
  have "\<not> bit len m" if "8 \<le> m" for m
  proof -
    have "len < 2 ^ m"
      using len power_increasing [OF that, of "2 :: nat"] by simp
    then show ?thesis
      by (simp add: bit_iff_odd)
  qed
  then show "bit (drop_bit 24 (push_bit 24 (of_nat len :: u32))) n = bit (of_nat len :: u32) n"
    by (auto simp: bit_simps) (metis not_le)
qed

lemma serial_len_push:
  "len < 256 \<Longrightarrow> unat w < 2 ^ 24 \<Longrightarrow> SERIAL_VALUE_LEN (push_bit 24 (of_nat len) OR w) = len"
proof -
  assume len: "len < 256" and w: "unat w < 2 ^ 24"
  have "drop_bit 24 w = 0"
    using w by (simp add: word_unat_eq_iff unat_drop_bit)
  then show ?thesis
    using len of_nat_push_24 [OF len] by (simp add: SERIAL_VALUE_LEN_def drop_bit_or unat_of_nat)
qed

lemma serial_len_next [simp]: "len < 256 \<Longrightarrow> SERIAL_VALUE_LEN (next_serial nm len s) = len"
proof -
  have "unat (w AND 0xffffff :: u32) < 2 ^ 24" for w
    using unat_and_mask [of w 24] by (simp add: mask_eq_exp_minus_1)
  then show "len < 256 \<Longrightarrow> SERIAL_VALUE_LEN (next_serial nm len s) = len"
    unfolding next_serial_def by (intro serial_len_push)
qed

lemma serial_len_short [simp]: "len < 256 \<Longrightarrow> SERIAL_VALUE_LEN (push_bit 24 (of_nat len)) = len"
  using serial_len_push [of len 0] by simp

lemma dirty_iff: "SERIAL_DIRTY s = 0 \<longleftrightarrow> \<not> bit s 0"
  by (simp add: SERIAL_DIRTY_def and_one_eq mod2_eq_if bit_0)

lemma dirty_next [simp]: "SERIAL_DIRTY (next_serial nm len (s OR 1)) = 0"
proof -
  have "odd (s OR 1)"
    by (simp add: bit_simps flip: bit_0)
  then have "\<not> bit ((s OR 1) + 1) 0"
    by (simp add: bit_0)
  then show ?thesis
    unfolding dirty_iff next_serial_def by (simp add: bit_simps)
qed

lemma is_long_bit: "is_long i \<longleftrightarrow> bit (pi_serial i) 16"
  unfolding is_long_def kLongFlag_def bit_iff_and_push_bit_not_eq_0 ..

lemma not_long_next: "is_read_only nm \<Longrightarrow> \<not> bit (next_serial nm len s) 16"
  by (simp add: next_serial_def bit_simps)

section \<open>Records that change in place\<close>

text \<open>Heaps that differ only in the contents of records, not in their names.\<close>

definition same_records :: "(nat \<rightharpoonup> pa_obj) \<Rightarrow> (nat \<rightharpoonup> pa_obj) \<Rightarrow> bool" where
  "same_records h h' \<longleftrightarrow>
     (\<forall>x. h' x = h x \<or> (\<exists>i i'. h x = Some (Info i) \<and> h' x = Some (Info i') \<and> pi_name i' = pi_name i))"

lemma same_records_refl [simp]: "same_records h h"
  by (simp add: same_records_def)

lemma same_records_node: "same_records h h' \<Longrightarrow> h x = Some (TrieNode nd) \<Longrightarrow> h' x = Some (TrieNode nd)"
  unfolding same_records_def by (metis option.inject pa_obj.distinct(1))

lemma same_records_infos_ok: "same_records h h' \<Longrightarrow> infos_ok h pre t \<Longrightarrow> infos_ok h' pre t"
proof (induction t arbitrary: pre)
  case (PNode off l nm p c r)
  have "info_ok h p m \<Longrightarrow> info_ok h' p m" for m
    using PNode.prems(1) unfolding same_records_def info_ok_def by (metis option.inject pa_obj.inject(2))
  then show ?case
    using PNode by simp
qed simp

lemma wf_area_same_records:
  assumes "wf_area a" "same_records (pa_data a) (pa_data a')"
    "bytes_used a' = bytes_used a" "pa_data_size a' = pa_data_size a"
  shows "wf_area a'" "c_string nm \<Longrightarrow> pa_find a' nm = pa_find a nm"
proof -
  obtain c where c: "area_ok a" "trie_of a c"
    using assms(1) by (auto simp: wf_area_def)
  have "dom (pa_data a') = dom (pa_data a)"
    using assms(2) unfolding same_records_def dom_def by (metis (lifting) option.distinct(1))
  then have ok: "area_ok a'"
    using c(1) assms(3,4) by (simp add: area_ok_def heap_ok_def)
  have "tree_at (pa_data a') x t" if "tree_at (pa_data a) x t" for x t
    using tree_at_dom [OF that] same_records_node [OF assms(2)] by (intro tree_at_frame [OF that]) metis
  then have t: "trie_of a' c"
    using c(2) same_records_node [OF assms(2)] same_records_infos_ok [OF assms(2)]
    unfolding trie_of_def subtree_def by blast
  show "wf_area a'"
    using ok t by (auto simp: wf_area_def)
  show "c_string nm \<Longrightarrow> pa_find a' nm = pa_find a nm"
    using pa_find_lookup [OF c] pa_find_lookup [OF ok t] by simp
qed

lemma find_names_unique:
  assumes "wf_area a" "c_string nm" "c_string nm'" "pa_find a nm = Some (Some off)" "pa_find a nm' = Some (Some off)"
  shows "nm' = nm"
  using wf_area_find [OF assms(1,2)] wf_area_find [OF assms(1,3)] assms(4,5) by auto

definition same_longs :: "prop_area \<Rightarrow> prop_area \<Rightarrow> bool" where
  "same_longs a a' \<longleftrightarrow> (\<forall>x s. pa_data a' x = Some (LongValue s) \<longleftrightarrow> pa_data a x = Some (LongValue s))"

lemma rec_ok_cong:
  assumes "info_at a' off = info_at a off" "same_longs a a'"
  shows "rec_ok a' nm off \<longleftrightarrow> rec_ok a nm off"
proof -
  have "long_ok a' off i e d \<longleftrightarrow> long_ok a off i e d" for i e d
    using assms(2) by (simp add: long_ok_def same_longs_def)
  then show ?thesis
    unfolding rec_ok_def assms(1) by (simp split: prop_value.split)
qed

lemma record_value_cong:
  assumes "info_at a' off = info_at a off" "same_longs a a'"
  shows "record_value a' off = record_value a off"
proof -
  have "long_at a' x = long_at a x" for x
  proof (cases "\<exists>s. pa_data a x = Some (LongValue s)")
    case True
    then obtain s where "pa_data a x = Some (LongValue s)" "pa_data a' x = Some (LongValue s)"
      using assms(2) by (auto simp: same_longs_def)
    then show ?thesis
      by (simp add: long_at_def)
  next
    case False
    then show ?thesis
      using assms(2) unfolding long_at_def same_longs_def by (simp split: option.split pa_obj.split)
  qed
  then show ?thesis
    unfolding record_value_def assms(1) by (simp split: option.split prop_value.split)
qed

text \<open>Changing serial words and backup bytes of an area changes none of its properties.\<close>

lemma area_good_header:
  assumes "area_good a" "pa_data a' = pa_data a" "bytes_used a' = bytes_used a" "pa_data_size a' = pa_data_size a"
    "length (dirty_backup_area a') = PROP_VALUE_MAX"
  shows "area_good a'" "c_string nm \<Longrightarrow> props_of a' nm = props_of a nm" "c_string nm \<Longrightarrow> pa_find a' nm = pa_find a nm"
proof -
  have wf: "wf_area a'" "\<And>nm. c_string nm \<Longrightarrow> pa_find a' nm = pa_find a nm"
    using wf_area_same_records [of a a'] assms by (auto simp: area_good_def)
  have same: "info_at a' off = info_at a off" "same_longs a a'" for off
    using assms(2) by (simp_all add: info_at_def same_longs_def)
  have "rec_ok a' nm off = rec_ok a nm off" "record_value a' off = record_value a off" for nm off
    using rec_ok_cong [OF same] record_value_cong [OF same] by simp_all
  then show "area_good a'" "c_string nm \<Longrightarrow> props_of a' nm = props_of a nm" "c_string nm \<Longrightarrow> pa_find a' nm = pa_find a nm"
    using wf assms by (simp_all add: area_good_def props_of_def split: option.split)
qed

text \<open>Replacing one record by another of the same name.\<close>

lemma info_at_store [simp]:
  "info_at (store_obj a off (Info i)) x = (if x = off then Some i else info_at a x)"
  by (simp add: info_at_def store_obj_def)

lemma area_good_replace:
  assumes "area_good a" "c_string nm" "pa_find a nm = Some (Some off)" "info_at a off = Some i"
    and i': "pi_name i' = nm" "SERIAL_DIRTY (pi_serial i') = 0" "pi_value i' = Value b" "short_ok i' b"
  shows "area_good (store_obj a off (Info i'))"
    and "c_string nm' \<Longrightarrow> props_of (store_obj a off (Info i')) nm' = ((props_of a)(nm \<mapsto> c_str b)) nm'"
proof -
  let ?a = "store_obj a off (Info i')"
  have h: "pa_data a off = Some (Info i)" "pi_name i = nm"
    using assms(1-4) wf_area_find [of a nm] by (auto simp: info_at_def area_good_def split: option.splits pa_obj.splits)
  have "same_records (pa_data a) (pa_data ?a)"
    using h i'(1) by (auto simp: same_records_def store_obj_def)
  then have wf: "wf_area ?a" "\<And>nm. c_string nm \<Longrightarrow> pa_find ?a nm = pa_find a nm"
    using wf_area_same_records [of a ?a] assms(1) by (auto simp: area_good_def store_obj_def)
  have other: "off' \<noteq> off" if "c_string m" "pa_find a m = Some (Some off')" "m \<noteq> nm" for m off'
    using that find_names_unique [OF _ assms(2) that(1) assms(3)] assms(1) by (auto simp: area_good_def)
  have long: "same_longs a ?a"
    using h by (auto simp: store_obj_def same_longs_def)
  have "rec_ok ?a m off'" if "c_string m" "pa_find a m = Some (Some off')" for m off'
  proof (cases "m = nm")
    case True
    then show ?thesis
      using that(2) assms(3) i' by (simp add: rec_ok_def)
  next
    case False
    have "rec_ok a m off'"
      using assms(1) that by (simp add: area_good_def)
    then show ?thesis
      using rec_ok_cong [OF _ long, of off'] other [OF that False] by simp
  qed
  then show "area_good ?a"
    using wf assms(1) by (simp add: area_good_def store_obj_def)
  show "props_of ?a nm' = ((props_of a)(nm \<mapsto> c_str b)) nm'" if "c_string nm'"
  proof (cases "nm' = nm")
    case True
    then show ?thesis
      using wf(2) assms(2,3) i'(3) by (simp add: props_of_def record_value_def)
  next
    case False
    then show ?thesis
      using wf(2) [OF that] other [OF that] record_value_cong [OF _ long]
      by (simp add: props_of_def split: option.split)
  qed
qed

section \<open>Adding a record\<close>

lemma short_ok_new:
  assumes "c_string v" "length v < PROP_VALUE_MAX"
  shows "short_ok (prop_info_short nm n v (length v)) ((memcpy (zero_bytes PROP_VALUE_MAX) v (length v))[length v := CHR 0x00])"
    and "c_str ((memcpy (zero_bytes PROP_VALUE_MAX) v (length v))[length v := CHR 0x00]) = v"
    and "SERIAL_DIRTY (pi_serial (prop_info_short nm n v (length v))) = 0"
proof -
  let ?b = "(memcpy (zero_bytes PROP_VALUE_MAX) v (length v))[length v := CHR 0x00]"
  have b: "?b = v @ CHR 0x00 # zero_bytes (PROP_VALUE_MAX - length v - 1)"
  proof -
    obtain k where k: "PROP_VALUE_MAX - length v = Suc k"
      using assms(2) by (cases "PROP_VALUE_MAX - length v") auto
    then show ?thesis
      by (simp add: memcpy_def zero_bytes_def list_update_append)
  qed
  have len: "SERIAL_VALUE_LEN (push_bit 24 (of_nat (length v))) = length v"
    using assms(2) by (intro serial_len_short) (simp add: PROP_VALUE_MAX_def)
  show "short_ok (prop_info_short nm n v (length v)) ?b"
    using assms len unfolding b
    by (simp add: short_ok_def is_long_bit prop_info_short_def zero_bytes_def bit_simps)
  show "c_str ?b = v"
    using assms(1) unfolding b by simp
  show "SERIAL_DIRTY (pi_serial (prop_info_short nm n v (length v))) = 0"
    by (simp add: dirty_iff prop_info_short_def bit_simps)
qed

lemma long_serial:
  "SERIAL_VALUE_LEN (pi_serial (prop_info_long nm n d)) = length kLongLegacyError"
  "is_long (prop_info_long nm n d)" "SERIAL_DIRTY (pi_serial (prop_info_long nm n d)) = 0"
proof -
  show "SERIAL_VALUE_LEN (pi_serial (prop_info_long nm n d)) = length kLongLegacyError"
    unfolding prop_info_long_def prop_info.select_convs
    by (rule serial_len_push) (simp_all add: kLongLegacyError_def kLongFlag_def)
  show "is_long (prop_info_long nm n d)"
    unfolding is_long_bit prop_info_long_def kLongFlag_def by (simp add: bit_or_iff bit_push_bit_iff)
  show "SERIAL_DIRTY (pi_serial (prop_info_long nm n d)) = 0"
    unfolding dirty_iff prop_info_long_def kLongFlag_def by (simp add: bit_simps)
qed

lemma stored_rec_ok:
  assumes "stored a off nm v (length v)" "c_string nm" "c_string v"
    and "length v < PROP_VALUE_MAX \<or> is_read_only nm"
  shows "rec_ok a nm off" "record_value a off = v"
proof -
  have "rec_ok a nm off \<and> record_value a off = v"
  proof (cases "length v < PROP_VALUE_MAX")
    case True
    then have "info_at a off = Some (prop_info_short nm (length nm) v (length v))"
      using assms(1) by (auto simp: stored_def info_at_def)
    then show ?thesis
      using short_ok_new(1) [OF assms(3) True, of nm "length nm"] short_ok_new(2) [OF assms(3) True]
        short_ok_new(3) [OF assms(3) True, of nm "length nm"]
      by (simp add: rec_ok_def record_value_def prop_info_short_def)
  next
    case False
    then obtain d where d: "info_at a off = Some (prop_info_long nm (length nm) d)"
      "pa_data a (off + d) = Some (LongValue v)"
      using assms(1) by (auto simp: stored_def info_at_def)
    then show ?thesis
      using long_serial [of nm "length nm" d] assms(3,4) False
      by (auto simp: rec_ok_def record_value_def long_ok_def long_at_def prop_info_long_def)
  qed
  then show "rec_ok a nm off" "record_value a off = v"
    by blast+
qed

lemma rec_ok_mono:
  assumes "rec_ok a nm off" "\<forall>off pi. info_at a off = Some pi \<longrightarrow> info_at a' off = Some pi"
    "\<forall>off s. pa_data a off = Some (LongValue s) \<longrightarrow> pa_data a' off = Some (LongValue s)"
  shows "rec_ok a' nm off" "record_value a' off = record_value a off"
proof -
  obtain i where i: "info_at a off = Some i" "info_at a' off = Some i" "pi_name i = nm" "SERIAL_DIRTY (pi_serial i) = 0"
    "case pi_value i of Value b \<Rightarrow> short_ok i b | LongProperty e d \<Rightarrow> long_ok a off i e d"
    using assms(1,2) by (auto simp: rec_ok_def)
  have "long_ok a off i e d \<Longrightarrow> long_ok a' off i e d \<and> long_at a' (off + d) = long_at a (off + d)" for e d
    using assms(3) by (auto simp: long_ok_def long_at_def)
  then show "rec_ok a' nm off" "record_value a' off = record_value a off"
    using i by (auto simp: rec_ok_def record_value_def split: prop_value.splits)
qed

lemma area_good_add:
  assumes "area_good a" "c_string nm" "c_string v" "length v + 1 < 2 ^ 32"
    and "length v < PROP_VALUE_MAX \<or> is_read_only nm"
  obtains a' ok where "pa_add a nm (length nm) v (length v) = Some (a', ok)" "area_good a'" "pa_serial a' = pa_serial a"
    "\<And>nm'. c_string nm' \<Longrightarrow> props_of a' nm' =
       (if ok \<and> nm' = nm \<and> props_of a nm = None then Some v else props_of a nm')"
    "ok \<longleftrightarrow> props_of a' nm \<noteq> None"
proof -
  have wf: "wf_area a"
    using assms(1) by (simp add: area_good_def)
  obtain a' ok where run: "pa_add a nm (length nm) v (length v) = Some (a', ok)" and wf': "wf_area a'"
    and same: "same_area a a'" and kept: "\<forall>off pi. info_at a off = Some pi \<longrightarrow> info_at a' off = Some pi"
      "\<forall>off s. pa_data a off = Some (LongValue s) \<longrightarrow> pa_data a' off = Some (LongValue s)"
    and others: "\<And>nm'. c_string nm' \<Longrightarrow> nm' \<noteq> nm \<Longrightarrow> pa_find a' nm' = pa_find a nm'"
    and this_nm: "if ok then \<exists>off. pa_find a' nm = Some (Some off) \<and>
           (pa_find a nm = Some None \<longrightarrow> stored a' off nm v (length v)) \<and>
           (\<forall>off0. pa_find a nm = Some (Some off0) \<longrightarrow> off = off0)
     else pa_find a nm = Some None \<and> pa_find a' nm = Some None"
    using wf_area_add [OF wf assms(2,4), of v] by blast
  have old: "rec_ok a' m off \<and> record_value a' off = record_value a off"
    if "c_string m" "pa_find a m = Some (Some off)" for m off
    using assms(1) that rec_ok_mono [OF _ kept] by (auto simp: area_good_def)
  obtain r where r: "pa_find a nm = Some r"
    using wf_area_find [OF wf assms(2)] by blast
  have new: "pa_find a nm = Some None \<Longrightarrow> pa_find a' nm = Some (Some off) \<Longrightarrow> rec_ok a' nm off \<and> record_value a' off = v" for off
    using this_nm stored_rec_ok [OF _ assms(2,3,5)] by (auto split: if_splits)
  have "rec_ok a' m off" if "c_string m" "pa_find a' m = Some (Some off)" for m off
  proof (cases "m = nm")
    case True
    show ?thesis
      using this_nm that True old [OF assms(2)] new r by (cases r) (auto split: if_splits)
  next
    case False
    then show ?thesis
      using others old that by metis
  qed
  then have good: "area_good a'"
    using wf' same assms(1) by (simp add: area_good_def same_area_def)
  moreover have "props_of a' nm' = (if ok \<and> nm' = nm \<and> props_of a nm = None then Some v else props_of a nm')"
    if "c_string nm'" for nm'
  proof (cases "nm' = nm")
    case True
    then show ?thesis
      using this_nm r old [OF assms(2)] new by (cases r) (auto simp: props_of_def split: if_splits)
  next
    case False
    then show ?thesis
      using others [OF that] old [OF that] by (auto simp: props_of_def split: option.splits)
  qed
  moreover have "ok \<longleftrightarrow> props_of a' nm \<noteq> None"
    using this_nm by (auto simp: props_of_def split: if_splits)
  moreover have "pa_serial a' = pa_serial a"
    using same by (simp add: same_area_def)
  ultimately show ?thesis
    using that run by blast
qed

end
