(* ===== verification/Property_Service.thy ===== *)
theory Property_Service
  imports Property_Records
begin

text \<open>
  The property service as a map from names to values: its invariant, and that \<open>Add\<close>, \<open>Update\<close>,
  \<open>Find\<close>, \<open>Get\<close> and \<open>ReadCallback\<close> implement the operations of the map, through whichever of the three
  kinds of contexts assigns names to areas.
\<close>

section \<open>Routing\<close>

text \<open>The area of a name when the file of its context is mapped already.\<close>

fun route :: "sysenv \<Rightarrow> contexts \<Rightarrow> string \<Rightarrow> string option" where
  "route e (Serialized cs) nm =
     (let index = se_info_index e nm in
      if index = 2 ^ 32 - 1 \<or> index \<ge> cs_num_context_nodes cs \<or> index \<ge> length (cs_context_nodes cs) then None
      else cn_pa (cs_context_nodes cs ! index))"
| "route e (Split sp) nm =
     (case get_prefix_node_for_name sp nm of
        None \<Rightarrow> None
      | Some entry \<Rightarrow>
          (case list_find (\<lambda>cn. cn_context cn = pn_context entry) (sp_contexts sp) of
             None \<Rightarrow> None | Some cn \<Rightarrow> cn_pa cn))"
| "route e (PreSplit pa) nm = pa"

lemma route_get: "route e c nm = Some p \<Longrightarrow> GetPropAreaForName e w nm c = Ok (c, Some p)"
  by (cases c)
    (auto simp: cs_get_prop_area_for_name_def sp_get_prop_area_for_name_def Let_def
      split: if_splits option.splits)

section \<open>The invariant and the map\<close>

definition service_ok :: "sysenv \<Rightarrow> world \<Rightarrow> sys_props \<Rightarrow> bool" where
  "service_ok e w sp \<longleftrightarrow> sys_initialized sp \<and> \<not> sys_use_appcompat_override sp \<and> sys_override_contexts sp = None \<and>
     (\<exists>c s. sys_contexts sp = Some c \<and> GetSerialPropArea c = Some s \<and> w s \<noteq> None \<and>
        (\<forall>nm. c_string nm \<longrightarrow> (\<exists>p. route e c nm = Some p \<and> w p \<noteq> None))) \<and>
     (\<forall>p f. w p = Some f \<longrightarrow> area_good (pf_area f))"

definition service_view :: "sysenv \<Rightarrow> world \<Rightarrow> sys_props \<Rightarrow> string \<Rightarrow> string option" where
  "service_view e w sp nm =
     (case sys_contexts sp of
        None \<Rightarrow> None
      | Some c \<Rightarrow>
          (case route e c nm of
             None \<Rightarrow> None
           | Some p \<Rightarrow> (case w p of None \<Rightarrow> None | Some f \<Rightarrow> props_of (pf_area f) nm)))"

lemma service_okE:
  assumes "service_ok e w sp" "c_string nm"
  obtains c s fs p f where "sys_contexts sp = Some c" "GetSerialPropArea c = Some s" "w s = Some fs"
    "route e c nm = Some p" "w p = Some f" "area_good (pf_area f)" "area_good (pf_area fs)"
    "service_view e w sp nm = props_of (pf_area f) nm"
    "\<And>w. area_for_name e w sp nm = Ok (sp, Some p)"
proof -
  obtain c s fs p f where o: "sys_contexts sp = Some c" "GetSerialPropArea c = Some s" "w s = Some fs"
    "route e c nm = Some p" "w p = Some f"
    using assms unfolding service_ok_def by blast
  moreover have "sp\<lparr>sys_contexts := Some c\<rparr> = sp"
    using o(1) by simp
  then have "area_for_name e w' sp nm = Ok (sp, Some p)" for w'
    using o(1,4) route_get [OF o(4)] by (simp add: area_for_name_def the_contexts_def of_option_def)
  moreover have "area_good (pf_area f)" "area_good (pf_area fs)"
    using assms(1) o(3,5) unfolding service_ok_def by blast+
  moreover have "service_view e w sp nm = props_of (pf_area f) nm"
    using o by (simp add: service_view_def)
  ultimately show ?thesis
    using that by blast
qed

text \<open>A world in which only good areas were replaced by good areas is still served.\<close>

definition world_step :: "world \<Rightarrow> world \<Rightarrow> bool" where
  "world_step w w' \<longleftrightarrow> dom w' = dom w \<and> (\<forall>p f'. w' p = Some f' \<longrightarrow> area_good (pf_area f'))"

lemma service_ok_step: "service_ok e w sp \<Longrightarrow> world_step w w' \<Longrightarrow> service_ok e w' sp"
  unfolding service_ok_def world_step_def dom_def by (metis (mono_tags, lifting) mem_Collect_eq)

lemma set_area_simps:
  "w p = Some f \<Longrightarrow> set_area w p a = w(p \<mapsto> f\<lparr>pf_area := a\<rparr>)"
  by (simp add: set_area_def)

lemma set_area_step:
  "service_ok e w sp \<Longrightarrow> w p = Some f \<Longrightarrow> area_good a \<Longrightarrow> world_step w (w(p \<mapsto> f\<lparr>pf_area := a\<rparr>))"
  by (auto simp: world_step_def service_ok_def)

lemma set_area_view:
  assumes "service_ok e w sp" "c_string nm" "w p = Some f"
    and "\<And>m. c_string m \<Longrightarrow> props_of a m = g m (props_of (pf_area f) m)"
  shows "service_view e (w(p \<mapsto> f\<lparr>pf_area := a\<rparr>)) sp nm =
    (if \<exists>c. sys_contexts sp = Some c \<and> route e c nm = Some p then g nm (service_view e w sp nm)
     else service_view e w sp nm)"
  using assms by (auto simp: service_view_def split: option.split)

lemma area_at_Some: "w p = Some f \<Longrightarrow> area_at w p = Ok (pf_area f)"
  by (simp add: area_at_def)

lemma mod_area_Some: "w p = Some f \<Longrightarrow> mod_area w p g = Ok (w(p \<mapsto> f\<lparr>pf_area := g (pf_area f)\<rparr>))"
  by (simp add: mod_area_def area_at_Some set_area_simps)

lemma deref_Some: "w p = Some f \<Longrightarrow> deref w (p, off) = of_option (info_at (pf_area f) off)"
  by (simp add: deref_def area_at_Some)

lemma mod_info_Some:
  "w p = Some f \<Longrightarrow> info_at (pf_area f) off = Some i \<Longrightarrow>
   mod_info w (p, off) g = Ok (w(p \<mapsto> f\<lparr>pf_area := store_obj (pf_area f) off (Info (g i))\<rparr>))"
  by (simp add: mod_info_def deref_Some of_option_def mod_area_Some)

lemmas area_ops = area_at_Some mod_area_Some deref_Some mod_info_Some of_option_def the_contexts_def

lemma bump_serial_ok:
  assumes ok: "service_ok e w sp" and c: "sys_contexts sp = Some c" "GetSerialPropArea c = Some s"
  obtains w' x where "bump_serial w s = Ok w'" "service_ok e w' sp"
    "\<And>m. c_string m \<Longrightarrow> service_view e w' sp m = service_view e w sp m"
    "AreaSerial w sp = Ok x" "AreaSerial w' sp = Ok (x + 1)"
proof -
  obtain fs where fs: "w s = Some fs" and good: "area_good (pf_area fs)"
    using ok c unfolding service_ok_def by auto
  let ?a = "(pf_area fs)\<lparr>pa_serial := pa_serial (pf_area fs) + 1\<rparr>"
  let ?w = "w(s \<mapsto> fs\<lparr>pf_area := ?a\<rparr>)"
  have a: "area_good ?a" "\<And>m. c_string m \<Longrightarrow> props_of ?a m = props_of (pf_area fs) m"
    using area_good_header [OF good, of ?a] good by (auto simp: area_good_def)
  have "bump_serial w s = Ok ?w"
    using fs by (simp add: bump_serial_def mod_area_Some)
  moreover have "service_ok e ?w sp"
    using service_ok_step [OF ok set_area_step [OF ok fs a(1)]] .
  moreover have "service_view e ?w sp m = service_view e w sp m" if "c_string m" for m
    using set_area_view [OF ok that fs, of ?a "\<lambda>_ x. x"] a(2) by simp
  moreover have "AreaSerial w sp = Ok (pa_serial (pf_area fs))" "AreaSerial ?w sp = Ok (pa_serial (pf_area fs) + 1)"
    using ok c fs by (simp_all add: AreaSerial_def service_ok_def the_contexts_def of_option_def area_at_def)
  ultimately show ?thesis
    using that by blast
qed

lemma AreaSerial_cong:
  assumes "service_ok e w sp" "w p = Some f" "pa_serial a = pa_serial (pf_area f)"
  shows "AreaSerial (w(p \<mapsto> f\<lparr>pf_area := a\<rparr>)) sp = AreaSerial w sp"
  using assms by (auto simp: AreaSerial_def the_contexts_def of_option_def area_at_def split: option.split)

section \<open>Adding\<close>

lemma Add_cases:
  assumes ok: "service_ok e w sp" and nm: "c_string nm" "nm \<noteq> []" and v: "c_string v" "length v + 1 < 2 ^ 32"
  shows "\<exists>w' r. Add e w sp nm (length nm) v (length v) = Ok (w', sp, r) \<and> service_ok e w' sp \<and>
    (if r = 0 then
       service_view e w' sp nm \<noteq> None \<and>
       (\<forall>m. c_string m \<longrightarrow> service_view e w' sp m =
          (if m = nm \<and> service_view e w sp nm = None then Some v else service_view e w sp m)) \<and>
       (\<exists>x. AreaSerial w sp = Ok x \<and> AreaSerial w' sp = Ok (x + 1))
     else r = -1 \<and> AreaSerial w' sp = AreaSerial w sp \<and>
       (\<forall>m. c_string m \<longrightarrow> service_view e w' sp m = service_view e w sp m))"
proof (cases "length v \<ge> PROP_VALUE_MAX \<and> \<not> is_read_only nm")
  case True
  then show ?thesis
    using ok nm by (simp add: Add_def)
next
  case False
  then have short: "length v < PROP_VALUE_MAX \<or> is_read_only nm"
    by auto
  obtain c s p f where sv: "sys_contexts sp = Some c" "GetSerialPropArea c = Some s"
    "route e c nm = Some p" "w p = Some f" "area_good (pf_area f)"
    "service_view e w sp nm = props_of (pf_area f) nm" "\<And>w. area_for_name e w sp nm = Ok (sp, Some p)"
    using service_okE [OF ok nm(1)] by metis
  obtain a' b where add: "pa_add (pf_area f) nm (length nm) v (length v) = Some (a', b)" and good: "area_good a'"
    and ser: "pa_serial a' = pa_serial (pf_area f)"
    and props: "\<And>m. c_string m \<Longrightarrow> props_of a' m =
       (if b \<and> m = nm \<and> props_of (pf_area f) nm = None then Some v else props_of (pf_area f) m)"
    and b: "b \<longleftrightarrow> props_of a' nm \<noteq> None"
    using area_good_add [OF sv(5) nm(1) v short] by blast
  let ?w = "w(p \<mapsto> f\<lparr>pf_area := a'\<rparr>)"
  have ok1: "service_ok e ?w sp"
    using service_ok_step [OF ok set_area_step [OF ok sv(4) good]] .
  have view1: "service_view e ?w sp m =
      (if b \<and> m = nm \<and> service_view e w sp nm = None then Some v else service_view e w sp m)" if "c_string m" for m
    using set_area_view [OF ok that sv(4), of a' "\<lambda>m x. if b \<and> m = nm \<and> props_of (pf_area f) nm = None then Some v else x"]
      props sv(1,3,6) by auto
  have add1: "area_add w p nm (length nm) v (length v) = Ok (?w, b)"
    by (simp add: area_add_def area_ops sv(4) add set_area_simps)
  have ser1: "AreaSerial ?w sp = AreaSerial w sp"
    using AreaSerial_cong [OF ok sv(4) ser] .
  have len: "\<not> length nm < 1"
    using nm(2) by (cases nm) auto
  have Add: "Add e w sp nm (length nm) v (length v) =
      (if b then res_bind (bump_serial ?w s) (\<lambda>w3. Ok (w3, sp, 0)) else Ok (?w, sp, -1))"
    using ok len False sv(1,2,7) add1
    by (auto simp: Add_def service_ok_def the_contexts_def of_option_def)
  show ?thesis
  proof (cases b)
    case True
    obtain w' x where b: "bump_serial ?w s = Ok w'" "service_ok e w' sp"
      "\<And>m. c_string m \<Longrightarrow> service_view e w' sp m = service_view e ?w sp m"
      "AreaSerial ?w sp = Ok x" "AreaSerial w' sp = Ok (x + 1)"
      using bump_serial_ok [OF ok1 sv(1,2)] by blast
    have "Add e w sp nm (length nm) v (length v) = Ok (w', sp, 0)"
      using Add True b(1) by simp
    moreover have "service_view e w' sp m = (if m = nm \<and> service_view e w sp nm = None then Some v else service_view e w sp m)"
      if "c_string m" for m
      using view1 [OF that] b(3) [OF that] True by simp
    moreover have "service_view e w' sp nm \<noteq> None"
      using calculation(2) [OF nm(1)] by simp
    ultimately show ?thesis
      using b(2,4,5) ser1 by (intro exI [of _ w'] exI [of _ 0]) simp
  next
    case False
    then show ?thesis
      using Add ok1 view1 ser1 by (intro exI [of _ ?w] exI [of _ "-1"]) simp
  qed
qed

section \<open>Finding and reading\<close>

lemma length_value_bytes:
  "rec_ok a nm off \<Longrightarrow> info_at a off = Some i \<Longrightarrow>
   length (value_bytes (pi_value i)) = PROP_VALUE_MAX \<and> SERIAL_VALUE_LEN (pi_serial i) < PROP_VALUE_MAX"
  by (auto simp: rec_ok_def short_ok_def long_ok_def kLongLegacyError_def kLongLegacyErrorBufferSize_def
      PROP_VALUE_MAX_def zero_bytes_def le32_def split: prop_value.splits)

lemma service_find:
  assumes ok: "service_ok e w sp" and nm: "c_string nm"
  obtains (none) "service_view e w sp nm = None" "Find e w sp nm = Ok (sp, None)"
  | (found) c s p f off i where "sys_contexts sp = Some c" "GetSerialPropArea c = Some s"
    "route e c nm = Some p" "w p = Some f" "area_good (pf_area f)"
    "pa_find (pf_area f) nm = Some (Some off)" "info_at (pf_area f) off = Some i" "pi_name i = nm"
    "rec_ok (pf_area f) nm off"
    "service_view e w sp nm = Some (record_value (pf_area f) off)"
    "Find e w sp nm = Ok (sp, Some (p, off))" "\<And>w. area_for_name e w sp nm = Ok (sp, Some p)"
proof -
  obtain c s p f where sv: "sys_contexts sp = Some c" "GetSerialPropArea c = Some s"
    "route e c nm = Some p" "w p = Some f" "area_good (pf_area f)"
    "service_view e w sp nm = props_of (pf_area f) nm" "\<And>w. area_for_name e w sp nm = Ok (sp, Some p)"
    using service_okE [OF ok nm] by metis
  obtain r where r: "pa_find (pf_area f) nm = Some r"
    using wf_area_find [of "pf_area f" nm] sv(5) nm by (auto simp: area_good_def)
  have find: "Find e w sp nm = Ok (sp, map_option (Pair p) r)"
    using ok sv(7) by (simp add: Find_def service_ok_def area_find_def area_ops sv(4) r)
  show thesis
  proof (cases r)
    case None
    then show ?thesis
      using find sv(6) r by (intro none) (simp_all add: props_of_def)
  next
    case (Some off)
    then have "rec_ok (pf_area f) nm off"
      using sv(5) nm r by (simp add: area_good_def)
    moreover obtain i where "info_at (pf_area f) off = Some i" "pi_name i = nm"
      using calculation by (auto simp: rec_ok_def)
    ultimately show ?thesis
      using find sv(6) r Some by (intro found [OF sv(1-5)] sv(7)) (simp_all add: props_of_def)
  qed
qed

text \<open>What \<open>Read\<close> copies out of a record: the value if it is short, the legacy error of a long one.\<close>

definition legacy_value :: "string \<Rightarrow> string" where
  "legacy_value v = (if length v < PROP_VALUE_MAX then v else kLongLegacyError)"

lemma record_bytes:
  assumes "rec_ok a nm off" "info_at a off = Some i"
  shows "take (Suc (SERIAL_VALUE_LEN (pi_serial i))) (value_bytes (pi_value i)) = legacy_value (record_value a off) @ [CHR 0x00]"
    and "length (legacy_value (record_value a off)) = SERIAL_VALUE_LEN (pi_serial i)"
    and "is_read_only nm \<and> is_long i \<longleftrightarrow> length (record_value a off) \<ge> PROP_VALUE_MAX"
proof -
  have i: "pi_name i = nm" "case pi_value i of Value b \<Rightarrow> short_ok i b | LongProperty x d \<Rightarrow> long_ok a off i x d"
    using assms by (auto simp: rec_ok_def)
  have "take (Suc (SERIAL_VALUE_LEN (pi_serial i))) (value_bytes (pi_value i)) = legacy_value (record_value a off) @ [CHR 0x00] \<and>
    length (legacy_value (record_value a off)) = SERIAL_VALUE_LEN (pi_serial i) \<and>
    (is_read_only nm \<and> is_long i \<longleftrightarrow> length (record_value a off) \<ge> PROP_VALUE_MAX)"
  proof (cases "pi_value i")
    case (Value b)
    let ?n = "SERIAL_VALUE_LEN (pi_serial i)"
    have b: "length b = PROP_VALUE_MAX" "?n < PROP_VALUE_MAX" "c_string (take ?n b)" "b ! ?n = CHR 0x00"
      "is_read_only nm \<longrightarrow> \<not> is_long i"
      using i Value by (auto simp: short_ok_def)
    have split: "b = take ?n b @ CHR 0x00 # drop (Suc ?n) b"
      using b(1,2,4) id_take_nth_drop [of ?n b] by simp
    then have "c_str b = take ?n b"
      using c_str_append_NUL [OF b(3)] by metis
    then have "record_value a off = take ?n b"
      using assms(2) Value by (simp add: record_value_def)
    then show ?thesis
      using Value b by (auto simp: legacy_value_def take_Suc_conv_app_nth)
  next
    case (LongProperty x d)
    then have x: "long_ok a off i x d"
      using i by simp
    then have "PROP_VALUE_MAX \<le> length (record_value a off)"
      using assms(2) LongProperty by (auto simp: record_value_def long_at_def long_ok_def)
    then show ?thesis
      using x LongProperty i(1) by (auto simp: long_ok_def legacy_value_def)
  qed
  then show "take (Suc (SERIAL_VALUE_LEN (pi_serial i))) (value_bytes (pi_value i)) = legacy_value (record_value a off) @ [CHR 0x00]"
    "length (legacy_value (record_value a off)) = SERIAL_VALUE_LEN (pi_serial i)"
    "is_read_only nm \<and> is_long i \<longleftrightarrow> length (record_value a off) \<ge> PROP_VALUE_MAX"
    by blast+
qed

lemma long_value_record:
  assumes "rec_ok (pf_area f) nm off" "info_at (pf_area f) off = Some i" "w p = Some f"
    and "length (record_value (pf_area f) off) \<ge> PROP_VALUE_MAX"
  shows "long_value w (p, off) i = Ok (record_value (pf_area f) off)"
proof -
  have "is_read_only nm \<and> is_long i"
    using record_bytes(3) [OF assms(1,2)] assms(4) by simp
  then show ?thesis
    using assms(1-3)
    by (auto simp: rec_ok_def short_ok_def long_ok_def long_value_def area_ops record_value_def long_at_def
        split: prop_value.splits)
qed

lemma read_mutable:
  assumes "rec_ok (pf_area f) nm off" "info_at (pf_area f) off = Some i" "w p = Some f" "length buf \<ge> PROP_VALUE_MAX"
  shows "ReadMutablePropertyValue e w sp (p, off) buf =
    Ok (sp, pi_serial i, legacy_value (record_value (pf_area f) off) @ CHR 0x00 # drop (Suc (SERIAL_VALUE_LEN (pi_serial i))) buf)"
proof -
  have "SERIAL_DIRTY (pi_serial i) = 0"
    using assms(1,2) by (auto simp: rec_ok_def)
  then show ?thesis
    using assms(4) length_value_bytes [OF assms(1,2)] record_bytes(1) [OF assms(1,2)]
    by (simp add: ReadMutablePropertyValue_def area_ops assms(2,3) copy_bytes_def memcpy_def Let_def)
qed

lemma read_callback:
  assumes "rec_ok (pf_area f) nm off" "info_at (pf_area f) off = Some i" "w p = Some f"
  shows "ReadCallback e w sp (p, off) = Ok (sp, nm, record_value (pf_area f) off, pi_serial i)"
proof -
  have nm: "pi_name i = nm"
    using assms(1,2) by (auto simp: rec_ok_def)
  let ?v = "record_value (pf_area f) off"
  show ?thesis
  proof (cases "length ?v \<ge> PROP_VALUE_MAX")
    case True
    then show ?thesis
      using record_bytes(3) [OF assms(1,2)] long_value_record [where w = w and p = p, OF assms True] nm
      by (simp add: ReadCallback_def area_ops assms(2,3))
  next
    case False
    then have short: "\<not> (is_read_only nm \<and> is_long i)" "legacy_value ?v = ?v"
      using record_bytes(3) [OF assms(1,2)] by (auto simp: legacy_value_def)
    have v: "?v = c_str (value_bytes (pi_value i))"
      using short(1) assms(1,2) by (auto simp: rec_ok_def record_value_def long_ok_def split: prop_value.splits)
    then have "c_string ?v"
      by simp
    then have "c_str (?v @ CHR 0x00 # x) = ?v" for x
      by simp
    then show ?thesis
      using read_mutable [where w = w and p = p, OF assms, of "zero_bytes PROP_VALUE_MAX" e sp] short nm v
      by (simp add: ReadCallback_def area_ops assms(2,3) zero_bytes_def)
  qed
qed

lemma read_record:
  assumes "rec_ok (pf_area f) nm off" "info_at (pf_area f) off = Some i" "w p = Some f" "length buf \<ge> PROP_VALUE_MAX"
  shows "Read e w sp (p, off) None buf =
    Ok (sp, None, legacy_value (record_value (pf_area f) off) @ CHR 0x00 # drop (Suc (SERIAL_VALUE_LEN (pi_serial i))) buf,
        int (length (legacy_value (record_value (pf_area f) off))))"
proof -
  have nm: "pi_name i = nm"
    using assms(1,2) by (auto simp: rec_ok_def)
  have "is_read_only nm \<and> is_long i \<Longrightarrow> long_value w (p, off) i = Ok (record_value (pf_area f) off)"
    using long_value_record [where w = w and p = p, OF assms(1-3)] record_bytes(3) [OF assms(1,2)] by blast
  then show ?thesis
    using nm record_bytes(2) [OF assms(1,2)]
    by (auto simp: Read_def read_mutable [where w = w and p = p, OF assms] area_ops assms(2,3) Let_def)
qed

section \<open>Updating\<close>

lemma store_obj_twice [simp]: "store_obj (store_obj a off x) off y = store_obj a off y"
  by (simp add: store_obj_def)

lemma Update_writes_none:
  assumes "w p = Some f" "info_at (pf_area f) off = Some i" "length (value_bytes (pi_value i)) = PROP_VALUE_MAX"
    and "SERIAL_VALUE_LEN (pi_serial i) < PROP_VALUE_MAX" "length (dirty_backup_area (pf_area f)) = PROP_VALUE_MAX"
    and "len \<le> length v" "len < PROP_VALUE_MAX"
  shows "\<exists>b. length b = PROP_VALUE_MAX \<and>
    Update_writes w s p (p, off) None v len =
      bump_serial (w(p \<mapsto> f\<lparr>pf_area := store_obj ((pf_area f)\<lparr>dirty_backup_area := b\<rparr>) off
        (Info ((store_value v len i)\<lparr>pi_serial := next_serial (pi_name i) len (pi_serial i OR 1)\<rparr>))\<rparr>)) s"
proof -
  let ?b = "memcpy (dirty_backup_area (pf_area f)) (value_bytes (pi_value i)) (SERIAL_VALUE_LEN (pi_serial i) + 1)"
  have upd: "info_at (a\<lparr>dirty_backup_area := b\<rparr>) x = info_at a x" for a :: prop_area and b x
    by (simp add: info_at_def)
  have "length ?b = PROP_VALUE_MAX"
    using assms(3-5) by simp
  moreover have "Update_writes w s p (p, off) None v len =
      bump_serial (w(p \<mapsto> f\<lparr>pf_area := store_obj ((pf_area f)\<lparr>dirty_backup_area := ?b\<rparr>) off
        (Info ((store_value v len i)\<lparr>pi_serial := next_serial (pi_name i) len (pi_serial i OR 1)\<rparr>))\<rparr>)) s"
    using assms
    by (simp add: Update_writes_def backup_value_def set_serial_def write_value_def when_some_def Let_def
        area_ops copy_bytes_def upd store_value_def cong: if_cong)
      (cases "bump_serial (w(p \<mapsto> f\<lparr>pf_area := store_obj ((pf_area f)\<lparr>dirty_backup_area := ?b\<rparr>) off
        (Info ((store_value v len i)\<lparr>pi_serial := next_serial (pi_name i) len (pi_serial i OR 1)\<rparr>))\<rparr>)) s";
        simp add: store_value_def)
  ultimately show ?thesis
    by blast
qed

lemma short_ok_stored:
  assumes "length (value_bytes (pi_value i)) = PROP_VALUE_MAX" "c_string v" "length v < PROP_VALUE_MAX"
    and "pi_name i' = nm" "pi_serial i' = next_serial nm (length v) s"
  shows "short_ok i' (memcpy (value_bytes (pi_value i)) (v @ [CHR 0x00]) (length v + 1))"
proof -
  have "length v < 256"
    using assms(3) by (simp add: PROP_VALUE_MAX_def)
  then show ?thesis
    using assms not_long_next [of nm "length v" s]
    by (auto simp: short_ok_def is_long_bit memcpy_def nth_append)
qed

lemma Update_found:
  assumes ok: "service_ok e w sp" and nm: "c_string nm" and v: "c_string v" "length v < PROP_VALUE_MAX"
    and view: "service_view e w sp nm \<noteq> None"
  shows "\<exists>pi w' x. Find e w sp nm = Ok (sp, Some pi) \<and> Update e w sp pi v (length v) = Ok (w', sp, 0) \<and>
    service_ok e w' sp \<and> AreaSerial w sp = Ok x \<and> AreaSerial w' sp = Ok (x + 1) \<and>
    (\<forall>m. c_string m \<longrightarrow> service_view e w' sp m = ((service_view e w sp)(nm \<mapsto> v)) m)"
  using ok nm
proof (cases rule: service_find)
  case none
  then show ?thesis
    using view by simp
next
  case (found c s p f off i)
  have len: "length (value_bytes (pi_value i)) = PROP_VALUE_MAX" "SERIAL_VALUE_LEN (pi_serial i) < PROP_VALUE_MAX"
    using length_value_bytes [OF found(9,7)] by simp_all
  have bkp: "length (dirty_backup_area (pf_area f)) = PROP_VALUE_MAX"
    using found(5) by (simp add: area_good_def)
  let ?i = "(store_value v (length v) i)\<lparr>pi_serial := next_serial (pi_name i) (length v) (pi_serial i OR 1)\<rparr>"
  obtain b where b: "length b = PROP_VALUE_MAX" "Update_writes w s p (p, off) None v (length v) =
      bump_serial (w(p \<mapsto> f\<lparr>pf_area := store_obj ((pf_area f)\<lparr>dirty_backup_area := b\<rparr>) off (Info ?i)\<rparr>)) s"
    using Update_writes_none [where w = w and p = p, OF found(4,7) len bkp order_refl v(2)] by blast
  let ?a1 = "(pf_area f)\<lparr>dirty_backup_area := b\<rparr>"
  let ?a2 = "store_obj ?a1 off (Info ?i)"
  let ?w = "w(p \<mapsto> f\<lparr>pf_area := ?a2\<rparr>)"
  have a1: "area_good ?a1" "\<And>m. c_string m \<Longrightarrow> props_of ?a1 m = props_of (pf_area f) m" "pa_find ?a1 nm = Some (Some off)"
    using area_good_header [OF found(5), of ?a1] b(1) nm found(6) by simp_all
  have i1: "info_at ?a1 off = Some i"
    using found(7) by (simp add: info_at_def)
  have a2: "area_good ?a2" "\<And>m. c_string m \<Longrightarrow> props_of ?a2 m = ((props_of (pf_area f))(nm \<mapsto> v)) m"
    using area_good_replace [OF a1(1) nm a1(3) i1, of ?i] a1(2) found(8) v(1)
      short_ok_stored [OF len(1) v, of ?i nm "pi_serial i OR 1"]
    by (simp_all add: store_value_def)
  have ok1: "service_ok e ?w sp"
    using service_ok_step [OF ok set_area_step [OF ok found(4) a2(1)]] .
  have view1: "service_view e ?w sp m = ((service_view e w sp)(nm \<mapsto> v)) m" if "c_string m" for m
    using set_area_view [OF ok that found(4), of ?a2 "\<lambda>m x. if m = nm then Some v else x"] a2(2) found(1,3) by auto
  have ser1: "AreaSerial ?w sp = AreaSerial w sp"
    using AreaSerial_cong [OF ok found(4), of ?a2] by (simp add: store_obj_def)
  obtain w' x where w': "bump_serial ?w s = Ok w'" "service_ok e w' sp"
    "\<And>m. c_string m \<Longrightarrow> service_view e w' sp m = service_view e ?w sp m"
    "AreaSerial ?w sp = Ok x" "AreaSerial w' sp = Ok (x + 1)"
    using bump_serial_ok [OF ok1 found(1,2)] by blast
  have "Update e w sp (p, off) v (length v) = Ok (w', sp, 0)"
    using ok v(2) found(1,2,7,8,12) b(2) w'(1)
    by (simp add: Update_def service_ok_def area_ops found(4))
  then show ?thesis
    using found(11) w' view1 ser1 by (intro exI [of _ "(p, off)"] exI [of _ w'] exI [of _ x]) simp
qed

section \<open>Histories\<close>

text \<open>
  The contract a client of the service relies on: each request returns, keeps the invariant, and
  either changes the map as requested and advances the serial of the service by one, or changes
  nothing.
\<close>

datatype request = AddReq string string | UpdateReq string string

fun apply_request :: "request \<Rightarrow> (string \<Rightarrow> string option) \<Rightarrow> string \<Rightarrow> string option" where
  "apply_request (AddReq nm v) m = (if m nm = None then m(nm \<mapsto> v) else m)"
| "apply_request (UpdateReq nm v) m = m(nm \<mapsto> v)"

fun request_ok :: "request \<Rightarrow> bool" where
  "request_ok (AddReq nm v) = (c_string nm \<and> nm \<noteq> [] \<and> c_string v \<and> length v + 1 < 2 ^ 32)"
| "request_ok (UpdateReq nm v) = (c_string nm \<and> c_string v \<and> length v < PROP_VALUE_MAX)"

definition same_map :: "(string \<Rightarrow> string option) \<Rightarrow> (string \<Rightarrow> string option) \<Rightarrow> bool" where
  "same_map m m' \<longleftrightarrow> (\<forall>nm. c_string nm \<longrightarrow> m nm = m' nm)"

lemma same_map_apply: "same_map m m' \<Longrightarrow> request_ok r \<Longrightarrow> same_map (apply_request r m) (apply_request r m')"
  by (cases r) (auto simp: same_map_def)

definition apply_accepted :: "request \<times> bool \<Rightarrow> (string \<Rightarrow> string option) \<Rightarrow> string \<Rightarrow> string option" where
  "apply_accepted rb m = (if snd rb then apply_request (fst rb) m else m)"

lemma same_map_fold:
  "same_map m m' \<Longrightarrow> \<forall>r \<in> set rs. request_ok r \<Longrightarrow>
   same_map (fold apply_accepted (zip rs bs) m) (fold apply_accepted (zip rs bs) m')"
proof (induction rs arbitrary: bs m m')
  case (Cons r rs)
  show ?case
  proof (cases bs)
    case (Cons b bs')
    have "same_map (apply_accepted (r, b) m) (apply_accepted (r, b) m')"
      using Cons.prems same_map_apply by (simp add: apply_accepted_def)
    then show ?thesis
      using Cons Cons.IH Cons.prems(2) by simp
  qed (simp add: Cons.prems)
qed simp

locale property_machine =
  fixes inv :: "'s \<Rightarrow> bool"
    and view :: "'s \<Rightarrow> string \<Rightarrow> string option"
    and serial :: "'s \<Rightarrow> u32"
    and exec :: "'s \<Rightarrow> request \<Rightarrow> ('s \<times> bool) res"
  assumes exec_step: "inv s \<Longrightarrow> request_ok r \<Longrightarrow>
    \<exists>s' b. exec s r = Ok (s', b) \<and> inv s' \<and>
      same_map (view s') (if b then apply_request r (view s) else view s) \<and>
      serial s' = (if b then serial s + 1 else serial s)"
begin

primrec run :: "'s \<Rightarrow> request list \<Rightarrow> ('s \<times> bool list) res" where
  "run s [] = Ok (s, [])"
| "run s (r # rs) =
     res_bind (exec s r) (\<lambda>(s', b). res_bind (run s' rs) (\<lambda>(s'', bs). Ok (s'', b # bs)))"

lemma run_history:
  "inv s \<Longrightarrow> \<forall>r \<in> set rs. request_ok r \<Longrightarrow>
   \<exists>s' bs. run s rs = Ok (s', bs) \<and> inv s' \<and> length bs = length rs \<and>
     same_map (view s') (fold apply_accepted (zip rs bs) (view s)) \<and>
     serial s' = serial s + of_nat (length (filter (\<lambda>b. b) bs))"
proof (induction rs arbitrary: s)
  case Nil
  then show ?case
    by (simp add: same_map_def)
next
  case (Cons r rs)
  obtain s1 b where e: "exec s r = Ok (s1, b)" "inv s1"
    "same_map (view s1) (if b then apply_request r (view s) else view s)"
    "serial s1 = (if b then serial s + 1 else serial s)"
    using exec_step [OF Cons.prems(1), of r] Cons.prems(2) by auto
  obtain s2 bs where i: "run s1 rs = Ok (s2, bs)" "inv s2" "length bs = length rs"
    "same_map (view s2) (fold apply_accepted (zip rs bs) (view s1))"
    "serial s2 = serial s1 + of_nat (length (filter (\<lambda>b. b) bs))"
    using Cons.IH [OF e(2)] Cons.prems(2) by auto
  have "same_map (fold apply_accepted (zip rs bs) (view s1)) (fold apply_accepted (zip (r # rs) (b # bs)) (view s))"
    using same_map_fold [of "view s1" "apply_accepted (r, b) (view s)" rs bs] e(3) Cons.prems(2)
    by (cases b) (simp_all add: apply_accepted_def)
  then have "same_map (view s2) (fold apply_accepted (zip (r # rs) (b # bs)) (view s))"
    using i(4) by (simp add: same_map_def)
  then show ?case
    using e(1,4) i(1,2,3,5) by (intro exI [of _ s2] exI [of _ "b # bs"]) simp
qed

end

text \<open>A request to the model: \<open>Add\<close>, or \<open>Find\<close> followed by \<open>Update\<close> of the record that was found.\<close>

fun run_request :: "sysenv \<Rightarrow> world \<times> sys_props \<Rightarrow> request \<Rightarrow> ((world \<times> sys_props) \<times> bool) res" where
  "run_request e (w, sp) (AddReq nm v) =
     res_bind (Add e w sp nm (length nm) v (length v)) (\<lambda>(w', sp', r). Ok ((w', sp'), r = 0))"
| "run_request e (w, sp) (UpdateReq nm v) =
     res_bind (Find e w sp nm)
       (\<lambda>(sp', pi). case pi of
           None \<Rightarrow> Ok ((w, sp'), False)
         | Some p \<Rightarrow> res_bind (Update e w sp' p v (length v)) (\<lambda>(w', sp'', r). Ok ((w', sp''), r = 0)))"

fun run_requests :: "sysenv \<Rightarrow> world \<times> sys_props \<Rightarrow> request list \<Rightarrow> ((world \<times> sys_props) \<times> bool list) res" where
  "run_requests e s [] = Ok (s, [])"
| "run_requests e s (r # rs) =
     res_bind (run_request e s r)
       (\<lambda>(s', b). res_bind (run_requests e s' rs) (\<lambda>(s'', bs). Ok (s'', b # bs)))"

definition serial_of :: "world \<times> sys_props \<Rightarrow> u32" where
  "serial_of s = (case AreaSerial (fst s) (snd s) of Ok x \<Rightarrow> x | _ \<Rightarrow> 0)"

lemma run_request_add:
  assumes "service_ok e w sp" "request_ok (AddReq nm v)"
  shows "\<exists>s' b. run_request e (w, sp) (AddReq nm v) = Ok (s', b) \<and> service_ok e (fst s') (snd s') \<and>
    same_map (service_view e (fst s') (snd s'))
      (if b then apply_request (AddReq nm v) (service_view e w sp) else service_view e w sp) \<and>
    serial_of s' = (if b then serial_of (w, sp) + 1 else serial_of (w, sp))"
proof -
  have p: "c_string nm" "nm \<noteq> []" "c_string v" "length v + 1 < 2 ^ 32"
    using assms(2) by simp_all
  obtain w' r where a: "Add e w sp nm (length nm) v (length v) = Ok (w', sp, r)" "service_ok e w' sp"
    and b: "if r = 0 then
       service_view e w' sp nm \<noteq> None \<and>
       (\<forall>m. c_string m \<longrightarrow> service_view e w' sp m =
          (if m = nm \<and> service_view e w sp nm = None then Some v else service_view e w sp m)) \<and>
       (\<exists>x. AreaSerial w sp = Ok x \<and> AreaSerial w' sp = Ok (x + 1))
     else r = -1 \<and> AreaSerial w' sp = AreaSerial w sp \<and>
       (\<forall>m. c_string m \<longrightarrow> service_view e w' sp m = service_view e w sp m)"
    using Add_cases [OF assms(1) p] by blast
  show ?thesis
    using a b by (intro exI [of _ "(w', sp)"] exI [of _ "r = 0"]) (auto simp: same_map_def serial_of_def)
qed

lemma run_request_update:
  assumes "service_ok e w sp" "request_ok (UpdateReq nm v)"
  shows "\<exists>s' b. run_request e (w, sp) (UpdateReq nm v) = Ok (s', b) \<and> service_ok e (fst s') (snd s') \<and>
    same_map (service_view e (fst s') (snd s'))
      (if b then apply_request (UpdateReq nm v) (service_view e w sp) else service_view e w sp) \<and>
    serial_of s' = (if b then serial_of (w, sp) + 1 else serial_of (w, sp))"
proof (cases "service_view e w sp nm")
  case None
  have "Find e w sp nm = Ok (sp, None)"
    using assms None service_find [of e w sp nm] by (metis option.distinct(1) request_ok.simps(2))
  then show ?thesis
    using assms(1) by (intro exI [of _ "(w, sp)"] exI [of _ False]) (simp add: same_map_def)
next
  case (Some y)
  have p: "c_string nm" "c_string v" "length v < PROP_VALUE_MAX" "service_view e w sp nm \<noteq> None"
    using assms(2) Some by simp_all
  obtain pi w' x where "Find e w sp nm = Ok (sp, Some pi)" "Update e w sp pi v (length v) = Ok (w', sp, 0)"
    "service_ok e w' sp" "AreaSerial w sp = Ok x" "AreaSerial w' sp = Ok (x + 1)"
    "\<forall>m. c_string m \<longrightarrow> service_view e w' sp m = ((service_view e w sp)(nm \<mapsto> v)) m"
    using Update_found [OF assms(1) p] by blast
  then show ?thesis
    by (intro exI [of _ "(w', sp)"] exI [of _ True]) (simp add: same_map_def serial_of_def)
qed

interpretation service: property_machine
  "\<lambda>s. service_ok e (fst s) (snd s)" "\<lambda>s. service_view e (fst s) (snd s)" serial_of "run_request e" for e
proof (unfold_locales, goal_cases)
  case (1 s r)
  show ?case
    using run_request_add [OF 1(1)] run_request_update [OF 1(1)] 1(2) unfolding prod.collapse by (cases r) blast+
qed

lemma run_requests_run: "run_requests e s rs = service.run e s rs"
  by (induction rs arbitrary: s) auto

section \<open>The properties of the service\<close>

text \<open>A service with one property file, in which nothing is set yet.\<close>

definition demo_env :: sysenv where
  "demo_env = \<lparr>se_open_rw = (\<lambda>_. OpenOk), se_open_ro = (\<lambda>_. True), se_fsetxattr = (\<lambda>_. True),
     se_ftruncate = (\<lambda>_. True), se_fstat = (\<lambda>_. True), se_mmap = (\<lambda>_. True), se_access = (\<lambda>_. True),
     se_is_dir = (\<lambda>_. False), se_prop_tree_file = ''/dev/__properties__/property_info'', se_uid = 0, se_gid = 0,
     se_lines = (\<lambda>_. None), se_info_contexts = (\<lambda>_. None), se_info_index = (\<lambda>_. 0),
     se_anon_mmap = True, se_override_env = False, se_init_or_root = True\<rparr>"

definition demo_path :: string where "demo_path = ''/dev/__properties__''"

definition demo_props :: sys_props where
  "demo_props = \<lparr>sys_contexts = Some (PreSplit (Some demo_path)), sys_override_contexts = None, sys_initialized = True,
     sys_use_appcompat_override = False, sys_properties_filename = demo_path, sys_appcompat_filename = []\<rparr>"

definition demo_world :: world where
  "demo_world = [demo_path \<mapsto> \<lparr>pf_uid = 0, pf_gid = 0, pf_mode = 292, pf_size = PA_SIZE, pf_area = example_area\<rparr>]"

lemma example_area_find: "c_string nm \<Longrightarrow> pa_find example_area nm = Some None"
proof -
  assume nm: "c_string nm"
  have "area_ok example_area \<and> trie_of example_area PLeaf"
    by (auto simp: example_area_def area_ok_def heap_ok_def trie_of_def subtree_def new_prop_area_def
        new_trie_node_def sizeof_prop_trie_node_def PROP_VALUE_MAX_def align_up_def PA_SIZE_def sizeof_prop_area_def)
  then show ?thesis
    using pa_find_lookup [OF _ _ nm] by (cases "segs nm") (auto simp: lookup_of_def)
qed

lemma area_good_example: "area_good example_area"
  using wf_example_area example_area_find
  by (simp add: area_good_def example_area_def new_prop_area_def zero_bytes_def)

lemma demo_ok: "service_ok demo_env demo_world demo_props"
  using area_good_example by (simp add: service_ok_def demo_props_def demo_world_def)

definition demo_world1 :: world where
  "demo_world1 = [demo_path \<mapsto> \<lparr>pf_uid = 0, pf_gid = 0, pf_mode = 292, pf_size = PA_SIZE, pf_area = example_area1\<rparr>]"

lemma demo1:
  "service_ok demo_env demo_world1 demo_props" "service_view demo_env demo_world1 demo_props ''ro.secure'' = Some ''1''"
proof -
  have h: "c_string ''ro.secure''" "c_string ''1''" "length ''1'' + 1 < 2 ^ 32"
    "length ''1'' < PROP_VALUE_MAX \<or> is_read_only ''ro.secure''"
    by (simp_all add: PROP_VALUE_MAX_def)
  obtain a' ok where a: "pa_add example_area ''ro.secure'' (length ''ro.secure'') ''1'' (length ''1'') = Some (a', ok)"
    "area_good a'" "ok \<longleftrightarrow> props_of a' ''ro.secure'' \<noteq> None"
    and p: "\<And>nm. c_string nm \<Longrightarrow> props_of a' nm =
      (if ok \<and> nm = ''ro.secure'' \<and> props_of example_area ''ro.secure'' = None then Some ''1'' else props_of example_area nm)"
    using area_good_add [OF area_good_example h] by blast
  have e: "a' = example_area1"
    using a(1) by (simp add: example_area1_def)
  have "props_of example_area ''ro.secure'' = None"
    using example_area_find [OF h(1)] by (simp add: props_of_def)
  moreover have "props_of a' ''ro.secure'' \<noteq> None"
    unfolding e by (simp add: props_of_def example_area1_find)
  ultimately have v: "props_of example_area1 ''ro.secure'' = Some ''1''"
    using a(3) p [OF h(1)] unfolding e by presburger
  show "service_ok demo_env demo_world1 demo_props"
    using a(2) unfolding e by (simp add: service_ok_def demo_props_def demo_world1_def)
  show "service_view demo_env demo_world1 demo_props ''ro.secure'' = Some ''1''"
    using v by (simp add: service_view_def demo_props_def demo_world1_def)
qed

text \<open>
  C5: \<open>Add\<close> implements insertion into a map. On a well-formed service it returns and keeps the service
  well formed. When it reports success the name is bound, to the given value if it was unbound and to
  what it was bound to before otherwise, every other name keeps its value, and the serial of the
  service has advanced by one; when it reports failure nothing has changed. This holds for long values
  of read-only properties as well, and whichever contexts route the name.
\<close>

theorem service_add:
  assumes "service_ok e w sp" "c_string nm" "nm \<noteq> []" "c_string v" "length v + 1 < 2 ^ 32"
  shows "\<exists>w' r. Add e w sp nm (length nm) v (length v) = Ok (w', sp, r) \<and> service_ok e w' sp \<and>
    (if r = 0 then
       service_view e w' sp nm \<noteq> None \<and>
       (\<forall>m. c_string m \<longrightarrow> service_view e w' sp m =
          (if m = nm \<and> service_view e w sp nm = None then Some v else service_view e w sp m)) \<and>
       (\<exists>x. AreaSerial w sp = Ok x \<and> AreaSerial w' sp = Ok (x + 1))
     else r = -1 \<and> AreaSerial w' sp = AreaSerial w sp \<and>
       (\<forall>m. c_string m \<longrightarrow> service_view e w' sp m = service_view e w sp m))"
  using assms by (rule Add_cases)

theorem service_add_witness:
  "\<exists>w' r. Add demo_env demo_world demo_props ''ro.secure'' (length ''ro.secure'') ''1'' (length ''1'') = Ok (w', demo_props, r) \<and>
     service_ok demo_env w' demo_props"
proof -
  have h: "c_string ''ro.secure''" "''ro.secure'' \<noteq> []" "c_string ''1''" "length ''1'' + 1 < 2 ^ 32"
    by simp_all
  show ?thesis
    using service_add [OF demo_ok h] by blast
qed

text \<open>
  C6: \<open>Update\<close> implements map update. For a name that is bound, \<open>Find\<close> returns a record and \<open>Update\<close> of
  that record with a value of fewer than \<open>PROP_VALUE_MAX\<close> characters succeeds, binds the name to the
  value, keeps every other name, and advances the serial of the service by one.
\<close>

theorem service_update:
  assumes "service_ok e w sp" "c_string nm" "c_string v" "length v < PROP_VALUE_MAX" "service_view e w sp nm \<noteq> None"
  shows "\<exists>pi w' x. Find e w sp nm = Ok (sp, Some pi) \<and> Update e w sp pi v (length v) = Ok (w', sp, 0) \<and>
    service_ok e w' sp \<and> AreaSerial w sp = Ok x \<and> AreaSerial w' sp = Ok (x + 1) \<and>
    (\<forall>m. c_string m \<longrightarrow> service_view e w' sp m = ((service_view e w sp)(nm \<mapsto> v)) m)"
  using assms by (rule Update_found)

theorem service_update_witness:
  "\<exists>pi w'. Update demo_env demo_world1 demo_props pi ''0'' (length ''0'') = Ok (w', demo_props, 0) \<and>
     service_view demo_env w' demo_props ''ro.secure'' = Some ''0''"
proof -
  have h: "c_string ''ro.secure''" "c_string ''0''" "length ''0'' < PROP_VALUE_MAX"
    "service_view demo_env demo_world1 demo_props ''ro.secure'' \<noteq> None"
    using demo1(2) by (simp_all add: PROP_VALUE_MAX_def)
  show ?thesis
    using service_update [OF demo1(1) h] h(1) by (metis fun_upd_same)
qed

text \<open>
  C7: Readers see the map. An unbound name reads as the empty string. For a bound name \<open>Find\<close> returns a
  record, \<open>ReadCallback\<close> on it passes on the name and its whole value, and \<open>Get\<close> stores the value with its
  terminator into a buffer of \<open>PROP_VALUE_MAX\<close> bytes and returns its length, or stores the message that
  stands for a value that is too long for the buffer.
\<close>

theorem service_get:
  assumes "service_ok e w sp" "c_string nm" "length buf = PROP_VALUE_MAX"
  shows "case service_view e w sp nm of
      None \<Rightarrow> Get e w sp nm buf = Ok (sp, buf[0 := CHR 0x00], 0)
    | Some v \<Rightarrow> (\<exists>pi serial rest. Find e w sp nm = Ok (sp, Some pi) \<and>
        ReadCallback e w sp pi = Ok (sp, nm, v, serial) \<and>
        Get e w sp nm buf = Ok (sp, legacy_value v @ CHR 0x00 # rest, int (length (legacy_value v))) \<and>
        length (legacy_value v @ CHR 0x00 # rest) = PROP_VALUE_MAX)"
  using assms(1,2)
proof (cases rule: service_find)
  case none
  then show ?thesis
    by (simp add: Get_def)
next
  case (found c s p f off i)
  have buf: "length buf \<ge> PROP_VALUE_MAX"
    using assms(3) by simp
  have len: "length (legacy_value (record_value (pf_area f) off)) = SERIAL_VALUE_LEN (pi_serial i)"
    "SERIAL_VALUE_LEN (pi_serial i) < PROP_VALUE_MAX"
    using record_bytes(2) length_value_bytes found(7,9) by blast+
  show ?thesis
    using found(10,11) assms(3) len
      read_callback [where w = w and p = p, OF found(9,7,4), of e sp]
      read_record [where w = w and p = p, OF found(9,7,4) buf, of e sp]
    by (simp add: Get_def)
qed

theorem service_get_witness:
  "\<exists>rest. Get demo_env demo_world1 demo_props ''ro.secure'' (zero_bytes PROP_VALUE_MAX) = Ok (demo_props, ''1'' @ CHR 0x00 # rest, 1)"
proof -
  have "c_string ''ro.secure''" "length (zero_bytes PROP_VALUE_MAX) = PROP_VALUE_MAX" "legacy_value ''1'' = ''1''"
    by (simp_all add: zero_bytes_def legacy_value_def PROP_VALUE_MAX_def)
  then show ?thesis
    using service_get [OF demo1(1), of "''ro.secure''" "zero_bytes PROP_VALUE_MAX"] demo1(2) by auto
qed

text \<open>
  C8: Any history of the service is a history of the map. A sequence of insertions and of updates
  returns, reports for each request whether it was accepted, and leaves exactly the bindings that the
  accepted requests make on the initial map, in order; the serial of the service has advanced by the
  number of accepted requests.
\<close>

theorem service_history:
  assumes "service_ok e (fst s) (snd s)" "\<forall>r \<in> set rs. request_ok r"
  shows "\<exists>s' bs. run_requests e s rs = Ok (s', bs) \<and> service_ok e (fst s') (snd s') \<and> length bs = length rs \<and>
    same_map (service_view e (fst s') (snd s')) (fold apply_accepted (zip rs bs) (service_view e (fst s) (snd s))) \<and>
    serial_of s' = serial_of s + of_nat (length (filter (\<lambda>b. b) bs))"
  unfolding run_requests_run using assms by (rule service.run_history)

theorem service_history_witness:
  "\<exists>s' bs. run_requests demo_env (demo_world, demo_props) [AddReq ''ro.secure'' ''1'', UpdateReq ''ro.secure'' ''0''] = Ok (s', bs) \<and>
     service_ok demo_env (fst s') (snd s') \<and> length bs = 2"
proof -
  have h: "\<forall>r \<in> set [AddReq ''ro.secure'' ''1'', UpdateReq ''ro.secure'' ''0'']. request_ok r"
    by (simp add: PROP_VALUE_MAX_def)
  show ?thesis
    using service_history [of demo_env "(demo_world, demo_props)", OF _ h] demo_ok by auto
qed

text \<open>
  C37: Overriding a property a second time leaves its old length in place. When \<open>Add\<close> of an appcompat
  override finds the property in the override area it copies the new value over the old one, but the
  length that every reader takes from the serial of the record stays that of the old value.
\<close>

theorem override_keeps_old_length:
  assumes "is_appcompat_override nm" "override_name = drop (length APPCOMPAT_PREFIX) nm"
    and "override_area_for_name e w sp override_name = Ok (sp', Some op)" "GetSerialPropArea oc = Some s"
    and "area_find w op override_name = Ok (Some opi)" "deref w opi = Ok i" "se_init_or_root e"
    and "c_string v" "length v < PROP_VALUE_MAX"
  shows "\<exists>w' i'. Add_override e w sp oc nm v (length v) = Ok (w', sp') \<and> deref w' opi = Ok i' \<and>
    c_str (value_bytes (pi_value i')) = v \<and> SERIAL_VALUE_LEN (pi_serial i') = SERIAL_VALUE_LEN (pi_serial i)"
proof -
  obtain p off where opi: "opi = (p, off)"
    by (cases opi) auto
  obtain f where f: "w p = Some f" "info_at (pf_area f) off = Some i"
    using assms(6) unfolding opi by (auto simp: deref_def area_at_def of_option_def split: option.splits)
  let ?i = "store_value v (length v) i"
  let ?w = "w(p \<mapsto> f\<lparr>pf_area := store_obj (pf_area f) off (Info ?i)\<rparr>)"
  have "write_value w opi v (length v) = Ok ?w"
    using assms(9) by (simp add: write_value_def opi mod_info_Some [where w = w and p = p, OF f])
  then have "Add_override e w sp oc nm v (length v) = Ok (?w, sp')"
    using assms(1-5,7) by (simp add: Add_override_def Let_def)
  moreover have "deref ?w opi = Ok ?i"
    by (simp add: opi deref_def area_at_def of_option_def)
  moreover have "c_str (value_bytes (pi_value ?i)) = v"
    using assms(8) by (simp add: store_value_def)
  ultimately show ?thesis
    by (intro exI [of _ ?w] exI [of _ ?i]) (simp add: store_value_def)
qed

lemma example_area1_info:
  "info_at example_area1 164 = Some (prop_info_short ''ro.secure'' (length ''ro.secure'') ''1'' 1)"
proof -
  have h: "c_string ''ro.secure''" "(1::nat) + 1 < 2 ^ 32"
    by simp_all
  obtain pa' ok where a: "pa_add example_area ''ro.secure'' (length ''ro.secure'') ''1'' 1 = Some (pa', ok)"
    and s: "if ok then \<exists>off. pa_find pa' ''ro.secure'' = Some (Some off) \<and>
           (pa_find example_area ''ro.secure'' = Some None \<longrightarrow> stored pa' off ''ro.secure'' ''1'' 1) \<and>
           (\<forall>off0. pa_find example_area ''ro.secure'' = Some (Some off0) \<longrightarrow> off = off0)
     else pa_find example_area ''ro.secure'' = Some None \<and> pa_find pa' ''ro.secure'' = Some None"
    using wf_area_add [OF wf_example_area h, of "''1''"] by blast
  have "pa' = example_area1"
    unfolding example_area1_def a by simp
  then have "stored example_area1 164 ''ro.secure'' ''1'' 1"
    using s example_area1_find example_area_find [OF h(1)] by (cases ok) auto
  then show ?thesis
    by (auto simp: stored_def info_at_def PROP_VALUE_MAX_def)
qed

theorem override_keeps_old_length_witness:
  "\<exists>w' i'. Add_override demo_env demo_world1 (demo_props\<lparr>sys_override_contexts := Some (PreSplit (Some demo_path))\<rparr>)
       (PreSplit (Some demo_path)) ''ro.appcompat_override.ro.secure'' ''42'' (length ''42'') =
       Ok (w', demo_props\<lparr>sys_override_contexts := Some (PreSplit (Some demo_path))\<rparr>) \<and>
     deref w' (demo_path, 164) = Ok i' \<and> c_str (value_bytes (pi_value i')) = ''42'' \<and> SERIAL_VALUE_LEN (pi_serial i') = 1"
proof -
  let ?sp = "demo_props\<lparr>sys_override_contexts := Some (PreSplit (Some demo_path))\<rparr>"
  let ?n = "''ro.appcompat_override.ro.secure''"
  let ?i = "prop_info_short ''ro.secure'' (length ''ro.secure'') ''1'' 1"
  have n: "is_appcompat_override ?n" "''ro.secure'' = drop (length APPCOMPAT_PREFIX) ?n"
    by code_simp+
  have p: "override_area_for_name demo_env demo_world1 ?sp ''ro.secure'' = Ok (?sp, Some demo_path)"
    by (simp add: override_area_for_name_def the_contexts_def of_option_def)
  have s: "GetSerialPropArea (PreSplit (Some demo_path)) = Some demo_path"
    by simp
  have f: "area_find demo_world1 demo_path ''ro.secure'' = Ok (Some (demo_path, 164))"
    "deref demo_world1 (demo_path, 164) = Ok ?i"
    unfolding area_find_def deref_def area_at_def demo_world1_def of_option_def
    using example_area1_find example_area1_info by simp_all
  have r: "se_init_or_root demo_env" "c_string ''42''" "length ''42'' < PROP_VALUE_MAX"
    by (simp_all add: demo_env_def PROP_VALUE_MAX_def)
  have "SERIAL_VALUE_LEN (pi_serial ?i) = 1"
    using serial_len_short [of 1] by (simp add: prop_info_short_def)
  then show ?thesis
    using override_keeps_old_length [OF n p s f r] by auto
qed

end
