(* ===== verification/Property_Prefix.thy ===== *)
theory Property_Prefix
  imports Property_Contexts "HOL-Library.Sublist"
begin

text \<open>
  The prefix list of \<open>ContextsSplit\<close>: how it is built from the lines of a property_contexts file, its
  order, and that the first match is the entry of the longest listed prefix.
\<close>

section \<open>The files\<close>

text \<open>
  The format of a property_contexts file, independent of the code that reads it: white space and
  comment lines list nothing, and every other line lists a prefix and a context, separated by white space and
  perhaps followed by more columns. The prefixes that start with \<open>ctl.\<close> are for init only. A prefix that
  starts with an asterisk is the bare asterisk.
\<close>

definition word_ok :: "string \<Rightarrow> bool" where
  "word_ok s \<longleftrightarrow> s \<noteq> [] \<and> c_string s \<and> list_all (\<lambda>c. \<not> isspace_char c) s"

definition prefix_ok :: "string \<Rightarrow> bool" where
  "prefix_ok s \<longleftrightarrow> word_ok s \<and> hd s \<noteq> CHR ''#'' \<and> (hd s = CHR ''*'' \<longrightarrow> s = ''*'')"

definition spaces :: "string \<Rightarrow> bool" where
  "spaces s \<longleftrightarrow> list_all isspace_char s"

definition entry_line :: "string \<Rightarrow> string \<Rightarrow> string \<Rightarrow> bool" where
  "entry_line p c line \<longleftrightarrow> prefix_ok p \<and> word_ok c \<and>
     (\<exists>lead gap rest. line = lead @ p @ gap @ c @ rest \<and> spaces lead \<and> gap \<noteq> [] \<and> spaces gap \<and> (rest = [] \<or> isspace_char (hd rest)))"

definition silent_line :: "string \<Rightarrow> bool" where
  "silent_line line \<longleftrightarrow> line \<noteq> [] \<and> (\<exists>lead rest. line = lead @ rest \<and> spaces lead \<and> (rest = [] \<or> hd rest = CHR ''#''))"

inductive contexts_file :: "string list \<Rightarrow> (string \<times> string) list \<Rightarrow> bool" where
  empty: "contexts_file [] []"
| silent: "contexts_file ls es \<Longrightarrow> silent_line line \<Longrightarrow> contexts_file (ls @ [line]) es"
| ctl: "contexts_file ls es \<Longrightarrow> entry_line p c line \<Longrightarrow> prefix ''ctl.'' p \<Longrightarrow> contexts_file (ls @ [line]) es"
| entry: "contexts_file ls es \<Longrightarrow> entry_line p c line \<Longrightarrow> \<not> prefix ''ctl.'' p \<Longrightarrow> contexts_file (ls @ [line]) (es @ [(p, c)])"

section \<open>Reading a line\<close>

lemma dropWhile_spaces: "spaces s \<Longrightarrow> dropWhile isspace_char (s @ t) = dropWhile isspace_char t"
  by (simp add: spaces_def list_all_iff)

lemma word_head: "word_ok s \<Longrightarrow> \<exists>c t. s = c # t \<and> \<not> isspace_char c"
  by (cases s) (auto simp: word_ok_def)

lemma dropWhile_word: "word_ok s \<Longrightarrow> dropWhile isspace_char (s @ t) = s @ t"
  using word_head [of s] by auto

lemma takeWhile_word: "word_ok s \<Longrightarrow> t = [] \<or> isspace_char (hd t) \<Longrightarrow> takeWhile (\<lambda>c. \<not> isspace_char c) (s @ t) = s"
  by (cases t) (auto simp: word_ok_def list_all_iff takeWhile_append2)

lemma read_entry_word:
  "spaces lead \<Longrightarrow> word_ok s \<Longrightarrow> t = [] \<or> isspace_char (hd t) \<Longrightarrow> read_spec_entry (lead @ s @ t) = (s, t)"
  by (simp add: read_spec_entry_def dropWhile_spaces dropWhile_word takeWhile_word)

lemma read_entries_two:
  assumes "word_ok p" "word_ok c" "gap \<noteq> []" "spaces gap" "rest = [] \<or> isspace_char (hd rest)"
  shows "read_entries 2 [] (p @ gap @ c @ rest) = [p, c]"
proof -
  have ne: "p \<noteq> []" "c \<noteq> []" using assms(1,2) by (auto simp: word_ok_def)
  have gap: "isspace_char (hd (gap @ c @ rest))" using assms(3,4) by (cases gap) (auto simp: spaces_def)
  have r1: "read_spec_entry (p @ gap @ c @ rest) = (p, gap @ c @ rest)"
    using read_entry_word [of "[]" p "gap @ c @ rest"] assms(1) gap by (simp add: spaces_def)
  have r2: "read_spec_entry (gap @ c @ rest) = (c, rest)"
    using read_entry_word assms by blast
  show ?thesis
    using ne assms(3) by (simp add: read_entries.simps [of _ _ "p @ gap @ c @ rest"] r1 read_entries.simps [of _ _ "gap @ c @ rest"] r2
        read_entries.simps [of _ _ rest])
qed

lemma read_spec_entries_buf:
  "line \<noteq> [] \<Longrightarrow> dropWhile isspace_char (if last line = CHR 0x0a then butlast line else line) = b \<Longrightarrow>
   read_spec_entries line n = Some (if b = [] \<or> hd b = CHR ''#'' then [] else read_entries n [] b)"
  by (simp only: read_spec_entries_def Let_def if_False split: if_split) blast

lemma read_entry_line: "entry_line p c line \<Longrightarrow> read_spec_entries line 2 = Some [p, c]"
proof -
  assume "entry_line p c line"
  then obtain lead gap rest where l: "line = lead @ p @ gap @ c @ rest" "spaces lead" "gap \<noteq> []" "spaces gap"
      "rest = [] \<or> isspace_char (hd rest)" and p: "prefix_ok p" and c: "word_ok c"
    by (auto simp: entry_line_def)
  have w: "word_ok p" "hd p \<noteq> CHR ''#''" "p \<noteq> []" using p by (auto simp: prefix_ok_def word_ok_def)
  have lastc: "\<not> isspace_char (last c)" "c \<noteq> []" using c by (auto simp: word_ok_def list_all_iff)
  have nl: "isspace_char (CHR 0x0a)" by code_simp
  define rest' where "rest' = (if rest \<noteq> [] \<and> last rest = CHR 0x0a then butlast rest else rest)"
  have rest': "rest' = [] \<or> isspace_char (hd rest')"
    using l(5) by (cases rest) (auto simp: rest'_def)
  have buf: "(if last line = CHR 0x0a then butlast line else line) = lead @ p @ gap @ c @ rest'"
    using lastc nl by (auto simp: l(1) rest'_def butlast_append)
  have "dropWhile isspace_char (lead @ p @ gap @ c @ rest') = p @ gap @ c @ rest'"
    by (simp add: dropWhile_spaces [OF l(2)] dropWhile_word [OF w(1)])
  then have b: "dropWhile isspace_char (if last line = CHR 0x0a then butlast line else line) = p @ gap @ c @ rest'"
    unfolding buf .
  have "line \<noteq> []" using l(1) w(3) by simp
  then show ?thesis
    using read_spec_entries_buf [OF _ b, of 2] read_entries_two [OF w(1) c l(3,4) rest'] w(2,3) by simp
qed

lemma read_silent_line: "silent_line line \<Longrightarrow> read_spec_entries line 2 = Some []"
proof -
  assume "silent_line line"
  then obtain lead rest where l: "line \<noteq> []" "line = lead @ rest" "spaces lead" "rest = [] \<or> hd rest = CHR ''#''"
    by (auto simp: silent_line_def)
  have hash: "\<not> isspace_char (CHR ''#'')" by code_simp
  have sp: "spaces xs \<Longrightarrow> dropWhile isspace_char xs = []" for xs
    using dropWhile_spaces [of xs "[]"] by simp
  show ?thesis
  proof (cases rest)
    case Nil
    have "spaces (butlast lead)" using l(3) by (auto simp: spaces_def list_all_iff dest: in_set_butlastD)
    then have "dropWhile isspace_char (if last line = CHR 0x0a then butlast line else line) = []"
      using l(2,3) Nil by (simp add: sp del: dropWhile_eq_Nil_conv)
    then show ?thesis using read_spec_entries_buf [OF l(1)] by simp
  next
    case (Cons d t)
    then have d: "d = CHR ''#''" using l(4) by simp
    have "dropWhile isspace_char (if last line = CHR 0x0a then butlast line else line) = CHR ''#'' # (if last line = CHR 0x0a then butlast t else t)"
      using l(2,3) hash by (cases t) (auto simp: Cons d butlast_append dropWhile_spaces)
    then show ?thesis using read_spec_entries_buf [OF l(1)] by simp
  qed
qed

section \<open>The order of the list\<close>

text \<open>A list in lookup order: longer prefixes first, wildcards last.\<close>

definition wild_ok :: "prefix_node \<Rightarrow> bool" where
  "wild_ok p \<longleftrightarrow> pn_prefix p \<noteq> [] \<and> (is_wildcard p \<longrightarrow> pn_prefix p = ''*'')"

fun lookup_order :: "prefix_node list \<Rightarrow> bool" where
  "lookup_order [] = True"
| "lookup_order (p # ps) \<longleftrightarrow>
     (\<forall>q \<in> set ps. is_wildcard q \<or> \<not> is_wildcard p \<and> length (pn_prefix q) \<le> length (pn_prefix p)) \<and> lookup_order ps"

lemma set_list_add [simp]: "set (list_add_after_len ps pn) = insert pn (set ps)"
  by (induction ps) auto

lemma lookup_order_add:
  "lookup_order ps \<Longrightarrow> \<forall>p \<in> set ps. wild_ok p \<Longrightarrow> wild_ok pn \<Longrightarrow> lookup_order (list_add_after_len ps pn)"
proof (induction ps)
  case (Cons p ps)
  show ?case
  proof (cases "length (pn_prefix p) < length (pn_prefix pn) \<or> is_wildcard p")
    case True
    have wild: "is_wildcard pn \<Longrightarrow> is_wildcard p"
      using True Cons.prems(2,3) by (auto simp: wild_ok_def)
    have all: "\<forall>q \<in> set ps. is_wildcard q \<or> \<not> is_wildcard p \<and> length (pn_prefix q) \<le> length (pn_prefix p)"
      using Cons.prems(1) by simp
    then show ?thesis
      using True wild Cons.prems(1) by auto
  next
    case False
    then show ?thesis
      using Cons by auto
  qed
qed simp

text \<open>What the first match becomes when an entry is added: the new entry only if it matches and is better.\<close>

lemma find_list_add:
  "lookup_order ps \<Longrightarrow>
   List.find m (list_add_after_len ps pn) =
     (if \<not> m pn then List.find m ps
      else case List.find m ps of None \<Rightarrow> Some pn
        | Some p \<Rightarrow> if length (pn_prefix p) < length (pn_prefix pn) \<or> is_wildcard p then Some pn else Some p)"
proof (induction ps)
  case (Cons p ps)
  have later: "List.find m ps = Some q \<Longrightarrow> is_wildcard q \<or> \<not> is_wildcard p \<and> length (pn_prefix q) \<le> length (pn_prefix p)" for q
    using Cons.prems by (auto simp: find_Some_iff)
  show ?case
    using Cons.IH Cons.prems later by (auto split: option.splits)
qed simp

section \<open>The list of a file\<close>

abbreviation entry_of :: "prefix_node \<Rightarrow> string \<times> string" where
  "entry_of p \<equiv> (pn_prefix p, pn_context p)"

text \<open>Which listed entry a name belongs to.\<close>

definition covers :: "string \<Rightarrow> string \<Rightarrow> bool" where
  "covers nm p \<longleftrightarrow> p = ''*'' \<or> prefix p nm"

definition chosen :: "(string \<times> string) list \<Rightarrow> string \<Rightarrow> nat \<Rightarrow> bool" where
  "chosen es nm i \<longleftrightarrow> i < length es \<and> covers nm (fst (es ! i)) \<and>
     (if fst (es ! i) = ''*'' then \<forall>j < length es. covers nm (fst (es ! j)) \<longrightarrow> fst (es ! j) = ''*'' \<and> j \<le> i
      else \<forall>j < length es. prefix (fst (es ! j)) nm \<and> fst (es ! j) \<noteq> ''*'' \<longrightarrow>
        length (fst (es ! j)) < length (fst (es ! i)) \<or> length (fst (es ! j)) = length (fst (es ! i)) \<and> i \<le> j)"

definition split_of :: "contexts_split \<Rightarrow> (string \<times> string) list \<Rightarrow> bool" where
  "split_of sp es \<longleftrightarrow> lookup_order (sp_prefixes sp) \<and> entry_of ` set (sp_prefixes sp) = set es \<and>
     (\<forall>e \<in> set es. prefix_ok (fst e) \<and> word_ok (snd e)) \<and>
     distinct (map cn_context (sp_contexts sp)) \<and> cn_context ` set (sp_contexts sp) = snd ` set es"

lemma split_of_new: "split_of new_contexts_split []"
  by (simp add: split_of_def new_contexts_split_def)

lemma is_wildcard_iff: "prefix_ok (pn_prefix p) \<Longrightarrow> is_wildcard p \<longleftrightarrow> pn_prefix p = ''*''"
proof -
  assume ok: "prefix_ok (pn_prefix p)"
  have star: "(of_char c :: nat) = of_char (CHR ''*'') \<longleftrightarrow> c = CHR ''*''" for c
    by (rule of_char_eq_iff)
  show ?thesis
    using ok star by (cases "pn_prefix p") (auto simp: prefix_ok_def word_ok_def is_wildcard_def c_head_def simp del: of_char_Char)
qed

lemma prefix_matches_iff:
  "c_string nm \<Longrightarrow> prefix_ok (pn_prefix p) \<Longrightarrow> prefix_matches nm p \<longleftrightarrow> covers nm (pn_prefix p)"
  by (auto simp: prefix_matches_def is_wildcard_iff covers_def strncmp_eq_0_iff prefix_ok_def word_ok_def prefix_def
      dest: sym [of "pn_prefix p" "take _ _"]) (metis append_take_drop_id)


lemma ctl_iff: "word_ok p \<Longrightarrow> strncmp p ''ctl.'' 4 = 0 \<longleftrightarrow> prefix ''ctl.'' p"
proof -
  assume "word_ok p"
  then have "strncmp p ''ctl.'' 4 = 0 \<longleftrightarrow> take 4 p = ''ctl.''"
    by (subst strncmp_eq_0_iff) (simp_all add: word_ok_def)
  also have "\<dots> \<longleftrightarrow> prefix ''ctl.'' p"
    by (auto simp: prefix_def) (metis append_take_drop_id append_Cons append_Nil)
  finally show ?thesis .
qed

lemma add_ctl_line: "entry_line p c line \<Longrightarrow> prefix ''ctl.'' p \<Longrightarrow> add_property_line sp line = Ok sp"
  using ctl_iff [of p] by (simp add: add_property_line_def read_entry_line) (simp add: entry_line_def prefix_ok_def)

lemma add_silent_line: "silent_line line \<Longrightarrow> add_property_line sp line = Ok sp"
  by (simp add: add_property_line_def read_silent_line)

lemma strcmp_eq_0_iff: "c_string a \<Longrightarrow> c_string b \<Longrightarrow> strcmp a b = 0 \<longleftrightarrow> a = b"
  unfolding strcmp_def by (subst strncmp_eq_0_iff) simp_all

lemma distinct_filter_one: "distinct (map f xs) \<Longrightarrow> c \<in> f ` set xs \<Longrightarrow> length (filter (\<lambda>x. f x = c) xs) = 1"
  by (induction xs) (auto simp: filter_empty_conv image_iff)

lemma split_of_add_entry:
  assumes "split_of sp es" "entry_line p c line" "\<not> prefix ''ctl.'' p"
  shows "\<exists>sp'. add_property_line sp line = Ok sp' \<and> split_of sp' (es @ [(p, c)]) \<and>
    sp_prefixes sp' = list_add_after_len (sp_prefixes sp) \<lparr>pn_prefix = p, pn_context = c\<rparr>"
proof -
  have pc: "prefix_ok p" "word_ok c" using assms(2) by (auto simp: entry_line_def)
  have nctl: "strncmp p ''ctl.'' 4 \<noteq> 0" using pc ctl_iff assms(3) by (simp add: prefix_ok_def)
  define nodes where "nodes = (case list_find (\<lambda>l. strcmp (cn_context l) c = 0) (sp_contexts sp) of
    Some _ \<Rightarrow> sp_contexts sp | None \<Rightarrow> new_context_node c (sp_filename sp) # sp_contexts sp)"
  have ok: "\<forall>e \<in> set es. prefix_ok (fst e) \<and> word_ok (snd e)" "cn_context ` set (sp_contexts sp) = snd ` set es"
      "entry_of ` set (sp_prefixes sp) = set es" "distinct (map cn_context (sp_contexts sp))" "lookup_order (sp_prefixes sp)"
    using assms(1) by (simp_all add: split_of_def)
  have same: "strcmp (cn_context cn) c = 0 \<longleftrightarrow> cn_context cn = c" if "cn \<in> set (sp_contexts sp)" for cn
  proof -
    have "cn_context cn \<in> snd ` set es" using that ok(2) by blast
    then have "c_string (cn_context cn)" using ok(1) by (auto simp: word_ok_def)
    then show ?thesis using pc(2) strcmp_eq_0_iff by (simp add: word_ok_def)
  qed
  have nodes: "distinct (map cn_context nodes)" "cn_context ` set nodes = insert c (cn_context ` set (sp_contexts sp))"
  proof -
    have f: "list_find (\<lambda>l. strcmp (cn_context l) c = 0) (sp_contexts sp) = List.find (\<lambda>l. cn_context l = c) (sp_contexts sp)"
      unfolding list_find_def by (rule find_cong) (use same in blast)+
    have "distinct (map cn_context nodes) \<and> cn_context ` set nodes = insert c (cn_context ` set (sp_contexts sp))"
    proof (cases "List.find (\<lambda>l. cn_context l = c) (sp_contexts sp)")
      case None
      then have "c \<notin> cn_context ` set (sp_contexts sp)" by (auto simp: find_None_iff)
      then show ?thesis using ok(4) by (simp add: nodes_def f None new_context_node_def)
    next
      case (Some l)
      then have "c \<in> cn_context ` set (sp_contexts sp)" by (auto simp: find_Some_iff)
      then show ?thesis using ok(4) by (simp add: nodes_def f Some insert_absorb)
    qed
    then show "distinct (map cn_context nodes)" "cn_context ` set nodes = insert c (cn_context ` set (sp_contexts sp))" by simp_all
  qed
  have wild: "\<forall>q \<in> set (sp_prefixes sp). wild_ok q" "wild_ok \<lparr>pn_prefix = p, pn_context = c\<rparr>"
  proof -
    have ne: "prefix_ok s \<Longrightarrow> s \<noteq> []" for s
      by (simp add: prefix_ok_def word_ok_def)
    have w: "prefix_ok (pn_prefix q) \<Longrightarrow> wild_ok q" for q
      using is_wildcard_iff [of q] ne [of "pn_prefix q"] by (simp only: wild_ok_def simp_thms)
    have "\<forall>q \<in> set (sp_prefixes sp). prefix_ok (pn_prefix q)" using ok(1,3) by force
    then show "\<forall>q \<in> set (sp_prefixes sp). wild_ok q" using w by blast
    show "wild_ok \<lparr>pn_prefix = p, pn_context = c\<rparr>" using w pc(1) by simp
  qed
  show ?thesis
    using ok(1,2,3) nctl nodes lookup_order_add [OF ok(5) wild] pc
    by (simp add: add_property_line_def read_entry_line [OF assms(2)] split_of_def nodes_def [symmetric])
qed

section \<open>The entry of a name\<close>

lemma chosen_snoc_keep:
  "chosen es nm i \<Longrightarrow> covers nm p \<longrightarrow> fst (es ! i) \<noteq> ''*'' \<and> length p \<le> length (fst (es ! i)) \<Longrightarrow>
   chosen (es @ [(p, c)]) nm i"
  by (auto simp: chosen_def nth_append less_Suc_eq covers_def split: if_splits)

lemma chosen_snoc_new:
  "covers nm p \<Longrightarrow> \<forall>e \<in> set es. covers nm (fst e) \<longrightarrow> fst e = ''*'' \<or> p \<noteq> ''*'' \<and> length (fst e) < length p \<Longrightarrow>
   chosen (es @ [(p, c)]) nm (length es)"
  by (auto simp: chosen_def nth_append less_Suc_eq covers_def split: if_splits)

lemma chosen_best:
  assumes "chosen es nm i" "e \<in> set es" "covers nm (fst e)"
  shows "fst e = ''*'' \<or> fst (es ! i) \<noteq> ''*'' \<and> length (fst e) \<le> length (fst (es ! i))"
proof -
  obtain j where "j < length es" "es ! j = e" using assms(2) by (auto simp: in_set_conv_nth)
  then show ?thesis using assms(1,3) by (auto simp: chosen_def covers_def split: if_splits)
qed

definition answers :: "contexts_split \<Rightarrow> (string \<times> string) list \<Rightarrow> string \<Rightarrow> bool" where
  "answers sp es nm \<longleftrightarrow>
     (case get_prefix_node_for_name sp nm of
        None \<Rightarrow> \<forall>e \<in> set es. \<not> covers nm (fst e)
      | Some p \<Rightarrow> \<exists>i. chosen es nm i \<and> es ! i = entry_of p)"

lemma answers_snoc:
  assumes "answers sp es nm" "split_of sp es" "prefix_ok p" "c_string nm"
    "sp_prefixes sp' = list_add_after_len (sp_prefixes sp) \<lparr>pn_prefix = p, pn_context = c\<rparr>"
  shows "answers sp' (es @ [(p, c)]) nm"
proof -
  let ?pn = "\<lparr>pn_prefix = p, pn_context = c\<rparr>"
  have m: "prefix_matches nm ?pn \<longleftrightarrow> covers nm p" using prefix_matches_iff [of nm ?pn] assms(3,4) by simp
  have f: "get_prefix_node_for_name sp' nm =
      (if \<not> covers nm p then get_prefix_node_for_name sp nm
       else case get_prefix_node_for_name sp nm of None \<Rightarrow> Some ?pn
         | Some q \<Rightarrow> if length (pn_prefix q) < length p \<or> is_wildcard q then Some ?pn else Some q)"
    using find_list_add [of "sp_prefixes sp" "prefix_matches nm" ?pn] assms(2)
    by (simp add: get_prefix_node_for_name_def list_find_def assms(5) m split_of_def split: option.splits)
  show ?thesis
  proof (cases "get_prefix_node_for_name sp nm")
    case None
    then show ?thesis using assms(1) chosen_snoc_new [of nm p es c] by (auto simp: answers_def f)
  next
    case (Some q)
    then obtain i where i: "chosen es nm i" "es ! i = entry_of q" using assms(1) by (auto simp: answers_def)
    have len: "i < length es" using i(1) by (simp add: chosen_def)
    have q: "prefix_ok (pn_prefix q)"
      using assms(2) nth_mem [OF len] i(2) by (auto simp: split_of_def)
    then have ne: "pn_prefix q \<noteq> []" by (simp add: prefix_ok_def word_ok_def)
    have wq: "is_wildcard q \<longleftrightarrow> pn_prefix q = ''*''" by (rule is_wildcard_iff [OF q])
    show ?thesis
    proof (cases "covers nm p \<and> (length (pn_prefix q) < length p \<or> is_wildcard q)")
      case True
      have "fst e = ''*'' \<or> p \<noteq> ''*'' \<and> length (fst e) < length p" if e: "e \<in> set es" "covers nm (fst e)" for e
      proof (cases "fst e = ''*''")
        case False
        then have "pn_prefix q \<noteq> ''*''" "length (fst e) \<le> length (pn_prefix q)" using chosen_best [OF i(1) e] i(2) by simp_all
        moreover have "length (pn_prefix q) < length p" using True wq calculation(1) by simp
        ultimately show ?thesis using ne by (cases "pn_prefix q") auto
      qed simp
      then have "chosen (es @ [(p, c)]) nm (length es)" using chosen_snoc_new True by blast
      then show ?thesis using True Some unfolding answers_def f by (simp add: exI [of _ "length es"])
    next
      case False
      then have "chosen (es @ [(p, c)]) nm i"
        using chosen_snoc_keep [OF i(1), of p c] i(2) wq by (simp add: not_less)
      then have "\<exists>i. chosen (es @ [(p, c)]) nm i \<and> (es @ [(p, c)]) ! i = entry_of q" using i(2) len by (auto simp: nth_append)
      then show ?thesis using False Some unfolding answers_def f by simp
    qed
  qed
qed

lemma add_lines_snoc: "add_property_lines sp (ls @ [l]) = res_bind (add_property_lines sp ls) (\<lambda>sp'. add_property_line sp' l)"
proof (induction ls arbitrary: sp)
  case Nil
  then show ?case by (cases "add_property_line sp l") simp_all
next
  case (Cons k ls)
  then show ?case by (cases "add_property_line sp k") simp_all
qed

lemma contexts_file_read:
  "contexts_file ls es \<Longrightarrow> c_string nm \<Longrightarrow>
   \<exists>sp. add_property_lines new_contexts_split ls = Ok sp \<and> split_of sp es \<and> answers sp es nm"
proof (induction rule: contexts_file.induct)
  case empty
  have "answers new_contexts_split [] nm"
    by (simp add: answers_def get_prefix_node_for_name_def list_find_def new_contexts_split_def)
  then show ?case using split_of_new by simp
next
  case (silent ls es line)
  then show ?case by (auto simp: add_lines_snoc add_silent_line)
next
  case (ctl ls es p c line)
  then show ?case by (auto simp: add_lines_snoc add_ctl_line)
next
  case (entry ls es p c line)
  then obtain sp where sp: "add_property_lines new_contexts_split ls = Ok sp" "split_of sp es" "answers sp es nm" by blast
  obtain sp' where sp': "add_property_line sp line = Ok sp'" "split_of sp' (es @ [(p, c)])"
      "sp_prefixes sp' = list_add_after_len (sp_prefixes sp) \<lparr>pn_prefix = p, pn_context = c\<rparr>"
    using split_of_add_entry [OF sp(2) entry.hyps(2,3)] by blast
  then show ?case
    using answers_snoc [OF sp(3,2) _ entry.prems sp'(3)] entry.hyps(2) sp(1) by (auto simp: add_lines_snoc entry_line_def)
qed

text \<open>
  C9: A name belongs to the context of its longest prefix. Every property_contexts file is read without
  undefined behaviour, and whatever the order of its lines, the entry found for a name is one that the file lists,
  with its prefix and its context: the first of the listed entries with the longest prefix of the name, and,
  only when no listed prefix is a prefix of the name, the last wildcard. No entry is found only when none covers
  the name. The list of contexts has exactly one node for the context of the entry.
\<close>

theorem split_longest_prefix:
  assumes "contexts_file ls es" "c_string nm"
  shows "\<exists>sp. add_property_lines new_contexts_split ls = Ok sp \<and>
    (case get_prefix_node_for_name sp nm of
       None \<Rightarrow> \<forall>e \<in> set es. \<not> covers nm (fst e)
     | Some p \<Rightarrow> (\<exists>i. chosen es nm i \<and> es ! i = (pn_prefix p, pn_context p)) \<and>
         length (filter (\<lambda>cn. cn_context cn = pn_context p) (sp_contexts sp)) = 1)"
proof -
  obtain sp where sp: "add_property_lines new_contexts_split ls = Ok sp" "split_of sp es" "answers sp es nm"
    using contexts_file_read [OF assms] by blast
  have one: "c \<in> snd ` set es \<Longrightarrow> length (filter (\<lambda>cn. cn_context cn = c) (sp_contexts sp)) = 1" for c
    using sp(2) distinct_filter_one [of cn_context "sp_contexts sp" c] by (simp add: split_of_def)
  show ?thesis
  proof (cases "get_prefix_node_for_name sp nm")
    case None
    then show ?thesis using sp by (auto simp: answers_def)
  next
    case (Some p)
    then obtain i where i: "chosen es nm i" "es ! i = entry_of p" using sp(3) by (auto simp: answers_def)
    then have "entry_of p \<in> set es" by (metis chosen_def nth_mem)
    then show ?thesis using sp(1) Some i one [of "pn_context p"] by force
  qed
qed

definition demo_lines :: "string list" where
  "demo_lines = [''# contexts'', ''* u:default'', ''ro. u:ro'', '' ro.boot. u:boot exact'']"

lemma demo_file: "contexts_file demo_lines [(''*'', ''u:default''), (''ro.'', ''u:ro''), (''ro.boot.'', ''u:boot'')]"
proof -
  have p: "prefix_ok ''*''" "prefix_ok ''ro.''" "prefix_ok ''ro.boot.''" by code_simp+
  have w: "word_ok ''u:default''" "word_ok ''u:ro''" "word_ok ''u:boot''" by code_simp+
  have sp: "spaces '' ''" "spaces []" "isspace_char (hd '' exact'')" by code_simp+
  have l0: "silent_line ''# contexts''"
    unfolding silent_line_def using sp by (intro conjI exI [of _ "[]"] exI [of _ "''# contexts''"]) simp_all
  have l1: "entry_line ''*'' ''u:default'' ''* u:default''" "entry_line ''ro.'' ''u:ro'' ''ro. u:ro''"
    unfolding entry_line_def using p w sp(1,2) by (intro conjI exI [of _ "[]"] exI [of _ "'' ''"]; simp)+
  have l3: "entry_line ''ro.boot.'' ''u:boot'' '' ro.boot. u:boot exact''"
    unfolding entry_line_def using p w sp by (intro conjI exI [of _ "'' ''"] exI [of _ "'' exact''"]) simp_all
  note step = contexts_file.entry [OF _ l1(1)] contexts_file.entry [OF _ l1(2)] contexts_file.entry [OF _ l3]
  have "contexts_file ((([[] @ ''# contexts''] @ [''* u:default'']) @ [''ro. u:ro'']) @ ['' ro.boot. u:boot exact''])
      ((([] @ [(''*'', ''u:default'')]) @ [(''ro.'', ''u:ro'')]) @ [(''ro.boot.'', ''u:boot'')])"
    using contexts_file.silent [OF contexts_file.empty l0] by (intro step) simp_all
  then show ?thesis by (simp add: demo_lines_def)
qed

theorem split_longest_prefix_witness:
  "\<exists>sp p. add_property_lines new_contexts_split demo_lines = Ok sp \<and>
     get_prefix_node_for_name sp ''ro.boot.mode'' = Some p \<and> pn_prefix p = ''ro.boot.'' \<and> pn_context p = ''u:boot''"
proof -
  let ?es = "[(''*'', ''u:default''), (''ro.'', ''u:ro''), (''ro.boot.'', ''u:boot'')]"
  have c: "chosen ?es ''ro.boot.mode'' i \<Longrightarrow> i = 2" for i
    by (auto simp: chosen_def covers_def less_Suc_eq numeral_eq_Suc split: if_splits)
  show ?thesis
    using split_longest_prefix [OF demo_file, of "''ro.boot.mode''"]
    by (auto simp: covers_def split: option.splits dest!: c)
qed

end
