(* ===== verification/Linker_Utils.thy ===== *)
theory Linker_Utils
  imports Bionic_Prelude
begin

text \<open>
  The string and path helpers of the dynamic linker, linker/linker_utils.cpp, and the page arithmetic
  of libc/platform/bionic/page.h.

  A \<open>std::string\<close> or C string is the list of its characters. Pointers into a path are the rest of the path
  that they point to. Results of \<open>realpath\<close> and \<open>stat\<close> are parameters, and so is \<open>android::base::Split\<close>.
  Warnings are not modelled.
\<close>

section \<open>Substitution of parameters\<close>

definition substr :: "string \<Rightarrow> nat \<Rightarrow> nat \<Rightarrow> string" where
  "substr s pos n = take n (drop pos s)"

definition find_char :: "char \<Rightarrow> string \<Rightarrow> nat \<Rightarrow> nat option" where
  "find_char c s pos =
     (let k = length (takeWhile (\<lambda>x. x \<noteq> c) (drop pos s)) in if pos + k < length s then Some (pos + k) else None)"

text \<open>
  The inner loop of \<open>format_string\<close>: the string and the position after the first parameter that matches at
  \<open>pos\<close>. The code subtracts one from the position and adds it again, modulo the size of a \<open>size_t\<close>.
\<close>

fun try_params :: "string \<Rightarrow> nat \<Rightarrow> (string \<times> string) list \<Rightarrow> (string \<times> nat) option" where
  "try_params str pos [] = None"
| "try_params str pos ((token, replacement) # params) =
     (if substr str (pos + 1) (length token) = token then
        Some (take pos str @ replacement @ drop (pos + (length token + 1)) str, pos + length replacement)
      else if substr str (pos + 1) (length token + 2) = ''{'' @ token @ ''}'' then
        Some (take pos str @ replacement @ drop (pos + (length token + 3)) str, pos + length replacement)
      else try_params str pos params)"

lemma try_params_shorter:
  "try_params str pos params = Some (str', pos') \<Longrightarrow> pos < length str \<Longrightarrow> length str' - pos' < length str - pos"
  by (induction str pos params rule: try_params.induct) (auto split: if_splits)

lemma find_char_range: "find_char c s pos = Some p \<Longrightarrow> pos \<le> p \<and> p < length s"
  by (auto simp: find_char_def Let_def split: if_splits)

function format_loop :: "string \<Rightarrow> nat \<Rightarrow> (string \<times> string) list \<Rightarrow> string" where
  "format_loop str pos params =
     (if pos < length str then
        (case find_char (CHR ''$'') str pos of
           None \<Rightarrow> str
         | Some p \<Rightarrow>
             (case try_params str p params of
                Some (str', pos') \<Rightarrow> format_loop str' pos' params
              | None \<Rightarrow> format_loop str (p + 1) params))
      else str)"
  by pat_completeness auto

termination format_loop
  by (relation "measure (\<lambda>(str, pos, params). length str - pos)")
    (fastforce dest: find_char_range try_params_shorter)+

declare format_loop.simps [simp del]

definition format_string :: "string \<Rightarrow> (string \<times> string) list \<Rightarrow> string" where
  "format_string str params = format_loop str 0 params"

section \<open>Paths\<close>

definition char_at :: "string \<Rightarrow> nat \<Rightarrow> char" where
  "char_at s i = (if i < length s then s ! i else CHR 0x00)"

definition strrchr :: "string \<Rightarrow> char \<Rightarrow> nat option" where
  "strrchr s c =
     (if c \<in> set s then Some (length s - 1 - length (takeWhile (\<lambda>x. x \<noteq> c) (rev s))) else None)"

definition dirname :: "string \<Rightarrow> string" where
  "dirname path =
     (case strrchr path (CHR ''/'') of
        None \<Rightarrow> ''.''
      | Some k \<Rightarrow> if k = 0 then ''/'' else take k path)"

text \<open>Backing up over the last component: \<open>while (out_ptr > buf && *--out_ptr != '/')\<close>.\<close>

definition pop_component :: "string \<Rightarrow> string" where
  "pop_component out = rev (drop 1 (dropWhile (\<lambda>c. c \<noteq> CHR ''/'') (rev out)))"

text \<open>
  The loop of \<open>normalize_path\<close> with a buffer of \<open>sz\<close> characters; \<open>out\<close> are the characters before \<open>out_ptr\<close>. A
  write beyond the buffer is undefined.
\<close>

function normalize_loop :: "nat \<Rightarrow> string \<Rightarrow> string \<Rightarrow> string res" where
  "normalize_loop sz in_ptr out =
     (if in_ptr = [] then (if length out < sz then Ok out else Undef)
      else if char_at in_ptr 0 = CHR ''/'' \<and> char_at in_ptr 1 = CHR ''.'' \<and> char_at in_ptr 2 = CHR ''/''
      then normalize_loop sz (drop 2 in_ptr) out
      else if char_at in_ptr 0 = CHR ''/'' \<and> char_at in_ptr 1 = CHR ''.'' \<and> char_at in_ptr 2 = CHR ''.'' \<and>
              (char_at in_ptr 3 = CHR ''/'' \<or> char_at in_ptr 3 = CHR 0x00)
      then (if drop 3 in_ptr = [] then
              (if length (pop_component out) < sz
               then normalize_loop sz (drop 3 in_ptr) (pop_component out @ ''/'') else Undef)
            else normalize_loop sz (drop 3 in_ptr) (pop_component out))
      else if char_at in_ptr 0 = CHR ''/'' \<and> char_at in_ptr 1 = CHR ''/''
      then normalize_loop sz (tl in_ptr) out
      else (if length out < sz then normalize_loop sz (tl in_ptr) (out @ [hd in_ptr]) else Undef))"
  by pat_completeness auto

termination normalize_loop
proof (relation "measure (\<lambda>(sz, in_ptr, out). length in_ptr)", goal_cases)
  case (4 sz in_ptr out)
  then show ?case
    by (simp flip: length_greater_0_conv)
qed (simp_all flip: length_greater_0_conv)

declare normalize_loop.simps [simp del]

text \<open>The normalized path, \<open>None\<close> for a path that is not absolute.\<close>

definition normalize_path :: "string \<Rightarrow> string option res" where
  "normalize_path path =
     (if char_at path 0 \<noteq> CHR ''/'' then Ok None
      else res_bind (normalize_loop (length path + 1) path []) (\<lambda>buf. Ok (Some buf)))"

definition file_is_in_dir :: "string \<Rightarrow> string \<Rightarrow> bool" where
  "file_is_in_dir file dir =
     (strncmp file dir (length dir) = 0 \<and> char_at file (length dir) = CHR ''/'' \<and>
      CHR ''/'' \<notin> set (drop (length dir + 1) file))"

definition file_is_under_dir :: "string \<Rightarrow> string \<Rightarrow> bool" where
  "file_is_under_dir file dir = (strncmp file dir (length dir) = 0 \<and> char_at file (length dir) = CHR ''/'')"

definition kZipFileSeparator :: string where "kZipFileSeparator = ''!/''"

fun strstr :: "string \<Rightarrow> string \<Rightarrow> nat option" where
  "strstr s t =
     (if take (length t) s = t then Some 0
      else (case s of [] \<Rightarrow> None | c # s' \<Rightarrow> map_option Suc (strstr s' t)))"

definition parse_zip_path :: "string \<Rightarrow> (string \<times> string) option res" where
  "parse_zip_path input_path =
     res_bind (normalize_path input_path)
       (\<lambda>r. case r of
           None \<Rightarrow> Ok None
         | Some path \<Rightarrow>
             (case strstr path kZipFileSeparator of
                None \<Rightarrow> Ok None
              | Some sep \<Rightarrow>
                  if length path \<ge> 512 then Ok None else Ok (Some (take sep path, drop (sep + 2) path))))"

type_synonym u64 = "64 word"

definition safe_add :: "u64 \<Rightarrow> u64 \<Rightarrow> u64 option res" where
  "safe_add a b =
     (if \<not> 0 \<le> sint a then Abort
      else if 0x7fffffffffffffff - a < b then Ok None
      else Ok (Some (a + b)))"

definition split_path :: "(string \<Rightarrow> string \<Rightarrow> string list) \<Rightarrow> string option \<Rightarrow> string \<Rightarrow> string list \<Rightarrow> string list" where
  "split_path split path delimiters paths =
     (case path of
        None \<Rightarrow> paths
      | Some p \<Rightarrow> if p \<noteq> [] then split p delimiters else paths)"

text \<open>\<open>realpath\<close> gives the resolved path, \<open>stat\<close> whether a path that exists is a directory.\<close>

record fsenv =
  fs_realpath :: "string \<Rightarrow> string option"
  fs_stat_isdir :: "string \<Rightarrow> bool option"

definition resolve_path :: "fsenv \<Rightarrow> string \<Rightarrow> string res" where
  "resolve_path fs path =
     (case fs_realpath fs path of
        Some resolved_path \<Rightarrow>
          (case fs_stat_isdir fs resolved_path of
             None \<Rightarrow> Ok []
           | Some False \<Rightarrow> Ok []
           | Some True \<Rightarrow> Ok resolved_path)
      | None \<Rightarrow>
          res_bind (normalize_path path)
            (\<lambda>r. case r of
                None \<Rightarrow> Ok []
              | Some normalized_path \<Rightarrow>
                  res_bind (parse_zip_path normalized_path)
                    (\<lambda>z. case z of
                        Some (zip_path, entry_path) \<Rightarrow>
                          (case fs_realpath fs zip_path of
                             None \<Rightarrow> Ok []
                           | Some resolved_path \<Rightarrow> Ok (resolved_path @ kZipFileSeparator @ entry_path))
                      | None \<Rightarrow> if fs_stat_isdir fs normalized_path = Some True then Ok normalized_path else Ok [])))"

fun resolve_paths :: "fsenv \<Rightarrow> string list \<Rightarrow> string list res" where
  "resolve_paths fs [] = Ok []"
| "resolve_paths fs (path # paths) =
     (if path = [] then resolve_paths fs paths
      else res_bind (resolve_path fs path)
             (\<lambda>resolved. res_bind (resolve_paths fs paths)
                (\<lambda>rest. Ok (if resolved \<noteq> [] then resolved # rest else rest))))"

section \<open>Pages\<close>

definition page_start :: "u64 \<Rightarrow> u64 \<Rightarrow> u64" where "page_start page_size x = x AND NOT (page_size - 1)"
definition page_offset :: "u64 \<Rightarrow> u64 \<Rightarrow> u64" where "page_offset page_size x = x AND (page_size - 1)"
definition page_end :: "u64 \<Rightarrow> u64 \<Rightarrow> u64" where "page_end page_size x = page_start page_size (x + page_size - 1)"

section \<open>What substitution does\<close>

text \<open>
  One pass over the text: a dollar sign that is followed by the name of a parameter, bare or in braces,
  is replaced, the replacement is not looked at again, and everything else is copied.
\<close>

fun match_param :: "(string \<times> string) list \<Rightarrow> string \<Rightarrow> (string \<times> string) option" where
  "match_param [] s = None"
| "match_param ((token, replacement) # params) s =
     (if take (length token) s = token then Some (replacement, drop (length token) s)
      else if take (length token + 2) s = ''{'' @ token @ ''}'' then Some (replacement, drop (length token + 2) s)
      else match_param params s)"

lemma match_param_shorter: "match_param params s = Some (r, rest) \<Longrightarrow> length rest \<le> length s"
  by (induction params s rule: match_param.induct) (auto split: if_splits)

function expand :: "(string \<times> string) list \<Rightarrow> string \<Rightarrow> string" where
  "expand params [] = []"
| "expand params (c # s) =
     (if c = CHR ''$'' then
        (case match_param params s of
           Some (r, rest) \<Rightarrow> r @ expand params rest
         | None \<Rightarrow> c # expand params s)
      else c # expand params s)"
  by pat_completeness auto

termination expand
  by (relation "measure (\<lambda>(params, s). length s)") (auto dest: match_param_shorter)

lemma try_params_match:
  "try_params (pre @ c # s) (length pre) params =
     map_option (\<lambda>(r, rest). (pre @ r @ rest, length pre + length r)) (match_param params s)"
  by (induction params s rule: match_param.induct) (auto simp: substr_def numeral_3_eq_3)

lemma expand_no_dollar: "CHR ''$'' \<notin> set s \<Longrightarrow> expand params (s @ t) = s @ expand params t"
  by (induction s) auto

lemma find_char_split:
  "find_char c (pre @ s) (length pre) =
     (if c \<in> set s then Some (length pre + length (takeWhile (\<lambda>x. x \<noteq> c) s)) else None)"
proof -
  have "length (takeWhile (\<lambda>x. x \<noteq> c) s) < length s \<longleftrightarrow> c \<in> set s"
    by (induction s) auto
  then show ?thesis
    by (simp add: find_char_def Let_def)
qed

lemma format_loop_expand: "format_loop (pre @ s) (length pre) params = pre @ expand params s"
proof (induction "length s" arbitrary: pre s rule: less_induct)
  case less
  show ?case
  proof (cases "CHR ''$'' \<in> set s")
    case False
    then show ?thesis
      using expand_no_dollar [OF False, of params "[]"]
      by (subst format_loop.simps) (simp add: find_char_split)
  next
    case True
    obtain u t where t: "s = u @ CHR ''$'' # t" "CHR ''$'' \<notin> set u"
      using split_list_first [OF True] by blast
    have "takeWhile (\<lambda>x. x \<noteq> CHR ''$'') s = u"
      unfolding t(1) using t(2) by (subst takeWhile_append2) auto
    then have find: "find_char (CHR ''$'') (pre @ s) (length pre) = Some (length (pre @ u))"
      using True by (simp add: find_char_split)
    have s: "pre @ s = (pre @ u) @ CHR ''$'' # t" "length pre < length (pre @ s)"
      using t(1) by simp_all
    have e: "expand params s = u @ (case match_param params t of Some (r, rest) \<Rightarrow> r @ expand params rest | None \<Rightarrow> CHR ''$'' # expand params t)"
      unfolding t(1) expand_no_dollar [OF t(2)] by simp
    show ?thesis
    proof (cases "match_param params t")
      case None
      then have "format_loop (pre @ s) (length pre) params = format_loop ((pre @ u @ ''$'') @ t) (length (pre @ u @ ''$'')) params"
        using find s try_params_match [of "pre @ u" "CHR ''$''" t params] by (subst format_loop.simps) simp
      also have "\<dots> = (pre @ u @ ''$'') @ expand params t"
        using t(1) by (intro less) simp
      finally show ?thesis
        using e None by simp
    next
      case (Some x)
      obtain r rest where x: "match_param params t = Some (r, rest)"
        using Some by (cases x) auto
      then have "format_loop (pre @ s) (length pre) params = format_loop ((pre @ u @ r) @ rest) (length (pre @ u @ r)) params"
        using find s try_params_match [of "pre @ u" "CHR ''$''" t params] by (subst format_loop.simps) (simp add: add.assoc)
      also have "\<dots> = (pre @ u @ r) @ expand params rest"
        using t(1) match_param_shorter [OF x] by (intro less) simp
      finally show ?thesis
        using e x by simp
    qed
  qed
qed

section \<open>What normalization does\<close>

text \<open>A path as the list of its components, and normalization as a stack of components.\<close>

definition slash_free :: "string \<Rightarrow> bool" where "slash_free s \<longleftrightarrow> CHR ''/'' \<notin> set s \<and> c_string s"

fun components :: "string \<Rightarrow> string list" where
  "components [] = [[]]"
| "components (c # s) =
     (if c = CHR ''/'' then [] # components s
      else (case components s of [] \<Rightarrow> [[c]] | x # xs \<Rightarrow> (c # x) # xs))"

definition render :: "string list \<Rightarrow> string" where
  "render cs = concat (map (\<lambda>s. CHR ''/'' # s) cs)"

fun norm_components :: "string list \<Rightarrow> string list \<Rightarrow> string list" where
  "norm_components st [] = st"
| "norm_components st [s] = (if s = ''..'' then butlast st @ [[]] else st @ [s])"
| "norm_components st (s # t # cs) =
     (if s = [] \<or> s = ''.'' then norm_components st (t # cs)
      else if s = ''..'' then norm_components (butlast st) (t # cs)
      else norm_components (st @ [s]) (t # cs))"

lemma render_simps [simp]:
  "render [] = []" "render (s # cs) = CHR ''/'' # s @ render cs" "render (cs @ ds) = render cs @ render ds"
  by (simp_all add: render_def)

lemma components_not_Nil: "components s \<noteq> []"
  by (cases s) (auto split: list.split)

lemma render_components: "render (components s) = CHR ''/'' # s"
  by (induction s) (auto split: list.split simp: components_not_Nil)

lemma components_slash_free: "c_string s \<Longrightarrow> \<forall>x \<in> set (components s). slash_free x"
  by (induction s) (auto split: list.splits simp: slash_free_def)

lemma components_render:
  "\<forall>x \<in> set cs. slash_free x \<Longrightarrow> cs \<noteq> [] \<Longrightarrow> components (tl (render cs)) = cs"
proof (induction cs)
  case (Cons x cs)
  have a: "CHR ''/'' \<notin> set x \<Longrightarrow> components (x @ t) = (case components t of [] \<Rightarrow> [] | y # ys \<Rightarrow> (x @ y) # ys)" for t
    by (induction x) (auto split: list.splits simp: components_not_Nil)
  show ?case
    using Cons a [of "[]"] a [of "render cs"] by (cases cs) (auto simp: slash_free_def)
qed simp

lemma pop_render: "\<forall>x \<in> set st. slash_free x \<Longrightarrow> pop_component (render st) = render (butlast st)"
proof (cases st rule: rev_cases)
  case (snoc st' x)
  assume "\<forall>x \<in> set st. slash_free x"
  then have "dropWhile (\<lambda>c. c \<noteq> CHR ''/'') (rev x @ CHR ''/'' # y) = CHR ''/'' # y" for y
    using snoc by (subst dropWhile_append2) (auto simp: slash_free_def)
  then show ?thesis
    using snoc by (simp add: pop_component_def)
qed (simp add: pop_component_def)

lemma char_at_simps [simp]:
  "char_at [] i = CHR 0x00" "char_at (c # s) 0 = c" "char_at (c # s) (Suc i) = char_at s i"
  by (simp_all add: char_at_def)

lemma char_at_numeral [simp]:
  "char_at (c # s) 1 = char_at s 0" "char_at (c # s) 2 = char_at s 1" "char_at (c # s) 3 = char_at s 2"
  by (simp_all add: char_at_def nth_Cons')

text \<open>The steps of the loop: what follows a slash decides whether it is copied.\<close>

definition skips :: "string \<Rightarrow> bool" where
  "skips s \<longleftrightarrow> char_at s 0 = CHR ''/'' \<or>
     char_at s 0 = CHR ''.'' \<and> (char_at s 1 = CHR ''/'' \<or> char_at s 1 = CHR ''.'' \<and> (char_at s 2 = CHR ''/'' \<or> char_at s 2 = CHR 0x00))"

lemma normalize_end: "length out < sz \<Longrightarrow> normalize_loop sz [] out = Ok out"
  by (subst normalize_loop.simps) simp

lemma normalize_skip:
  "normalize_loop sz (CHR ''/'' # CHR ''/'' # t) out = normalize_loop sz (CHR ''/'' # t) out"
  "normalize_loop sz (CHR ''/'' # CHR ''.'' # CHR ''/'' # t) out = normalize_loop sz (CHR ''/'' # t) out"
  by (subst normalize_loop.simps, simp)+

lemma normalize_up:
  "normalize_loop sz (CHR ''/'' # CHR ''.'' # CHR ''.'' # CHR ''/'' # t) out = normalize_loop sz (CHR ''/'' # t) (pop_component out)"
  "length (pop_component out) < sz \<Longrightarrow>
   normalize_loop sz ''/..'' out = normalize_loop sz [] (pop_component out @ ''/'')"
  by (subst normalize_loop.simps, simp)+

lemma normalize_put:
  assumes "c \<noteq> CHR ''/'' \<or> \<not> skips s" "length out < sz"
  shows "normalize_loop sz (c # s) out = normalize_loop sz s (out @ [c])"
  using assms by (subst normalize_loop.simps) (auto simp: skips_def)

lemma normalize_copy:
  "slash_free s \<Longrightarrow> length (out @ s @ rest) < sz \<Longrightarrow>
   normalize_loop sz (s @ rest) out = normalize_loop sz rest (out @ s)"
proof (induction s arbitrary: out)
  case (Cons c s)
  then have "c \<noteq> CHR ''/''"
    by (auto simp: slash_free_def)
  then show ?case
    using Cons normalize_put [of c "s @ rest" out sz] by (simp add: slash_free_def)
qed simp

definition plain_component :: "string \<Rightarrow> bool" where
  "plain_component s \<longleftrightarrow> s \<noteq> [] \<and> s \<noteq> ''.'' \<and> s \<noteq> ''..''"

lemma plain_not_skipped: "slash_free s \<Longrightarrow> plain_component s \<Longrightarrow> \<not> skips (s @ t)"
proof -
  assume s: "slash_free s" "plain_component s"
  obtain c s1 where c: "s = c # s1" "c \<noteq> CHR ''/''"
    using s by (cases s) (auto simp: plain_component_def slash_free_def)
  show ?thesis
  proof (cases s1)
    case Nil
    then show ?thesis
      using c s(2) by (simp add: skips_def plain_component_def)
  next
    case (Cons d s2)
    then have d: "d \<noteq> CHR ''/''"
      using s(1) c by (auto simp: slash_free_def)
    show ?thesis
      using c d Cons s by (cases s2) (auto simp: skips_def plain_component_def slash_free_def)
  qed
qed

text \<open>One component of the path is one step on the stack.\<close>

lemma length_pop: "length (pop_component out) \<le> length out"
  using length_dropWhile_le [of "\<lambda>c. c \<noteq> CHR ''/''" "rev out"] by (simp add: pop_component_def)

lemma render_head: "cs \<noteq> [] \<Longrightarrow> \<exists>t. render cs = CHR ''/'' # t"
  by (cases cs) auto

lemma normalize_components:
  "\<forall>x \<in> set cs. slash_free x \<Longrightarrow> \<forall>x \<in> set st. slash_free x \<Longrightarrow> length (render st @ render cs) < sz \<Longrightarrow>
   normalize_loop sz (render cs) (render st) = Ok (render (norm_components st cs))"
proof (induction st cs rule: norm_components.induct)
  case (1 st)
  then show ?case
    by (simp add: normalize_end)
next
  case (2 st s)
  have pop: "pop_component (render st) = render (butlast st)"
    using pop_render 2(2) by blast
  have short: "length (render (butlast st)) \<le> length (render st)"
    using length_pop [of "render st"] pop by simp
  show ?case
  proof (cases "s = ''..''")
    case True
    then show ?thesis
      using 2(3) short normalize_up(2) [of "render st" sz] by (simp add: pop normalize_end)
  next
    case False
    have "\<not> skips s"
    proof (cases "plain_component s")
      case True
      then show ?thesis
        using plain_not_skipped [of s "[]"] 2(1) by simp
    next
      case False
      then show ?thesis
        using \<open>s \<noteq> ''..''\<close> by (auto simp: plain_component_def skips_def)
    qed
    then show ?thesis
      using False 2 normalize_put [of "CHR ''/''" s "render st" sz] normalize_copy [of s "render st @ ''/''" "[]" sz]
      by (simp add: normalize_end)
  qed
next
  case (3 st s t cs)
  obtain r where r: "render (t # cs) = CHR ''/'' # r"
    by simp
  have pop: "pop_component (render st) = render (butlast st)"
    using pop_render 3(5) by blast
  have short: "length (render (butlast st)) \<le> length (render st)"
    using length_pop [of "render st"] pop by simp
  have butlast: "\<forall>x \<in> set (butlast st). slash_free x"
    using 3(5) by (auto dest: in_set_butlastD)
  consider "s = [] \<or> s = ''.''" | "s = ''..''" | "plain_component s"
    by (auto simp: plain_component_def)
  then show ?case
  proof cases
    case 1
    then show ?thesis
      using 3(1) 3(4-6) normalize_skip by auto
  next
    case 2
    then show ?thesis
      using 3(2) 3(4-6) normalize_up(1) [of sz _ "render st"] butlast short by (simp add: pop)
  next
    case p: 3
    have "\<not> skips (s @ render (t # cs))"
      using plain_not_skipped p 3(4) by simp
    then have "normalize_loop sz (render (s # t # cs)) (render st) = normalize_loop sz (render (t # cs)) (render (st @ [s]))"
      using 3(4,6) normalize_put [of "CHR ''/''" "s @ render (t # cs)" "render st" sz]
        normalize_copy [of s "render st @ ''/''" "render (t # cs)" sz] by simp
    then show ?thesis
      using 3(3) 3(4-6) p by (auto simp: plain_component_def)
  qed
qed

lemma normalize_path_components:
  assumes "c_string p"
  shows "normalize_path (CHR ''/'' # p) = Ok (Some (render (norm_components [] (components p))))"
  using normalize_components [of "components p" "[]" "length p + 2"] components_slash_free [OF assms]
    render_components [of p]
  by (simp add: normalize_path_def)

text \<open>Components of a normalized path: only the last can be empty or a dot, and none is two dots.\<close>

definition normal_components :: "string list \<Rightarrow> bool" where
  "normal_components cs \<longleftrightarrow> cs \<noteq> [] \<and> (\<forall>s \<in> set (butlast cs). plain_component s) \<and> last cs \<noteq> ''..'' \<and>
     (\<forall>s \<in> set cs. slash_free s)"

lemma norm_components_normal:
  "cs \<noteq> [] \<Longrightarrow> \<forall>x \<in> set cs. slash_free x \<Longrightarrow> \<forall>x \<in> set st. slash_free x \<and> plain_component x \<Longrightarrow>
   normal_components (norm_components st cs)"
proof (induction st cs rule: norm_components.induct)
  case (2 st s)
  have "slash_free []"
    by (simp add: slash_free_def)
  then show ?case
    using 2 by (auto simp: normal_components_def dest: in_set_butlastD)
next
  case (3 st s t cs)
  consider "s = [] \<or> s = ''.''" | "s = ''..''" | "plain_component s"
    by (auto simp: plain_component_def)
  then show ?case
  proof cases
    case 1
    then show ?thesis
      using 3(1) 3(5,6) by auto
  next
    case 2
    then show ?thesis
      using 3(2) 3(5,6) by (auto dest: in_set_butlastD)
  next
    case p: 3
    then show ?thesis
      using 3(3) 3(5,6) by (auto simp: plain_component_def)
  qed
qed simp

lemma norm_components_id:
  "(\<forall>s \<in> set (butlast cs). plain_component s) \<Longrightarrow> cs \<noteq> [] \<Longrightarrow> last cs \<noteq> ''..'' \<Longrightarrow> norm_components st cs = st @ cs"
  by (induction st cs rule: norm_components.induct) (auto simp: plain_component_def)

section \<open>Properties of the path helpers\<close>

text \<open>
  C31: \<open>normalize_path\<close> computes the canonical form of every absolute path, within its buffer. The result is
  that of processing the components from left to right on a stack: empty and dot components are
  dropped, two dots remove the component before them and never climb above the root. No component of
  the result is two dots and only the last one can be empty or a dot, and the result is its own
  normal form.
\<close>

theorem normalize_path_canonical:
  assumes "c_string p"
  shows "\<exists>cs. normalize_path (CHR ''/'' # p) = Ok (Some (render cs)) \<and> cs = norm_components [] (components p) \<and>
    normal_components cs \<and> normalize_path (render cs) = Ok (Some (render cs))"
proof -
  let ?cs = "norm_components [] (components p)"
  have normal: "normal_components ?cs"
    using norm_components_normal [of "components p" "[]"] components_not_Nil components_slash_free [OF assms] by simp
  then obtain q where q: "render ?cs = CHR ''/'' # q"
    using render_head [of ?cs] by (auto simp: normal_components_def)
  have "components q = ?cs"
    using components_render [of ?cs] normal q by (simp add: normal_components_def)
  moreover have "c_string q"
  proof -
    have "\<forall>s \<in> set cs. slash_free s \<Longrightarrow> c_string (render cs)" for cs
      by (induction cs) (auto simp: slash_free_def)
    then have "c_string (render ?cs)"
      using normal by (simp add: normal_components_def)
    then show ?thesis
      using q by simp
  qed
  moreover have "norm_components [] ?cs = ?cs"
    using norm_components_id [of ?cs "[]"] normal by (simp add: normal_components_def)
  ultimately have "normalize_path (render ?cs) = Ok (Some (render ?cs))"
    using normalize_path_components [of q] q by simp
  then show ?thesis
    using normal normalize_path_components [OF assms] by blast
qed

theorem normalize_path_canonical_witness: "normalize_path ''/a/.././b//../../c/.'' = Ok (Some ''/c/.'')"
proof -
  have "norm_components [] (components ''a/.././b//../../c/.'') = [''c'', ''.'']"
    by code_simp
  then show ?thesis
    using normalize_path_canonical [of "''a/.././b//../../c/.''"] by simp
qed

text \<open>
  C32: \<open>format_string\<close> terminates and is a single left-to-right substitution: each dollar sign followed by the
  name of a parameter, bare or in braces, is replaced by the value of the first parameter that matches,
  a value is never scanned again whatever it contains, and all other text is kept.
\<close>

theorem format_string_expands: "format_string str params = expand params str"
  using format_loop_expand [of "[]" str params] by (simp add: format_string_def)

section \<open>Searching in strings\<close>

declare strstr.simps [simp del]

lemma strstr_step:
  "strstr [] t = (if t = [] then Some 0 else None)"
  "strstr (c # s) t = (if take (length t) (c # s) = t then Some 0 else map_option Suc (strstr s t))"
  by (subst strstr.simps, auto)+

lemma take_length_le: "take (length t) s = t \<Longrightarrow> length t \<le> length s"
  by (metis length_take min.cobounded1)

lemma strstr_Some: "strstr s t = Some k \<Longrightarrow> k + length t \<le> length s \<and> take (length t) (drop k s) = t"
proof (induction s arbitrary: k)
  case (Cons c s)
  then show ?case
    using take_length_le [of t "c # s"] by (auto simp: strstr_step split: if_splits)
qed (auto simp: strstr_step split: if_splits)

lemma strstr_first: "strstr s t = Some k \<Longrightarrow> j < k \<Longrightarrow> take (length t) (drop j s) \<noteq> t"
proof (induction s arbitrary: k j)
  case (Cons c s)
  then show ?case
    by (cases j) (auto simp: strstr_step split: if_splits)
qed (auto simp: strstr_step split: if_splits)

lemma strstr_None: "strstr s t = None \<Longrightarrow> j \<le> length s \<Longrightarrow> take (length t) (drop j s) \<noteq> t"
proof (induction s arbitrary: j)
  case (Cons c s)
  then show ?case
    by (cases j) (auto simp: strstr_step split: if_splits)
qed (auto simp: strstr_step split: if_splits)

text \<open>
  C33: A zip path is split at its first separator: when \<open>parse_zip_path\<close> succeeds the normalized path is the
  path of the zip file, the separator and the path of the entry, and no separator starts in the first
  of these; it fails only for a path that has no separator or has 512 characters or more after
  normalization.
\<close>

theorem parse_zip_path_splits:
  assumes "normalize_path path = Ok (Some n)"
  shows "\<exists>r. parse_zip_path path = Ok r \<and>
    (case r of
       Some (z, entry) \<Rightarrow> n = z @ ''!/'' @ entry \<and> (\<forall>j < length z. take 2 (drop j n) \<noteq> ''!/'') \<and> length n < 512
     | None \<Rightarrow> (\<forall>j \<le> length n. take 2 (drop j n) \<noteq> ''!/'') \<or> 512 \<le> length n)"
proof (cases "strstr n ''!/''")
  case None
  then show ?thesis
    using assms strstr_None [OF None] by (auto simp: parse_zip_path_def kZipFileSeparator_def numeral_2_eq_2)
next
  case (Some k)
  have "k + 2 \<le> length n" "take 2 (drop k n) = ''!/''"
    using strstr_Some [OF Some] by (simp_all add: numeral_2_eq_2)
  then have "n = take k n @ ''!/'' @ drop (k + 2) n"
    by (metis append_take_drop_id drop_drop add.commute)
  then show ?thesis
    using assms Some strstr_first [OF Some] strstr_Some [OF Some]
    by (auto simp: parse_zip_path_def kZipFileSeparator_def numeral_2_eq_2)
qed

theorem parse_zip_path_splits_witness:
  "\<exists>r. parse_zip_path ''/a.zip!/lib/x.so'' = Ok r \<and> (case r of Some (z, e) \<Rightarrow> ''/a.zip!/lib/x.so'' = z @ ''!/'' @ e | None \<Rightarrow> True)"
proof -
  have "norm_components [] (components ''a.zip!/lib/x.so'') = [''a.zip!'', ''lib'', ''x.so'']"
    by code_simp
  then have "normalize_path ''/a.zip!/lib/x.so'' = Ok (Some ''/a.zip!/lib/x.so'')"
    using normalize_path_components [of "''a.zip!/lib/x.so''"] by simp
  then show ?thesis
    using parse_zip_path_splits [of "''/a.zip!/lib/x.so''"] by (auto split: option.splits)
qed

lemma strncmp_prefix: "c_string a \<Longrightarrow> c_string b \<Longrightarrow> strncmp a b (length b) = 0 \<longleftrightarrow> (\<exists>t. a = b @ t)"
proof -
  assume "c_string a" "c_string b"
  then have "strncmp a b (length b) = 0 \<longleftrightarrow> take (length b) a = b"
    by (simp add: strncmp_eq_0_iff)
  then show ?thesis
    by (metis append_eq_conv_conj append_take_drop_id)
qed

lemma under_dir_iff: "c_string file \<Longrightarrow> c_string dir \<Longrightarrow> file_is_under_dir file dir \<longleftrightarrow> (\<exists>rest. file = dir @ ''/'' @ rest)"
proof
  assume c: "c_string file" "c_string dir"
  assume "file_is_under_dir file dir"
  then obtain t where t: "file = dir @ t" "char_at file (length dir) = CHR ''/''"
    using strncmp_prefix [OF c] by (auto simp: file_is_under_dir_def)
  then show "\<exists>rest. file = dir @ ''/'' @ rest"
    by (cases t) (auto simp: char_at_def)
next
  assume c: "c_string file" "c_string dir"
  assume "\<exists>rest. file = dir @ ''/'' @ rest"
  then show "file_is_under_dir file dir"
    using strncmp_prefix [OF c] by (auto simp: file_is_under_dir_def char_at_def)
qed

lemma in_dir_iff: "file_is_in_dir file dir \<longleftrightarrow> file_is_under_dir file dir \<and> CHR ''/'' \<notin> set (drop (length dir + 1) file)"
  by (auto simp: file_is_in_dir_def file_is_under_dir_def)

lemma strrchr_Some:
  assumes "strrchr s c = Some k"
  shows "\<exists>t. s = take k s @ c # t \<and> c \<notin> set t"
proof -
  have c: "c \<in> set s" "k = length s - 1 - length (takeWhile (\<lambda>x. x \<noteq> c) (rev s))"
    using assms by (auto simp: strrchr_def split: if_splits)
  obtain u t where s: "s = u @ c # t" "c \<notin> set t"
    using split_list_last [OF c(1)] by blast
  have "takeWhile (\<lambda>x. x \<noteq> c) (rev s) = rev t"
    unfolding s(1) using s(2) by (simp add: takeWhile_append2)
  then have "k = length u"
    using c(2) s(1) by simp
  then show ?thesis
    using s by auto
qed

text \<open>
  The tests of containment on the path names: a file is under a directory exactly when its name is that of the
  directory, a slash and a rest, and it is in the directory exactly when the rest has no further slash. A file with
  a slash is in its \<open>dirname\<close> unless that is the root directory: the name of the root ends with the slash that
  the tests look for behind it, so no file \<open>/x\<close> is in \<open>/\<close>.
\<close>

lemma file_dir_tests:
  assumes "c_string file" "c_string dir"
  shows "(file_is_under_dir file dir \<longleftrightarrow> (\<exists>rest. file = dir @ ''/'' @ rest)) \<and>
    (file_is_in_dir file dir \<longleftrightarrow> (\<exists>nm. file = dir @ ''/'' @ nm \<and> CHR ''/'' \<notin> set nm)) \<and>
    (CHR ''/'' \<in> set file \<longrightarrow> dirname file \<noteq> ''/'' \<longrightarrow> file_is_in_dir file (dirname file))"
proof -
  have "file_is_in_dir file d \<longleftrightarrow> (\<exists>nm. file = d @ ''/'' @ nm \<and> CHR ''/'' \<notin> set nm)" if "c_string d" for d
    using under_dir_iff [OF assms(1) that] by (auto simp: in_dir_iff)
  moreover have "\<exists>nm. file = dirname file @ ''/'' @ nm \<and> CHR ''/'' \<notin> set nm" if slash: "CHR ''/'' \<in> set file" "dirname file \<noteq> ''/''"
  proof -
    obtain k where k: "strrchr file (CHR ''/'') = Some k"
      using slash(1) by (simp add: strrchr_def)
    then have "dirname file = take k file"
      using slash(2) by (auto simp: dirname_def split: if_splits)
    then show ?thesis
      using strrchr_Some [OF k] by auto
  qed
  moreover have "c_string (dirname file)"
    using assms(1) by (simp add: dirname_def split: option.split)
  ultimately show ?thesis
    using under_dir_iff [OF assms] assms(2) by blast
qed

section \<open>Arithmetic\<close>

lemma sint_u64: "sint (a :: u64) = (if uint a < 2 ^ 63 then uint a else uint a - 2 ^ 64)"
proof -
  have lt: "uint a < 2 ^ 64" "0 \<le> uint a"
    using uint_lt2p [of a] by simp_all
  have b: "bit (uint a) 63 \<longleftrightarrow> \<not> uint a < 2 ^ 63"
  proof (cases "uint a < 2 ^ 63")
    case True
    then have "uint a div 2 ^ 63 = 0"
      using lt by simp
    then show ?thesis
      using True unfolding bit_iff_odd by simp
  next
    case False
    then have "uint a div 2 ^ 63 = 1"
      using lt by simp
    then show ?thesis
      using False unfolding bit_iff_odd by simp
  qed
  have "sint a = signed_take_bit 63 (uint a)"
    by (simp add: sint_uint)
  also have "\<dots> = take_bit 64 (uint a) - 2 ^ 64 * of_bool (bit (uint a) 63)"
    by (simp add: signed_take_bit_eq_take_bit_minus)
  also have "take_bit 64 (uint a) = uint a"
    using lt by (simp add: take_bit_int_eq_self)
  finally show ?thesis
    unfolding b by simp
qed

lemma page_parts:
  fixes x :: u64
  assumes "k < 64"
  shows "unat (x AND mask k) = unat x mod 2 ^ k" "unat (x AND NOT (mask k)) = unat x div 2 ^ k * 2 ^ k"
proof -
  show m: "unat (x AND mask k) = unat x mod 2 ^ k"
  proof -
    have "unat (x AND mask k) = take_bit k (unat x)"
      by (simp only: unsigned_take_bit_eq flip: take_bit_eq_mask)
    then show ?thesis
      by (simp add: take_bit_eq_mod)
  qed
  have "(x AND mask k) AND (x AND NOT (mask k)) = 0" "(x AND mask k) OR (x AND NOT (mask k)) = x"
    by (auto intro!: bit_eqI simp: bit_simps)
  then have "(x AND mask k) + (x AND NOT (mask k)) = x"
    by (metis disjunctive_add_eq_or)
  then have "x AND NOT (mask k) = x - (x AND mask k)"
    by (metis add_diff_cancel_left')
  moreover have "x AND mask k \<le> x"
    by (simp add: word_le_nat_alt m)
  ultimately have "unat (x AND NOT (mask k)) = unat x - unat x mod 2 ^ k"
    by (simp add: unat_sub m)
  then show "unat (x AND NOT (mask k)) = unat x div 2 ^ k * 2 ^ k"
    by (simp add: minus_mod_eq_div_mult)
qed

text \<open>
  C40: Page arithmetic rounds. For a page size that is a power of two, \<open>page_start\<close> is the largest multiple of
  the page size that is not above the address, \<open>page_offset\<close> is the distance to it, and \<open>page_end\<close> is the
  smallest multiple that is not below the address, unless that is beyond the address space.
\<close>

theorem page_rounding:
  assumes "k < 64"
  shows "unat (page_start (2 ^ k) x) = unat x div 2 ^ k * 2 ^ k \<and> unat (page_offset (2 ^ k) x) = unat x mod 2 ^ k \<and>
    (unat x + 2 ^ k \<le> 2 ^ 64 \<longrightarrow> unat (page_end (2 ^ k) x) = (unat x + 2 ^ k - 1) div 2 ^ k * 2 ^ k)"
proof -
  have mask: "(2 ^ k - 1 :: u64) = mask k"
    by (simp add: mask_eq_exp_minus_1)
  have "unat (x + 2 ^ k - 1) = unat x + 2 ^ k - 1" if "unat x + 2 ^ k \<le> 2 ^ 64"
  proof -
    have "1 \<le> unat x + 2 ^ k"
      using one_le_power [of "2 :: nat" k] by linarith
    then have "of_nat (unat x + 2 ^ k - 1) = (of_nat (unat x + 2 ^ k) - of_nat 1 :: u64)"
      by (rule of_nat_diff)
    then have "x + 2 ^ k - 1 = of_nat (unat x + 2 ^ k - 1)"
      by simp
    moreover have "unat x + 2 ^ k - 1 < 2 ^ 64"
      using that by (simp add: less_le_trans)
    ultimately show ?thesis
      by (simp add: unat_of_nat take_bit_nat_eq_self)
  qed
  then show ?thesis
    using page_parts [OF assms] by (simp add: page_start_def page_offset_def page_end_def mask)
qed

theorem page_rounding_witness: "unat (page_end (2 ^ 12) 5000) = 8192 \<and> unat (page_start (2 ^ 12) 5000) = 4096"
  using page_rounding [of 12 5000] by simp

text \<open>
  C39: \<open>safe_add\<close> is exact: for an offset that is not negative it returns the mathematical sum exactly when
  that fits a signed 64-bit offset, and reports an overflow otherwise.
\<close>

theorem safe_add_exact:
  assumes "0 \<le> sint a"
  shows "safe_add a b = Ok (if sint a + uint b < 2 ^ 63 then Some (a + b) else None) \<and>
    (sint a + uint b < 2 ^ 63 \<longrightarrow> sint (a + b) = sint a + uint b)"
proof -
  have a: "uint a < 2 ^ 63" "sint a = uint a"
    using assms uint_lt2p [of a] by (auto simp: sint_u64 split: if_splits)
  have "uint (0x7fffffffffffffff - a) = 2 ^ 63 - 1 - uint a"
    using a(1) by (simp add: uint_sub_if')
  then have "0x7fffffffffffffff - a < b \<longleftrightarrow> \<not> uint a + uint b < 2 ^ 63"
    by (simp add: word_less_def) linarith
  moreover have "uint (a + b) = uint a + uint b" if "uint a + uint b < 2 ^ 63"
    using that by (simp add: uint_word_ariths)
  ultimately show ?thesis
    using a assms by (simp add: safe_add_def sint_u64)
qed

theorem safe_add_exact_witness: "safe_add 0x7ffffffffffffffe 1 = Ok (Some 0x7fffffffffffffff) \<and> safe_add 0x7ffffffffffffffe 2 = Ok None"
proof -
  have "0 \<le> sint (0x7ffffffffffffffe :: u64)" "sint (0x7ffffffffffffffe :: u64) = 0x7ffffffffffffffe"
    by (simp_all add: sint_u64)
  then show ?thesis
    using safe_add_exact [of "0x7ffffffffffffffe" 1] safe_add_exact [of "0x7ffffffffffffffe" 2] by simp
qed

end
