(* ===== verification/Strtol.thy ===== *)
theory Strtol
  imports Ctype
begin

text \<open>
  The integer parsers of libc/bionic/strtol.cpp. All of them are instances of the template \<open>StrToI\<close>,
  which has the bounds of its result type as parameters; \<open>long\<close>, \<open>long long\<close> and \<open>intmax_t\<close> have 64 bits.

  The pointer \<open>p\<close> of the code is always one past the character in \<open>c\<close>; the model keeps the string from
  \<open>c\<close> on. \<open>*end_ptr\<close> is the rest of the string, and the result carries the value stored in \<open>errno\<close>, if any.
  After an overflow the accumulator is never read again; the model leaves it as it was.
\<close>

datatype parse_errno = EINVAL | ERANGE

definition digit_value :: "u32 \<Rightarrow> int option" where
  "digit_value c =
     (if isdigit c then Some (uint c - 48)
      else if isalpha c then Some (10 + (uint (tolower_bit c) - 97))
      else None)"

fun digit_loop :: "int \<Rightarrow> int \<Rightarrow> int \<Rightarrow> u32 list \<Rightarrow> int \<Rightarrow> int \<Rightarrow> int \<times> int \<times> u32 list" where
  "digit_loop mn mx base [] acc any = (acc, any, [])"
| "digit_loop mn mx base (c # q) acc any =
     (case digit_value c of
        None \<Rightarrow> (acc, any, c # q)
      | Some d \<Rightarrow>
          if d \<ge> base then (acc, any, c # q)
          else if any < 0 then digit_loop mn mx base q acc any
          else if mn \<noteq> 0 then
            (if acc * base < mn \<or> acc * base > mx \<or> acc * base - d < mn \<or> acc * base - d > mx
             then digit_loop mn mx base q acc (-1) else digit_loop mn mx base q (acc * base - d) 1)
          else
            (if acc * base < mn \<or> acc * base > mx \<or> acc * base + d < mn \<or> acc * base + d > mx
             then digit_loop mn mx base q acc (-1) else digit_loop mn mx base q (acc * base + d) 1))"

text \<open>The sign, and the prefix that selects the base.\<close>

definition read_sign :: "u32 list \<Rightarrow> bool \<times> u32 list" where
  "read_sign q =
     (if unit_at q = 0x2d then (True, tl q) else if unit_at q = 0x2b then (False, tl q) else (False, q))"

definition read_prefix :: "int \<Rightarrow> u32 list \<Rightarrow> int \<times> u32 list" where
  "read_prefix base0 q0 =
     (let (base1, q1) =
            (if (base0 = 0 \<or> base0 = 16) \<and> unit_at q0 = 0x30 \<and> (unit_at (tl q0) = 0x78 \<or> unit_at (tl q0) = 0x58) \<and>
                isxdigit (unit_at (drop 2 q0))
             then (16, drop 2 q0) else (base0, q0));
          (base2, q2) =
            (if (base1 = 0 \<or> base1 = 2) \<and> unit_at q1 = 0x30 \<and> (unit_at (tl q1) = 0x62 \<or> unit_at (tl q1) = 0x42) \<and>
                isdigit (unit_at (drop 2 q1))
             then (2, drop 2 q1) else (base1, q1))
      in (if base2 = 0 then (if unit_at q2 = 0x30 then 8 else 10) else base2, q2))"

definition StrToI :: "int \<Rightarrow> int \<Rightarrow> u32 list \<Rightarrow> int \<Rightarrow> int \<times> u32 list \<times> parse_errno option" where
  "StrToI mn mx s base0 =
     (if base0 < 0 \<or> base0 = 1 \<or> base0 > 36 then (0, s, Some EINVAL)
      else
        let (neg, q1) = read_sign (dropWhile isspace s);
            (base, q2) = read_prefix base0 q1;
            (acc, any, q3) = digit_loop mn mx base q2 0 0;
            end_ptr = (if any \<noteq> 0 then q3 else s)
        in if any = -1 then ((if mn \<noteq> 0 \<and> neg then mn else mx), end_ptr, Some ERANGE)
           else if any > 0 \<and> mn \<noteq> 0 \<and> \<not> neg \<and> acc = mn then (mx, end_ptr, Some ERANGE)
           else if mn \<noteq> 0 then ((if neg then acc else - acc), end_ptr, None)
           else ((if neg then (- acc) mod (mx + 1) else acc), end_ptr, None))"

definition strtol :: "u32 list \<Rightarrow> int \<Rightarrow> int \<times> u32 list \<times> parse_errno option" where
  "strtol s base = StrToI (- (2 ^ 63)) (2 ^ 63 - 1) s base"

definition strtoll :: "u32 list \<Rightarrow> int \<Rightarrow> int \<times> u32 list \<times> parse_errno option" where
  "strtoll s base = StrToI (- (2 ^ 63)) (2 ^ 63 - 1) s base"

definition strtoimax :: "u32 list \<Rightarrow> int \<Rightarrow> int \<times> u32 list \<times> parse_errno option" where
  "strtoimax s base = StrToI (- (2 ^ 63)) (2 ^ 63 - 1) s base"

definition strtoul :: "u32 list \<Rightarrow> int \<Rightarrow> int \<times> u32 list \<times> parse_errno option" where
  "strtoul s base = StrToI 0 (2 ^ 64 - 1) s base"

definition strtoull :: "u32 list \<Rightarrow> int \<Rightarrow> int \<times> u32 list \<times> parse_errno option" where
  "strtoull s base = StrToI 0 (2 ^ 64 - 1) s base"

definition strtoumax :: "u32 list \<Rightarrow> int \<Rightarrow> int \<times> u32 list \<times> parse_errno option" where
  "strtoumax s base = StrToI 0 (2 ^ 64 - 1) s base"

definition atol :: "u32 list \<Rightarrow> int" where "atol s = fst (strtol s 10)"
definition atoll :: "u32 list \<Rightarrow> int" where "atoll s = fst (strtoll s 10)"
definition atoi :: "u32 list \<Rightarrow> int" where "atoi s = signed_take_bit 31 (fst (strtol s 10))"

section \<open>The digits of a number\<close>

definition is_digit_of :: "int \<Rightarrow> u32 \<Rightarrow> bool" where
  "is_digit_of base c = (case digit_value c of None \<Rightarrow> False | Some d \<Rightarrow> d < base)"

definition add_digit :: "int \<Rightarrow> int \<Rightarrow> u32 \<Rightarrow> int" where
  "add_digit base v c = v * base + the (digit_value c)"

lemma digit_value_nonneg: "digit_value c = Some d \<Longrightarrow> 0 \<le> d"
proof -
  assume d: "digit_value c = Some d"
  have "97 \<le> uint (tolower_bit c)" if "isalpha c"
    using that by (simp add: isalpha_def word_le_def)
  moreover have "48 \<le> uint c" if "isdigit c"
    using that by (simp add: isdigit_def word_le_def)
  ultimately show ?thesis
    using d by (auto simp: digit_value_def split: if_splits)
qed

lemma foldl_digits_mono:
  assumes "1 \<le> base" "0 \<le> v" "\<forall>c \<in> set ds. is_digit_of base c"
  shows "v \<le> foldl (add_digit base) v ds"
  using assms
proof (induction ds arbitrary: v)
  case (Cons c ds)
  then obtain d where d: "digit_value c = Some d" "0 \<le> d"
    using digit_value_nonneg by (auto simp: is_digit_of_def split: option.splits)
  have "v * 1 \<le> v * base"
    using Cons.prems(1,2) by (intro mult_left_mono) auto
  then have "v \<le> add_digit base v c"
    using d by (simp add: add_digit_def)
  then show ?case
    using Cons.IH [of "add_digit base v c"] Cons.prems by fastforce
qed simp

text \<open>Once over the limit the loop only skips the remaining digits.\<close>

lemma digit_loop_overflow:
  "digit_loop mn mx base q acc (-1) = (acc, -1, dropWhile (is_digit_of base) q)"
  by (induction q) (auto simp: is_digit_of_def split: option.splits)

text \<open>The largest magnitude the accumulator can hold, and its sign.\<close>

definition acc_limit :: "int \<Rightarrow> int \<Rightarrow> int" where "acc_limit mn mx = (if mn \<noteq> 0 then - mn else mx)"
definition acc_of :: "int \<Rightarrow> int \<Rightarrow> int" where "acc_of mn v = (if mn \<noteq> 0 then - v else v)"

lemma acc_of_0: "acc_of mn 0 = 0"
  by (simp add: acc_of_def)

lemma digit_loop_value:
  assumes "mn \<le> 0" "0 \<le> mx" "1 \<le> base" "0 \<le> v" "v \<le> acc_limit mn mx" "0 \<le> any"
  shows "\<exists>acc any'. digit_loop mn mx base q (acc_of mn v) any = (acc, any', dropWhile (is_digit_of base) q) \<and>
    (let ds = takeWhile (is_digit_of base) q; V = foldl (add_digit base) v ds in
     if ds = [] then acc = acc_of mn v \<and> any' = any
     else if V \<le> acc_limit mn mx then acc = acc_of mn V \<and> any' = 1 else any' = -1)"
  using assms(4-6)
proof (induction q arbitrary: v any)
  case (Cons c q)
  show ?case
  proof (cases "is_digit_of base c")
    case False
    then show ?thesis
      by (auto simp: is_digit_of_def split: option.splits)
  next
    case True
    then obtain d where d: "digit_value c = Some d" "0 \<le> d" "d < base"
      using digit_value_nonneg by (auto simp: is_digit_of_def split: option.splits)
    let ?v = "add_digit base v c"
    have v: "?v = v * base + d" "0 \<le> v * base" "0 \<le> ?v"
      using d Cons.prems(1) assms(3) by (simp_all add: add_digit_def)
    have step: "digit_loop mn mx base (c # q) (acc_of mn v) any =
      (if ?v \<le> acc_limit mn mx then digit_loop mn mx base q (acc_of mn ?v) 1
       else digit_loop mn mx base q (acc_of mn v) (-1))"
    proof (cases "mn = 0")
      case True
      have "(v * base < mn \<or> v * base > mx \<or> v * base + d < mn \<or> v * base + d > mx) \<longleftrightarrow> \<not> ?v \<le> mx"
        using True v d(2) assms(2) by linarith
      then show ?thesis
        using True d Cons.prems(3) v(1) by (simp add: acc_of_def acc_limit_def)
    next
      case False
      have "(- (v * base) < mn \<or> - (v * base) > mx \<or> - (v * base) - d < mn \<or> - (v * base) - d > mx) \<longleftrightarrow> \<not> ?v \<le> - mn"
        using v d(2) assms(1,2) by linarith
      then show ?thesis
        using False d Cons.prems(3) v(1) by (simp add: acc_of_def acc_limit_def)
    qed
    show ?thesis
    proof (cases "?v \<le> acc_limit mn mx")
      case fits: True
      obtain acc any' where ih: "digit_loop mn mx base q (acc_of mn ?v) 1 = (acc, any', dropWhile (is_digit_of base) q)"
        "let ds = takeWhile (is_digit_of base) q; V = foldl (add_digit base) ?v ds in
          if ds = [] then acc = acc_of mn ?v \<and> any' = 1
          else if V \<le> acc_limit mn mx then acc = acc_of mn V \<and> any' = 1 else any' = -1"
        using Cons.IH [OF v(3) fits, of 1] by auto
      have "if foldl (add_digit base) ?v (takeWhile (is_digit_of base) q) \<le> acc_limit mn mx
          then acc = acc_of mn (foldl (add_digit base) ?v (takeWhile (is_digit_of base) q)) \<and> any' = 1 else any' = -1"
        using ih(2) fits by (cases "takeWhile (is_digit_of base) q = []") (simp_all add: Let_def)
      moreover have "digit_loop mn mx base (c # q) (acc_of mn v) any = (acc, any', dropWhile (is_digit_of base) (c # q))"
        using step fits ih(1) True by simp
      ultimately show ?thesis
        using True by (intro exI [of _ acc] exI [of _ any']) (simp add: Let_def)
    next
      case False
      have "?v \<le> foldl (add_digit base) ?v (takeWhile (is_digit_of base) q)"
        by (rule foldl_digits_mono [OF assms(3) v(3)]) (blast dest: set_takeWhileD)
      then have "\<not> foldl (add_digit base) ?v (takeWhile (is_digit_of base) q) \<le> acc_limit mn mx"
        using False by linarith
      then show ?thesis
        using False True step unfolding digit_loop_overflow
        by (intro exI [of _ "acc_of mn v"] exI [of _ "-1"]) (simp add: Let_def)
    qed
  qed
qed simp

section \<open>What is parsed\<close>

text \<open>The value of the longest run of digits, and the sign in front of it.\<close>

definition parse_sign :: "u32 list \<Rightarrow> bool" where
  "parse_sign s = fst (read_sign (dropWhile isspace s))"

definition parse_base :: "int \<Rightarrow> u32 list \<Rightarrow> int" where
  "parse_base base s = fst (read_prefix base (snd (read_sign (dropWhile isspace s))))"

definition parse_digits :: "int \<Rightarrow> u32 list \<Rightarrow> u32 list" where
  "parse_digits base s =
     takeWhile (is_digit_of (parse_base base s)) (snd (read_prefix base (snd (read_sign (dropWhile isspace s)))))"

definition parse_rest :: "int \<Rightarrow> u32 list \<Rightarrow> u32 list" where
  "parse_rest base s =
     dropWhile (is_digit_of (parse_base base s)) (snd (read_prefix base (snd (read_sign (dropWhile isspace s)))))"

definition parse_value :: "int \<Rightarrow> u32 list \<Rightarrow> int" where
  "parse_value base s = foldl (add_digit (parse_base base s)) 0 (parse_digits base s)"

lemma parse_base_range: "base = 0 \<or> 2 \<le> base \<Longrightarrow> 2 \<le> parse_base base s"
  by (auto simp: parse_base_def read_prefix_def Let_def)

text \<open>The result as a value that is clamped to the range of the type.\<close>

definition clamp_result :: "int \<Rightarrow> int \<Rightarrow> bool \<Rightarrow> int \<Rightarrow> int \<times> parse_errno option" where
  "clamp_result mn mx neg v =
     (if mn = 0 then (if v \<le> mx then ((if neg then (- v) mod (mx + 1) else v), None) else (mx, Some ERANGE))
      else if neg then (if mn \<le> - v then (- v, None) else (mn, Some ERANGE))
      else (if v \<le> mx then (v, None) else (mx, Some ERANGE)))"

lemma StrToI_parse:
  assumes "base = 0 \<or> 2 \<le> base \<and> base \<le> 36" "mn = 0 \<and> 0 \<le> mx \<or> mn = - mx - 1 \<and> 0 \<le> mx"
  shows "StrToI mn mx s base =
    (if parse_digits base s = [] then (0, s, None)
     else (fst (clamp_result mn mx (parse_sign s) (parse_value base s)), parse_rest base s,
           snd (clamp_result mn mx (parse_sign s) (parse_value base s))))"
proof -
  obtain neg q1 where q1: "read_sign (dropWhile isspace s) = (neg, q1)"
    by (cases "read_sign (dropWhile isspace s)")
  obtain b q2 where q2: "read_prefix base q1 = (b, q2)"
    by (cases "read_prefix base q1")
  have p: "parse_sign s = neg" "parse_base base s = b" "parse_digits base s = takeWhile (is_digit_of b) q2"
    "parse_rest base s = dropWhile (is_digit_of b) q2"
    "parse_value base s = foldl (add_digit b) 0 (takeWhile (is_digit_of b) q2)"
    using q1 q2
    by (simp_all add: parse_sign_def parse_base_def parse_digits_def parse_rest_def parse_value_def)
  have b: "1 \<le> b"
    using parse_base_range [of base s] assms(1) p(2) by auto
  have m: "mn \<le> 0" "0 \<le> mx" "0 \<le> acc_limit mn mx"
    using assms(2) by (auto simp: acc_limit_def)
  obtain acc any where l: "digit_loop mn mx b q2 0 0 = (acc, any, dropWhile (is_digit_of b) q2)"
    "let ds = takeWhile (is_digit_of b) q2; V = foldl (add_digit b) 0 ds in
     if ds = [] then acc = 0 \<and> any = 0
     else if V \<le> acc_limit mn mx then acc = acc_of mn V \<and> any = 1 else any = -1"
    using digit_loop_value [OF m(1,2) b _ m(3), of 0 q2] unfolding acc_of_0 by auto
  have r: "StrToI mn mx s base =
     (let end_ptr = (if any \<noteq> 0 then dropWhile (is_digit_of b) q2 else s) in
      if any = -1 then ((if mn \<noteq> 0 \<and> neg then mn else mx), end_ptr, Some ERANGE)
      else if any > 0 \<and> mn \<noteq> 0 \<and> \<not> neg \<and> acc = mn then (mx, end_ptr, Some ERANGE)
      else if mn \<noteq> 0 then ((if neg then acc else - acc), end_ptr, None)
      else ((if neg then (- acc) mod (mx + 1) else acc), end_ptr, None))"
    using assms(1) q1 q2 l(1) by (auto simp: StrToI_def Let_def)
  show ?thesis
  proof (cases "takeWhile (is_digit_of b) q2 = []")
    case True
    then show ?thesis
      using l(2) p r m by (auto simp: Let_def)
  next
    case False
    let ?V = "foldl (add_digit b) 0 (takeWhile (is_digit_of b) q2)"
    have V: "0 \<le> ?V"
      by (rule foldl_digits_mono [OF b]) (auto dest: set_takeWhileD)
    show ?thesis
    proof (cases "?V \<le> acc_limit mn mx")
      case True
      then have "acc = acc_of mn ?V" "any = 1"
        using l(2) False by (simp_all add: Let_def)
      then show ?thesis
        using False True p r assms(2) V by (auto simp: Let_def clamp_result_def acc_limit_def acc_of_def)
    next
      case over: False
      then have "any = -1"
        using l(2) False by (simp add: Let_def)
      then show ?thesis
        using False over p r assms(2) by (auto simp: Let_def clamp_result_def acc_limit_def)
    qed
  qed
qed

section \<open>Decimal numbers\<close>

fun decimal :: "nat \<Rightarrow> u32 list" where
  "decimal n = (if n < 10 then [0x30 + of_nat n] else decimal (n div 10) @ [0x30 + of_nat (n mod 10)])"

declare decimal.simps [simp del]

definition print_int :: "int \<Rightarrow> u32 list" where
  "print_int x = (if x < 0 then 0x2d # decimal (nat (- x)) else decimal (nat x))"

lemma digit_char:
  assumes "d < 10"
  shows "digit_value (0x30 + of_nat d) = Some (int d)" "unat (0x30 + of_nat d :: u32) = 48 + d"
proof -
  show u: "unat (0x30 + of_nat d :: u32) = 48 + d"
    using assms by (simp add: unat_word_ariths unat_of_nat)
  have "uint (0x30 + of_nat d :: u32) = 48 + int d"
    using u by (metis of_nat_add of_nat_numeral of_nat_unat)
  moreover have "isdigit (0x30 + of_nat d)"
    using u assms by (simp add: isdigit_def word_le_nat_alt)
  ultimately show "digit_value (0x30 + of_nat d) = Some (int d)"
    by (simp add: digit_value_def)
qed

lemma decimal_digits: "\<forall>c \<in> set (decimal n). is_digit_of 10 c \<and> 48 \<le> unat c \<and> unat c \<le> 57"
proof (induction n rule: decimal.induct)
  case (1 n)
  show ?case
  proof (cases "n < 10")
    case True
    then show ?thesis
      using digit_char [OF True] by (subst decimal.simps) (simp add: is_digit_of_def)
  next
    case False
    have "n mod 10 < 10"
      by simp
    then show ?thesis
      using False 1 [OF False] digit_char [of "n mod 10"] by (subst decimal.simps) (auto simp: is_digit_of_def)
  qed
qed

lemma decimal_value: "foldl (add_digit 10) 0 (decimal n) = int n"
proof (induction n rule: decimal.induct)
  case (1 n)
  show ?case
  proof (cases "n < 10")
    case True
    then show ?thesis
      using digit_char [OF True] by (subst decimal.simps) (simp add: add_digit_def)
  next
    case False
    have "int (n div 10) * 10 + int (n mod 10) = int n"
      by (simp add: zdiv_int zmod_int)
    moreover have "n mod 10 < 10"
      by simp
    moreover have "foldl (add_digit 10) 0 (decimal n) = add_digit 10 (int (n div 10)) (0x30 + of_nat (n mod 10))"
      using False 1 [OF False] by (subst decimal.simps) simp
    ultimately show ?thesis
      using digit_char(1) [of "n mod 10"] add_digit_def [of 10 "int (n div 10)" "0x30 + of_nat (n mod 10)"] by simp
  qed
qed

lemma decimal_not_Nil: "decimal n \<noteq> []"
  by (subst decimal.simps) simp

lemma decimal_head: "48 \<le> unat (unit_at (decimal n))" "unat (unit_at (decimal n)) \<le> 57"
  using decimal_not_Nil [of n] decimal_digits [of n] by (auto simp: unit_at_def neq_Nil_conv)

lemma parse_decimal:
  "parse_sign (print_int x) = (x < 0)" "parse_base 10 (print_int x) = 10"
  "parse_digits 10 (print_int x) = decimal (nat \<bar>x\<bar>)" "parse_rest 10 (print_int x) = []"
proof -
  let ?d = "decimal (nat \<bar>x\<bar>)"
  obtain c q where d: "?d = c # q"
    using decimal_not_Nil [of "nat \<bar>x\<bar>"] by (cases ?d) auto
  have c: "48 \<le> unat c" "unat c \<le> 57"
    using decimal_digits [of "nat \<bar>x\<bar>"] d by simp_all
  have ns: "\<not> isspace c" "c \<noteq> 0x2d" "c \<noteq> 0x2b" "\<not> isspace 0x2d"
    using c by (auto simp: isspace_def word_le_nat_alt)
  have sign: "read_sign (dropWhile isspace (print_int x)) = (x < 0, ?d)"
    using ns d by (auto simp: print_int_def read_sign_def unit_at_def)
  have prefix: "read_prefix 10 ?d = (10, ?d)"
    by (simp add: read_prefix_def)
  have tw: "takeWhile (is_digit_of 10) ?d = ?d" "dropWhile (is_digit_of 10) ?d = []"
    using decimal_digits by (auto simp: takeWhile_eq_all_conv dropWhile_eq_Nil_conv)
  show "parse_sign (print_int x) = (x < 0)" "parse_base 10 (print_int x) = 10"
    "parse_digits 10 (print_int x) = ?d" "parse_rest 10 (print_int x) = []"
    by (simp_all add: parse_sign_def parse_base_def parse_digits_def parse_rest_def sign prefix tw)
qed

section \<open>Properties\<close>

text \<open>
  What \<open>strtol\<close> and \<open>strtoul\<close> return, in terms of the sign, base and digits that the readers above find: the
  value of the run of digits as an integer of any size, clamped to the range of the type with ERANGE exactly
  when it is outside of it; the end pointer is after the run, and at the start of the string when there is no
  digit. A negated unsigned number wraps around.
\<close>

lemma strtol_parses:
  assumes "base = 0 \<or> 2 \<le> base \<and> base \<le> 36"
  shows "strtol s base =
      (if parse_digits base s = [] then (0, s, None)
       else let v = (if parse_sign s then - parse_value base s else parse_value base s) in
            if v < - (2 ^ 63) then (- (2 ^ 63), parse_rest base s, Some ERANGE)
            else if v > 2 ^ 63 - 1 then (2 ^ 63 - 1, parse_rest base s, Some ERANGE)
            else (v, parse_rest base s, None)) \<and>
    strtoul s base =
      (if parse_digits base s = [] then (0, s, None)
       else if parse_value base s > 2 ^ 64 - 1 then (2 ^ 64 - 1, parse_rest base s, Some ERANGE)
       else ((if parse_sign s then - parse_value base s else parse_value base s) mod 2 ^ 64, parse_rest base s, None))"
proof -
  have V: "0 \<le> parse_value base s"
    unfolding parse_value_def using parse_base_range [of base s] assms
    by (intro foldl_digits_mono) (auto simp: parse_digits_def dest: set_takeWhileD)
  have "strtol s base =
      (if parse_digits base s = [] then (0, s, None)
       else let v = (if parse_sign s then - parse_value base s else parse_value base s) in
            if v < - (2 ^ 63) then (- (2 ^ 63), parse_rest base s, Some ERANGE)
            else if v > 2 ^ 63 - 1 then (2 ^ 63 - 1, parse_rest base s, Some ERANGE)
            else (v, parse_rest base s, None))"
    using V StrToI_parse [OF assms, of "- (2 ^ 63)" "2 ^ 63 - 1" s]
    by (auto simp: strtol_def clamp_result_def Let_def)
  moreover have "strtoul s base =
      (if parse_digits base s = [] then (0, s, None)
       else if parse_value base s > 2 ^ 64 - 1 then (2 ^ 64 - 1, parse_rest base s, Some ERANGE)
       else ((if parse_sign s then - parse_value base s else parse_value base s) mod 2 ^ 64, parse_rest base s, None))"
    using V StrToI_parse [OF assms, of 0 "2 ^ 64 - 1" s]
    by (auto simp: strtoul_def clamp_result_def)
  ultimately show ?thesis
    by blast
qed

text \<open>
  C34: Printing and parsing are inverse: the decimal form of every \<open>long\<close>, the most negative one included,
  is read back by \<open>strtol\<close> completely and without error, and that of every \<open>int\<close> by \<open>atoi\<close>.
\<close>

theorem strtol_roundtrip:
  "(- (2 ^ 63) \<le> x \<and> x < 2 ^ 63 \<longrightarrow> strtol (print_int x) 10 = (x, [], None)) \<and>
   (- (2 ^ 31) \<le> x \<and> x < 2 ^ 31 \<longrightarrow> atoi (print_int x) = x)"
proof -
  have "strtol (print_int x) 10 = (x, [], None)" if "- (2 ^ 63) \<le> x" "x < 2 ^ 63"
  proof -
    have "parse_value 10 (print_int x) = \<bar>x\<bar>"
      by (simp add: parse_value_def parse_decimal decimal_value)
    then show ?thesis
      using StrToI_parse [of 10 "- (2 ^ 63)" "2 ^ 63 - 1" "print_int x"] that
      by (auto simp: strtol_def parse_decimal decimal_not_Nil clamp_result_def)
  qed
  then show ?thesis
    by (auto simp: atoi_def signed_take_bit_int_eq_self)
qed

theorem strtol_roundtrip_witness: "strtol (print_int (- 9223372036854775808)) 10 = (- 9223372036854775808, [], None)"
  using strtol_roundtrip [of "- 9223372036854775808"] by simp

text \<open>
  A binary prefix that is followed by a digit other than 0 and 1 makes the whole number disappear: \<open>"0b9"\<close> in
  base 0 or 2 yields no number at all, with the end pointer at the start of the string, where the number 0 ends
  before the letter. The test of the hexadecimal prefix looks at the digits of its base and leaves \<open>"0xg"\<close> as the
  number 0.
\<close>

lemma binary_prefix_loses_zero:
  assumes "0x32 \<le> c" "c \<le> 0x39" "base = 0 \<or> base = 2"
  shows "strtol (0x30 # 0x62 # c # s) base = (0, 0x30 # 0x62 # c # s, None)"
proof -
  let ?s = "0x30 # 0x62 # c # s"
  have d: "isdigit c" using assms(1,2) by (auto simp: isdigit_def word_le_nat_alt)
  have sp: "\<not> isspace 0x30" by code_simp
  have sign: "read_sign (dropWhile isspace ?s) = (False, ?s)"
    using sp by (simp add: read_sign_def unit_at_def)
  have prefix: "read_prefix base ?s = (2, c # s)"
    using d assms(3) by (auto simp: read_prefix_def unit_at_def)
  have "\<not> is_digit_of 2 c"
    using d assms(1) by (simp add: is_digit_of_def digit_value_def word_le_def)
  then have "digit_loop (- (2 ^ 63)) (2 ^ 63 - 1) 2 (c # s) 0 0 = (0, 0, c # s)"
    by (auto simp: is_digit_of_def split: option.splits)
  then show ?thesis
    using assms(3) sign prefix by (auto simp: strtol_def StrToI_def)
qed

end
