(* ===== verification/Linker_Config.thy ===== *)
theory Linker_Config
  imports Linker_Utils Strtol
begin

text \<open>
  The configuration of the dynamic linker: linker/linker_config.cpp and linker_config.h.

  The android-base string functions and the reading of files and properties are parameters, fields of
  \<open>base_env\<close>; the iteration order of a \<open>std::unordered_map\<close> is a function \<open>order\<close> of its keys. Error messages are values of \<open>cfg_error\<close>, which
  carry what the text of the message mentions; warnings are not modelled. An \<open>unordered_map\<close> is a partial
  function, a pointer to a \<open>NamespaceConfig\<close> its index in \<open>namespace_configs_\<close>. The linker is a 64-bit one.
\<close>

datatype file_result = FileContent string | FileENOENT | FileError
datatype access_result = AccessOk | AccessENOENT | AccessError

record base_env =
  be_trim :: "string \<Rightarrow> string"
  be_split :: "string \<Rightarrow> string \<Rightarrow> string list"
  be_starts_with :: "string \<Rightarrow> string \<Rightarrow> bool"
  be_ends_with :: "string \<Rightarrow> string \<Rightarrow> bool"
  be_read_file :: "string \<Rightarrow> file_result"
  be_access :: "string \<Rightarrow> access_result"
  be_fs :: fsenv
  be_get_property :: "string \<Rightarrow> string \<Rightarrow> string"
  be_android_api :: int

datatype cfg_error =
  ErrReadFile string
| ErrSectionNotFound nat string
| ErrReadVersion string
| ErrInvalidVersion string string
| ErrUndefinedNamespace nat string
| ErrNoSharedLibs nat string string
| ErrBothSharedLibs nat string string

section \<open>The parser\<close>

datatype token =
  PropertyAssign string string
| PropertyAppend string string
| Section string
| EndOfFile
| ParseError string

record config_parser =
  cp_content :: string
  cp_p :: "nat option"
  cp_lineno :: nat
  cp_was_end_of_file :: bool

definition new_config_parser :: "string \<Rightarrow> config_parser" where
  "new_config_parser content = \<lparr>cp_content = content, cp_p = Some 0, cp_lineno = 0, cp_was_end_of_file = False\<rparr>"

definition NextLine :: "config_parser \<Rightarrow> (string \<times> config_parser) option" where
  "NextLine cp =
     (case cp_p cp of
        None \<Rightarrow> None
      | Some p \<Rightarrow>
          (case find_char (CHR 0x0a) (cp_content cp) p of
             Some found \<Rightarrow>
               Some (substr (cp_content cp) p (found - p), cp\<lparr>cp_p := Some (found + 1), cp_lineno := cp_lineno cp + 1\<rparr>)
           | None \<Rightarrow> Some (drop p (cp_content cp), cp\<lparr>cp_p := None, cp_lineno := cp_lineno cp + 1\<rparr>)))"

text \<open>The part of a line before a comment, and the token a line holds, if it is not blank.\<close>

definition strip_comment :: "base_env \<Rightarrow> string \<Rightarrow> string" where
  "strip_comment e line =
     be_trim e (case find_char (CHR ''#'') line 0 of None \<Rightarrow> line | Some found \<Rightarrow> substr line 0 found)"

definition line_token :: "base_env \<Rightarrow> string \<Rightarrow> token" where
  "line_token e line =
     (if hd line = CHR ''['' \<and> last line = CHR '']'' then Section (substr line 1 (length line - 2))
      else
        (case (find_char (CHR ''='') line 0, strstr line ''+='') of
           (Some found_assign, None) \<Rightarrow>
             PropertyAssign (be_trim e (substr line 0 found_assign)) (be_trim e (drop (found_assign + 1) line))
         | (_, Some found_append) \<Rightarrow>
             PropertyAppend (be_trim e (substr line 0 found_append)) (be_trim e (drop (found_append + 2) line))
         | (None, None) \<Rightarrow> ParseError line))"

definition cp_size :: "config_parser \<Rightarrow> nat" where
  "cp_size cp = (case cp_p cp of None \<Rightarrow> 0 | Some p \<Rightarrow> length (cp_content cp) - p + 1)"

lemma NextLine_less: "NextLine cp = Some (line, cp') \<Longrightarrow> cp_size cp' < cp_size cp"
  by (auto simp: NextLine_def cp_size_def split: option.splits dest!: find_char_range)

function next_token :: "base_env \<Rightarrow> config_parser \<Rightarrow> (token \<times> config_parser) res" where
  "next_token e cp =
     (case NextLine cp of
        Some (l, cp') \<Rightarrow>
          (let line = strip_comment e l in
           if line = [] then next_token e cp' else Ok (line_token e line, cp'))
      | None \<Rightarrow>
          if cp_was_end_of_file cp then Abort
          else Ok (EndOfFile, cp\<lparr>cp_was_end_of_file := True\<rparr>))"
  by pat_completeness auto

termination next_token
  by (relation "measure (\<lambda>(e, cp). cp_size cp)") (auto dest: NextLine_less)

declare next_token.simps [simp del]

lemma line_token_not_eof: "line_token e line \<noteq> EndOfFile"
  by (auto simp: line_token_def split: option.split)

lemma next_token_less:
  "next_token e cp = Ok (t, cp') \<Longrightarrow> t \<noteq> EndOfFile \<Longrightarrow> cp_size cp' < cp_size cp"
proof (induction e cp rule: next_token.induct)
  case (1 e cp)
  show ?case
  proof (cases "NextLine cp")
    case None
    then show ?thesis
      using 1(2,3) by (subst (asm) next_token.simps) (auto split: if_splits)
  next
    case (Some x)
    obtain l cp1 where x: "x = (l, cp1)"
      by (cases x)
    have less: "cp_size cp1 < cp_size cp"
      using NextLine_less Some x by blast
    have "next_token e cp = (if strip_comment e l = [] then next_token e cp1 else Ok (line_token e (strip_comment e l), cp1))"
      using Some x by (subst next_token.simps) (simp add: Let_def)
    then show ?thesis
      using 1(1) [OF Some x [symmetric] refl] 1(2,3) less by (cases "strip_comment e l = []") auto
  qed
qed

section \<open>Parsing a file\<close>

record property_value =
  pv_value :: string
  pv_lineno :: nat

type_synonym property_map = "string \<rightharpoonup> property_value"

definition strip_slashes :: "string \<Rightarrow> string" where
  "strip_slashes v = rev (dropWhile (\<lambda>c. c = CHR ''/'') (rev v))"

text \<open>
  The section of a binary, if the token is an assignment of a directory that contains it: \<open>Some\<close> of the
  name when the loop stops, \<open>None\<close> when it goes on.
\<close>

definition dir_section :: "base_env \<Rightarrow> string \<Rightarrow> string \<Rightarrow> string \<Rightarrow> string option" where
  "dir_section e binary_realpath nm v0 =
     (if \<not> be_starts_with e nm ''dir.'' then None
      else
        let v = strip_slashes v0 in
        if v = [] then None
        else if be_access e v = AccessENOENT then None
        else
          let resolved_path =
                (if be_access e v = AccessOk
                 then (case fs_realpath (be_fs e) v of Some buf \<Rightarrow> buf | None \<Rightarrow> v) else v) in
          if file_is_under_dir binary_realpath resolved_path then Some (drop 4 nm) else None)"

function find_section :: "base_env \<Rightarrow> string \<Rightarrow> config_parser \<Rightarrow> (string option \<times> config_parser) res" where
  "find_section e binary_realpath cp =
     (case next_token e cp of
        Ok (t, cp') \<Rightarrow>
          (case t of
             ParseError _ \<Rightarrow> find_section e binary_realpath cp'
           | Section _ \<Rightarrow> Ok (None, cp')
           | EndOfFile \<Rightarrow> Ok (None, cp')
           | PropertyAssign nm v \<Rightarrow>
               (case dir_section e binary_realpath nm v of
                  Some section_name \<Rightarrow> Ok (Some section_name, cp')
                | None \<Rightarrow> find_section e binary_realpath cp')
           | PropertyAppend _ _ \<Rightarrow> find_section e binary_realpath cp')
      | Abort \<Rightarrow> Abort
      | Undef \<Rightarrow> Undef)"
  by pat_completeness auto

termination find_section
  by (relation "measure (\<lambda>(e, b, cp). cp_size cp)") (auto dest: next_token_less)

text \<open>\<open>False\<close> when the file has no such section.\<close>

function skip_to_section :: "base_env \<Rightarrow> string \<Rightarrow> config_parser \<Rightarrow> (bool \<times> config_parser) res" where
  "skip_to_section e section_name cp =
     (case next_token e cp of
        Ok (t, cp') \<Rightarrow>
          if t = Section section_name then Ok (True, cp')
          else if t = EndOfFile then Ok (False, cp')
          else skip_to_section e section_name cp'
      | Abort \<Rightarrow> Abort
      | Undef \<Rightarrow> Undef)"
  by pat_completeness auto

termination skip_to_section
  by (relation "measure (\<lambda>(e, b, cp). cp_size cp)") (auto dest: next_token_less)

definition assign_property :: "string \<Rightarrow> string \<Rightarrow> nat \<Rightarrow> property_map \<Rightarrow> property_map" where
  "assign_property nm v lineno props = props(nm \<mapsto> \<lparr>pv_value = v, pv_lineno = lineno\<rparr>)"

definition append_value :: "string \<Rightarrow> property_value \<Rightarrow> property_value" where
  "append_value v pv = pv\<lparr>pv_value := pv_value pv @ v\<rparr>"

definition append_property :: "base_env \<Rightarrow> string \<Rightarrow> string \<Rightarrow> nat \<Rightarrow> property_map \<Rightarrow> property_map" where
  "append_property e nm v lineno props =
     (case props nm of
        None \<Rightarrow> assign_property nm v lineno props
      | Some pv \<Rightarrow>
          if be_ends_with e nm ''.links'' \<or> be_ends_with e nm ''.namespaces''
          then props(nm \<mapsto> append_value ('','' @ v) pv)
          else if be_ends_with e nm ''.paths'' \<or> be_ends_with e nm ''.shared_libs'' \<or>
                  be_ends_with e nm ''.whitelisted'' \<or> be_ends_with e nm ''.allowed_libs''
          then props(nm \<mapsto> append_value ('':'' @ v) pv)
          else props)"

function read_section :: "base_env \<Rightarrow> config_parser \<Rightarrow> property_map \<Rightarrow> property_map res" where
  "read_section e cp props =
     (case next_token e cp of
        Ok (t, cp') \<Rightarrow>
          (case t of
             EndOfFile \<Rightarrow> Ok props
           | Section _ \<Rightarrow> Ok props
           | PropertyAssign nm v \<Rightarrow> read_section e cp' (assign_property nm v (cp_lineno cp') props)
           | PropertyAppend nm v \<Rightarrow> read_section e cp' (append_property e nm v (cp_lineno cp') props)
           | ParseError _ \<Rightarrow> read_section e cp' props)
      | Abort \<Rightarrow> Abort
      | Undef \<Rightarrow> Undef)"
  by pat_completeness auto

termination read_section
  by (relation "measure (\<lambda>(e, cp, props). cp_size cp)") (auto dest: next_token_less)

declare find_section.simps [simp del] skip_to_section.simps [simp del] read_section.simps [simp del]

text \<open>\<open>Inr\<close> of the properties, or \<open>Inl\<close> of the error message that is set, if any.\<close>

definition parse_config_file :: "base_env \<Rightarrow> string \<Rightarrow> string \<Rightarrow> (cfg_error option + property_map) res" where
  "parse_config_file e ld_config_file_path binary_realpath =
     (case be_read_file e ld_config_file_path of
        FileENOENT \<Rightarrow> Ok (Inl None)
      | FileError \<Rightarrow> Ok (Inl (Some (ErrReadFile ld_config_file_path)))
      | FileContent content \<Rightarrow>
          res_bind (find_section e binary_realpath (new_config_parser content))
            (\<lambda>(section, cp). case section of
                None \<Rightarrow> Ok (Inl None)
              | Some section_name \<Rightarrow>
                  res_bind (skip_to_section e section_name cp)
                    (\<lambda>(found, cp').
                       if \<not> found then Ok (Inl (Some (ErrSectionNotFound (cp_lineno cp') section_name)))
                       else res_bind (read_section e cp' Map.empty) (\<lambda>props. Ok (Inr props)))))"

section \<open>Properties\<close>

record properties =
  ps_properties :: property_map
  ps_resolved_paths :: "string \<rightharpoonup> string"
  ps_target_sdk_version :: int

text \<open>The value of a property and the line number that is left in \<open>*lineno\<close>.\<close>

definition Properties_find_property :: "properties \<Rightarrow> string \<Rightarrow> nat \<Rightarrow> string option \<times> nat" where
  "Properties_find_property ps nm lineno =
     (case ps_properties ps nm of None \<Rightarrow> (None, lineno) | Some pv \<Rightarrow> (Some (pv_value pv), pv_lineno pv))"

definition get_strings :: "base_env \<Rightarrow> properties \<Rightarrow> string \<Rightarrow> nat \<Rightarrow> string list \<times> nat" where
  "get_strings e ps nm lineno =
     (case Properties_find_property ps nm lineno of
        (None, l) \<Rightarrow> ([], l)
      | (Some v, l) \<Rightarrow> (map (be_trim e) (be_split e v '',''), l))"

definition get_bool :: "properties \<Rightarrow> string \<Rightarrow> bool" where
  "get_bool ps nm = (fst (Properties_find_property ps nm 0) = Some ''true'')"

definition get_string :: "properties \<Rightarrow> string \<Rightarrow> nat \<Rightarrow> string \<times> nat" where
  "get_string ps nm lineno =
     (case Properties_find_property ps nm lineno of (None, l) \<Rightarrow> ([], l) | (Some v, l) \<Rightarrow> (v, l))"

definition kLibPath :: string where "kLibPath = ''lib64''"

definition get_vndk_version_string :: "base_env \<Rightarrow> char \<Rightarrow> string" where
  "get_vndk_version_string e delimiter =
     (let version = be_get_property e ''ro.vndk.version'' '''' in
      if version \<noteq> '''' \<and> version \<noteq> ''current'' then delimiter # version else '''')"

definition path_params :: "base_env \<Rightarrow> int \<Rightarrow> (string \<times> string) list" where
  "path_params e sdk =
     [(''LIB'', kLibPath)] @
     (if sdk \<noteq> 0 then [(''SDK_VER'', map (char_of \<circ> unat) (print_int sdk))] else []) @
     [(''VNDK_VER'', get_vndk_version_string e (CHR ''-'')),
      (''VNDK_APEX_VER'', get_vndk_version_string e (CHR ''v''))]"

fun resolve_cached :: "fsenv \<Rightarrow> (string \<rightharpoonup> string) \<Rightarrow> string list \<Rightarrow> (string list \<times> (string \<rightharpoonup> string)) res" where
  "resolve_cached fs cache [] = Ok ([], cache)"
| "resolve_cached fs cache (path # paths) =
     (if path = [] then resolve_cached fs cache paths
      else
        res_bind (case cache path of Some r \<Rightarrow> Ok r | None \<Rightarrow> resolve_path fs path)
          (\<lambda>r. res_bind (resolve_cached fs (cache(path \<mapsto> r)) paths)
             (\<lambda>(rest, cache'). Ok (if r = [] then rest else r # rest, cache'))))"

definition get_paths :: "base_env \<Rightarrow> properties \<Rightarrow> string \<Rightarrow> bool \<Rightarrow> (string list \<times> properties) res" where
  "get_paths e ps nm resolve =
     (let paths_str = fst (get_string ps nm 0);
          paths = map (\<lambda>p. format_string p (path_params e (ps_target_sdk_version ps)))
                    (split_path (be_split e) (Some (c_str paths_str)) '':'' []) in
      if resolve then
        res_bind (resolve_cached (be_fs e) (ps_resolved_paths ps) paths)
          (\<lambda>(rs, cache). Ok (rs, ps\<lparr>ps_resolved_paths := cache\<rparr>))
      else Ok (paths, ps))"

section \<open>The configuration\<close>

record namespace_link_config =
  nl_ns_name :: string
  nl_shared_libs :: string
  nl_allow_all_shared_libs :: bool

record namespace_config =
  nc_name :: string
  nc_isolated :: bool
  nc_visible :: bool
  nc_search_paths :: "string list"
  nc_permitted_paths :: "string list"
  nc_allowed_libs :: "string list"
  nc_links :: "namespace_link_config list"

definition new_namespace_config :: "string \<Rightarrow> namespace_config" where
  "new_namespace_config nm =
     \<lparr>nc_name = nm, nc_isolated = False, nc_visible = False, nc_search_paths = [], nc_permitted_paths = [],
      nc_allowed_libs = [], nc_links = []\<rparr>"

record config =
  cf_namespace_configs :: "namespace_config list"
  cf_namespace_configs_map :: "string \<rightharpoonup> nat"
  cf_target_sdk_version :: int

definition default_namespace_config :: "config \<Rightarrow> namespace_config option" where
  "default_namespace_config c = map_option (\<lambda>i. cf_namespace_configs c ! i) (cf_namespace_configs_map c ''default'')"

definition create_namespace_config :: "string \<Rightarrow> config \<Rightarrow> config" where
  "create_namespace_config nm c =
     c\<lparr>cf_namespace_configs := cf_namespace_configs c @ [new_namespace_config nm],
       cf_namespace_configs_map := (cf_namespace_configs_map c)(nm \<mapsto> length (cf_namespace_configs c))\<rparr>"

definition config_clear :: "config \<Rightarrow> config" where
  "config_clear c = c\<lparr>cf_namespace_configs := [], cf_namespace_configs_map := Map.empty\<rparr>"

text \<open>The links of one namespace, with the running line number of the code.\<close>

fun add_links ::
  "properties \<Rightarrow> string list \<Rightarrow> string \<Rightarrow> string list \<Rightarrow> nat \<Rightarrow> namespace_link_config list
   \<Rightarrow> cfg_error + (namespace_link_config list \<times> nat)" where
  "add_links ps names nm [] lineno links = Inr (links, lineno)"
| "add_links ps names nm (linked # rest) lineno links =
     (if linked \<notin> set names then Inl (ErrUndefinedNamespace lineno linked)
      else
        let prefix = ''namespace.'' @ nm @ ''.link.'' @ linked;
            allow_all = get_bool ps (prefix @ ''.allow_all_shared_libs'');
            (shared_libs, lineno') = get_string ps (prefix @ ''.shared_libs'') lineno in
        if \<not> allow_all \<and> shared_libs = [] then Inl (ErrNoSharedLibs lineno' nm linked)
        else if allow_all \<and> shared_libs \<noteq> [] then Inl (ErrBothSharedLibs lineno' nm linked)
        else add_links ps names nm rest lineno'
               (links @ [\<lparr>nl_ns_name = linked, nl_shared_libs = shared_libs, nl_allow_all_shared_libs = allow_all\<rparr>]))"

definition set_flags :: "base_env \<Rightarrow> properties \<Rightarrow> string \<Rightarrow> nat \<Rightarrow> namespace_config \<Rightarrow> namespace_config" where
  "set_flags e ps nm lineno nc =
     (let prefix = ''namespace.'' @ nm;
          nc1 = nc\<lparr>nc_isolated := get_bool ps (prefix @ ''.isolated''), nc_visible := get_bool ps (prefix @ ''.visible'')\<rparr>;
          allowed = fst (get_string ps (prefix @ ''.whitelisted'') lineno);
          libs = fst (get_string ps (prefix @ ''.allowed_libs'') lineno);
          allowed_libs = (if allowed \<noteq> [] \<and> libs \<noteq> [] then allowed @ '':'' else allowed) @ libs in
      if allowed_libs \<noteq> [] then nc1\<lparr>nc_allowed_libs := be_split e allowed_libs '':''\<rparr> else nc1)"

definition asan_prefix :: "bool \<Rightarrow> bool \<Rightarrow> string \<Rightarrow> string" where
  "asan_prefix is_asan is_hwasan nm =
     (let prefix = ''namespace.'' @ nm in
      if is_asan then prefix @ ''.asan'' else if is_hwasan then prefix @ ''.hwasan'' else prefix)"

definition configure_namespace ::
  "base_env \<Rightarrow> bool \<Rightarrow> bool \<Rightarrow> string list \<Rightarrow> string \<Rightarrow> properties \<Rightarrow> namespace_config
   \<Rightarrow> (cfg_error + (namespace_config \<times> properties)) res" where
  "configure_namespace e is_asan is_hwasan names nm ps nc =
     (let (linked_namespaces, lineno) = get_strings e ps (''namespace.'' @ nm @ ''.links'') 0 in
      case add_links ps names nm linked_namespaces lineno (nc_links nc) of
        Inl err \<Rightarrow> Ok (Inl err)
      | Inr (links, lineno') \<Rightarrow>
          (let prefix = asan_prefix is_asan is_hwasan nm in
           res_bind (get_paths e ps (prefix @ ''.search.paths'') True)
             (\<lambda>(search, ps1). res_bind (get_paths e ps1 (prefix @ ''.permitted.paths'') False)
                (\<lambda>(permitted, ps2).
                   Ok (Inr ((set_flags e ps nm lineno' (nc\<lparr>nc_links := links\<rparr>))
                              \<lparr>nc_search_paths := search, nc_permitted_paths := permitted\<rparr>, ps2))))))"

fun configure_namespaces ::
  "base_env \<Rightarrow> bool \<Rightarrow> bool \<Rightarrow> string list \<Rightarrow> string list \<Rightarrow> properties \<Rightarrow> config \<Rightarrow> (cfg_error + config) res" where
  "configure_namespaces e is_asan is_hwasan names [] ps c = Ok (Inr c)"
| "configure_namespaces e is_asan is_hwasan names (nm # rest) ps c =
     (case cf_namespace_configs_map c nm of
        None \<Rightarrow> Undef
      | Some i \<Rightarrow>
          res_bind (configure_namespace e is_asan is_hwasan names nm ps (cf_namespace_configs c ! i))
            (\<lambda>r. case r of
                Inl err \<Rightarrow> Ok (Inl err)
              | Inr (nc, ps') \<Rightarrow>
                  configure_namespaces e is_asan is_hwasan names rest ps'
                    (c\<lparr>cf_namespace_configs := (cf_namespace_configs c)[i := nc]\<rparr>)))"

text \<open>The target SDK version of the binary, from the file beside it if versioning is enabled.\<close>

definition read_target_sdk_version :: "base_env \<Rightarrow> string \<Rightarrow> properties \<Rightarrow> cfg_error + int" where
  "read_target_sdk_version e binary_realpath ps =
     (if \<not> get_bool ps ''enable.target.sdk.version'' then Inr (be_android_api e)
      else
        let version_file = dirname binary_realpath @ ''/.version'' in
        case be_read_file e version_file of
          FileENOENT \<Rightarrow> Inr (be_android_api e)
        | FileError \<Rightarrow> Inl (ErrReadVersion version_file)
        | FileContent content0 \<Rightarrow>
            (let content = be_trim e content0;
                 (v, rest, err) = strtol (map of_char (c_str content)) 10;
                 result = signed_take_bit 31 v in
             if err = None \<and> rest = [] \<and> result > 0 then Inr result
             else Inl (ErrInvalidVersion version_file content)))"

text \<open>
  \<open>g_config\<close> after the call, and the result: \<open>Inr\<close> for true, \<open>Inl\<close> of the error message, if one is set, for
  false. The first part is the body after the file has been parsed; every failure in it runs the scope
  guard that clears the configuration.
\<close>

definition build_config ::
  "base_env \<Rightarrow> (string list \<Rightarrow> string list) \<Rightarrow> string \<Rightarrow> bool \<Rightarrow> bool \<Rightarrow> property_map \<Rightarrow> config
   \<Rightarrow> (config \<times> (cfg_error option + unit)) res" where
  "build_config e order binary_realpath is_asan is_hwasan property_map g0 =
     (let ps = \<lparr>ps_properties = property_map, ps_resolved_paths = Map.empty, ps_target_sdk_version = be_android_api e\<rparr>;
          additional = fst (get_strings e ps ''additional.namespaces'' 0);
          g1 = fold create_namespace_config (''default'' # additional) g0;
          names = remdups (''default'' # additional) in
      (case read_target_sdk_version e binary_realpath ps of
         Inl err \<Rightarrow> Ok (config_clear g1, Inl (Some err))
       | Inr sdk \<Rightarrow>
           (let g2 = g1\<lparr>cf_target_sdk_version := sdk\<rparr> in
            res_bind (configure_namespaces e is_asan is_hwasan names (order names)
                        (ps\<lparr>ps_target_sdk_version := sdk\<rparr>) g2)
              (\<lambda>c. case c of
                  Inl err \<Rightarrow> Ok (config_clear g2, Inl (Some err))
                | Inr g3 \<Rightarrow> Ok (g3, Inr ())))))"

definition read_config_for_binary ::
  "base_env \<Rightarrow> (string list \<Rightarrow> string list) \<Rightarrow> string \<Rightarrow> string \<Rightarrow> bool \<Rightarrow> bool \<Rightarrow> config
   \<Rightarrow> (config \<times> (cfg_error option + unit)) res" where
  "read_config_for_binary e order ld_config_file_path binary_realpath is_asan is_hwasan g_config0 =
     res_bind (parse_config_file e ld_config_file_path binary_realpath)
       (\<lambda>r. case r of
           Inl err \<Rightarrow> Ok (config_clear g_config0, Inl err)
         | Inr property_map \<Rightarrow> build_config e order binary_realpath is_asan is_hwasan property_map (config_clear g_config0))"

end
