(* ===== verification/Linker_Config_Parse.thy ===== *)
theory Linker_Config_Parse
  imports Linker_Config
begin

text \<open>
  Parsing a linker configuration file: the stream of tokens that the parser reads off the text one at a
  time, and what the three loops over it select.
\<close>

section \<open>The tokens of a file\<close>

fun split_on :: "char \<Rightarrow> string \<Rightarrow> string list" where
  "split_on d [] = [[]]"
| "split_on d (c # s) =
     (if c = d then [] # split_on d s else (case split_on d s of [] \<Rightarrow> [[c]] | x # xs \<Rightarrow> (c # x) # xs))"

lemma split_on_not_Nil: "split_on d s \<noteq> []"
  by (cases s) (auto split: list.split)

lemma split_on_none: "d \<notin> set s \<Longrightarrow> split_on d s = [s]"
  by (induction s) auto

lemma split_on_first: "d \<notin> set u \<Longrightarrow> split_on d (u @ d # t) = u # split_on d t"
  by (induction u) auto

text \<open>The tokens of the lines, each with the number of its line.\<close>

fun tokens :: "base_env \<Rightarrow> string list \<Rightarrow> nat \<Rightarrow> (token \<times> nat) list" where
  "tokens e [] n = []"
| "tokens e (l # ls) n =
     (if strip_comment e l = [] then tokens e ls (n + 1)
      else (line_token e (strip_comment e l), n + 1) # tokens e ls (n + 1))"

definition rest_lines :: "config_parser \<Rightarrow> string list" where
  "rest_lines cp = (case cp_p cp of None \<Rightarrow> [] | Some p \<Rightarrow> split_on (CHR 0x0a) (drop p (cp_content cp)))"

definition cp_tokens :: "base_env \<Rightarrow> config_parser \<Rightarrow> (token \<times> nat) list" where
  "cp_tokens e cp = tokens e (rest_lines cp) (cp_lineno cp)"

definition cp_wf :: "nat \<Rightarrow> config_parser \<Rightarrow> bool" where
  "cp_wf n cp \<longleftrightarrow> \<not> cp_was_end_of_file cp \<and> cp_lineno cp + length (rest_lines cp) = n \<and>
     (case cp_p cp of None \<Rightarrow> True | Some p \<Rightarrow> p \<le> length (cp_content cp))"

lemma NextLine_lines:
  assumes "cp_wf n cp"
  shows "case rest_lines cp of
      [] \<Rightarrow> NextLine cp = None
    | l # ls \<Rightarrow> \<exists>cp'. NextLine cp = Some (l, cp') \<and> rest_lines cp' = ls \<and> cp_lineno cp' = cp_lineno cp + 1 \<and> cp_wf n cp'"
proof (cases "cp_p cp")
  case None
  then show ?thesis
    by (simp add: NextLine_def rest_lines_def)
next
  case (Some p)
  let ?s = "drop p (cp_content cp)"
  have p: "p \<le> length (cp_content cp)"
    using assms Some by (simp add: cp_wf_def)
  have find: "find_char (CHR 0x0a) (cp_content cp) p =
     (if CHR 0x0a \<in> set ?s then Some (p + length (takeWhile (\<lambda>x. x \<noteq> CHR 0x0a) ?s)) else None)"
    using find_char_split [of "CHR 0x0a" "take p (cp_content cp)" ?s] p by simp
  show ?thesis
  proof (cases "CHR 0x0a \<in> set ?s")
    case False
    then show ?thesis
      using Some find assms split_on_none [OF False] by (auto simp: NextLine_def rest_lines_def cp_wf_def)
  next
    case True
    obtain u t where s: "?s = u @ CHR 0x0a # t" "CHR 0x0a \<notin> set u"
      using split_list_first [OF True] by blast
    have u: "takeWhile (\<lambda>x. x \<noteq> CHR 0x0a) ?s = u"
      unfolding s(1) using s(2) by (subst takeWhile_append2) auto
    have "drop (Suc (p + length u)) (cp_content cp) = drop (Suc (length u)) ?s"
      by (simp add: add.commute)
    then have t: "drop (Suc (p + length u)) (cp_content cp) = t"
      using s(1) by simp
    have "length ?s = length u + 1 + length t"
      using s(1) by simp
    then have "Suc (p + length u) \<le> length (cp_content cp)"
      using p by simp
    then show ?thesis
      using Some find u True t assms s(1) split_on_first [OF s(2), of t]
      by (auto simp: NextLine_def rest_lines_def cp_wf_def substr_def)
  qed
qed

lemma next_token_tokens:
  "cp_wf n cp \<Longrightarrow>
   (case cp_tokens e cp of
      [] \<Rightarrow> \<exists>cp'. next_token e cp = Ok (EndOfFile, cp') \<and> cp_lineno cp' = n
    | (t, k) # ts \<Rightarrow> \<exists>cp'. next_token e cp = Ok (t, cp') \<and> cp_lineno cp' = k \<and> cp_tokens e cp' = ts \<and> cp_wf n cp')"
proof (induction e cp rule: next_token.induct)
  case (1 e cp)
  show ?case
  proof (cases "rest_lines cp")
    case Nil
    then have "NextLine cp = None" "cp_tokens e cp = []" "cp_lineno cp = n" "\<not> cp_was_end_of_file cp"
      using NextLine_lines [OF 1(2)] 1(2) by (simp_all add: cp_tokens_def cp_wf_def)
    then show ?thesis
      by (subst next_token.simps) simp
  next
    case (Cons l ls)
    then obtain cp1 where cp1: "NextLine cp = Some (l, cp1)" "rest_lines cp1 = ls" "cp_lineno cp1 = cp_lineno cp + 1" "cp_wf n cp1"
      using NextLine_lines [OF 1(2)] by auto
    have step: "next_token e cp = (if strip_comment e l = [] then next_token e cp1 else Ok (line_token e (strip_comment e l), cp1))"
      using cp1(1) by (subst next_token.simps) (simp add: Let_def)
    have toks: "cp_tokens e cp = (if strip_comment e l = [] then cp_tokens e cp1
       else (line_token e (strip_comment e l), cp_lineno cp1) # cp_tokens e cp1)"
      using Cons cp1(2,3) by (simp add: cp_tokens_def)
    show ?thesis
    proof (cases "strip_comment e l = []")
      case True
      then have eq: "next_token e cp = next_token e cp1" "cp_tokens e cp = cp_tokens e cp1"
        using step toks by simp_all
      show ?thesis
        unfolding eq using 1(1) [OF cp1(1) refl refl True cp1(4)] .
    next
      case False
      then show ?thesis
        using step toks cp1(4) by simp
    qed
  qed
qed

section \<open>What parsing a file does\<close>

definition is_section :: "token \<times> nat \<Rightarrow> bool" where
  "is_section t = (case fst t of Section _ \<Rightarrow> True | _ \<Rightarrow> False)"

definition token_section :: "base_env \<Rightarrow> string \<Rightarrow> token \<times> nat \<Rightarrow> string option" where
  "token_section e binary t = (case fst t of PropertyAssign nm v \<Rightarrow> dir_section e binary nm v | _ \<Rightarrow> None)"

text \<open>The section of a binary: that of the first directory before any section that contains it.\<close>

fun section_for :: "base_env \<Rightarrow> string \<Rightarrow> (token \<times> nat) list \<Rightarrow> string option" where
  "section_for e binary [] = None"
| "section_for e binary (t # ts) =
     (if is_section t then None
      else case token_section e binary t of Some s \<Rightarrow> Some s | None \<Rightarrow> section_for e binary ts)"

definition apply_token :: "base_env \<Rightarrow> token \<times> nat \<Rightarrow> property_map \<Rightarrow> property_map" where
  "apply_token e t props =
     (case fst t of
        PropertyAssign nm v \<Rightarrow> assign_property nm v (snd t) props
      | PropertyAppend nm v \<Rightarrow> append_property e nm v (snd t) props
      | _ \<Rightarrow> props)"

definition section_tokens :: "string \<Rightarrow> (token \<times> nat) list \<Rightarrow> (token \<times> nat) list" where
  "section_tokens s ts = takeWhile (\<lambda>t. \<not> is_section t) (tl (dropWhile (\<lambda>t. fst t \<noteq> Section s) ts))"

lemma tokens_not_eof: "(t, k) \<in> set (tokens e ls n) \<Longrightarrow> t \<noteq> EndOfFile"
  by (induction ls arbitrary: n) (auto simp: line_token_not_eof line_token_not_eof [symmetric] split: if_splits)

lemma cp_tokens_Nil: "cp_wf n cp \<Longrightarrow> cp_tokens e cp = [] \<Longrightarrow> \<exists>cp'. next_token e cp = Ok (EndOfFile, cp') \<and> cp_lineno cp' = n"
  using next_token_tokens [of n cp e] by simp

lemma cp_tokens_Cons:
  assumes "cp_wf n cp" "cp_tokens e cp = (t, k) # ts"
  obtains cp' where "next_token e cp = Ok (t, cp')" "cp_lineno cp' = k" "cp_tokens e cp' = ts" "cp_wf n cp'" "t \<noteq> EndOfFile"
proof -
  have "t \<noteq> EndOfFile"
    using assms(2) tokens_not_eof [of t k e "rest_lines cp" "cp_lineno cp"] by (simp add: cp_tokens_def)
  then show ?thesis
    using next_token_tokens [OF assms(1), of e] assms(2) that by auto
qed

lemma read_section_tokens:
  "cp_wf n cp \<Longrightarrow> read_section e cp props = Ok (fold (apply_token e) (takeWhile (\<lambda>t. \<not> is_section t) (cp_tokens e cp)) props)"
proof (induction "cp_tokens e cp" arbitrary: cp props)
  case Nil
  then show ?case
    using cp_tokens_Nil [of n cp e] by (subst read_section.simps) auto
next
  case (Cons t ts)
  obtain tk k where t: "t = (tk, k)"
    by (cases t)
  obtain cp' where cp': "next_token e cp = Ok (tk, cp')" "cp_lineno cp' = k" "cp_tokens e cp' = ts" "cp_wf n cp'" "tk \<noteq> EndOfFile"
    using cp_tokens_Cons [OF Cons.prems] Cons(2) t by metis
  show ?case
    using Cons(1) [OF cp'(3) [symmetric] cp'(4)] cp' Cons(2) [symmetric] t
    by (subst read_section.simps) (cases tk; simp add: is_section_def apply_token_def)
qed

lemma skip_to_section_tokens:
  "cp_wf n cp \<Longrightarrow>
   (if \<exists>k. (Section s, k) \<in> set (cp_tokens e cp)
    then \<exists>cp'. skip_to_section e s cp = Ok (True, cp') \<and> cp_wf n cp' \<and>
           cp_tokens e cp' = tl (dropWhile (\<lambda>t. fst t \<noteq> Section s) (cp_tokens e cp))
    else \<exists>cp'. skip_to_section e s cp = Ok (False, cp') \<and> cp_lineno cp' = n)"
proof (induction "cp_tokens e cp" arbitrary: cp)
  case Nil
  then show ?case
    using cp_tokens_Nil [of n cp e] by (subst skip_to_section.simps) auto
next
  case (Cons t ts)
  obtain tk k where t: "t = (tk, k)"
    by (cases t)
  obtain cp' where cp': "next_token e cp = Ok (tk, cp')" "cp_lineno cp' = k" "cp_tokens e cp' = ts" "cp_wf n cp'" "tk \<noteq> EndOfFile"
    using cp_tokens_Cons [OF Cons.prems] Cons(2) t by metis
  have step: "skip_to_section e s cp = (if tk = Section s then Ok (True, cp') else skip_to_section e s cp')"
    using cp' by (subst skip_to_section.simps) simp
  show ?case
  proof (cases "tk = Section s")
    case True
    then show ?thesis
      using step cp' Cons(2) [symmetric] t by auto
  next
    case False
    then show ?thesis
      using step Cons(1) [OF cp'(3) [symmetric] cp'(4)] cp'(3) Cons(2) [symmetric] t by (auto split: if_splits)
  qed
qed

lemma find_section_tokens:
  "cp_wf n cp \<Longrightarrow>
   \<exists>cp'. find_section e binary cp = Ok (section_for e binary (cp_tokens e cp), cp') \<and>
     (\<forall>s. section_for e binary (cp_tokens e cp) = Some s \<longrightarrow> cp_wf n cp' \<and>
        (\<exists>pre. cp_tokens e cp = pre @ cp_tokens e cp' \<and> (\<forall>t \<in> set pre. \<not> is_section t)))"
proof (induction "cp_tokens e cp" arbitrary: cp)
  case Nil
  then show ?case
    using cp_tokens_Nil [of n cp e] by (subst find_section.simps) auto
next
  case (Cons t ts)
  obtain tk k where t: "t = (tk, k)"
    by (cases t)
  obtain cp' where cp': "next_token e cp = Ok (tk, cp')" "cp_lineno cp' = k" "cp_tokens e cp' = ts" "cp_wf n cp'" "tk \<noteq> EndOfFile"
    using cp_tokens_Cons [OF Cons.prems] Cons(2) t by metis
  have toks: "cp_tokens e cp = (tk, k) # cp_tokens e cp'"
    using Cons(2) cp'(3) t by simp
  have step: "find_section e binary cp =
     (if is_section (tk, k) then Ok (None, cp')
      else case token_section e binary (tk, k) of Some s \<Rightarrow> Ok (Some s, cp') | None \<Rightarrow> find_section e binary cp')"
    using cp' by (subst find_section.simps) (cases tk; simp add: is_section_def token_section_def)
  show ?case
  proof (cases "is_section (tk, k)")
    case True
    then show ?thesis
      using step toks by simp
  next
    case False
    show ?thesis
    proof (cases "token_section e binary (tk, k)")
      case None
      obtain cp2 where "find_section e binary cp' = Ok (section_for e binary (cp_tokens e cp'), cp2)"
        "\<forall>s. section_for e binary (cp_tokens e cp') = Some s \<longrightarrow> cp_wf n cp2 \<and>
          (\<exists>pre. cp_tokens e cp' = pre @ cp_tokens e cp2 \<and> (\<forall>t \<in> set pre. \<not> is_section t))"
        using Cons(1) [OF cp'(3) [symmetric] cp'(4)] by blast
      then show ?thesis
        using step toks False None by (intro exI [of _ cp2]) (auto intro: exI [of _ "(tk, k) # _"])
    next
      case (Some s)
      then show ?thesis
        using step toks False cp'(4) by (auto intro: exI [of _ "[(tk, k)]"])
    qed
  qed
qed

lemma new_parser_tokens:
  "cp_wf (length (split_on (CHR 0x0a) content)) (new_config_parser content)"
  "cp_tokens e (new_config_parser content) = tokens e (split_on (CHR 0x0a) content) 0"
  by (simp_all add: cp_wf_def cp_tokens_def rest_lines_def new_config_parser_def)

lemma parse_config_file_tokens:
  assumes "be_read_file e path = FileContent content"
  shows "let ts = tokens e (split_on (CHR 0x0a) content) 0 in
    parse_config_file e path binary =
      Ok (case section_for e binary ts of
            None \<Rightarrow> Inl None
          | Some s \<Rightarrow>
              if \<exists>k. (Section s, k) \<in> set ts then Inr (fold (apply_token e) (section_tokens s ts) Map.empty)
              else Inl (Some (ErrSectionNotFound (length (split_on (CHR 0x0a) content)) s)))"
proof -
  let ?n = "length (split_on (CHR 0x0a) content)"
  let ?ts = "tokens e (split_on (CHR 0x0a) content) 0"
  obtain cp1 where f: "find_section e binary (new_config_parser content) = Ok (section_for e binary ?ts, cp1)"
    "\<forall>s. section_for e binary ?ts = Some s \<longrightarrow> cp_wf ?n cp1 \<and>
        (\<exists>pre. ?ts = pre @ cp_tokens e cp1 \<and> (\<forall>t \<in> set pre. \<not> is_section t))"
    using find_section_tokens [OF new_parser_tokens(1) [of content], of e binary] unfolding new_parser_tokens(2) by blast
  show ?thesis
  proof (cases "section_for e binary ?ts")
    case None
    then show ?thesis
      using assms f(1) by (simp add: parse_config_file_def)
  next
    case (Some s)
    then obtain pre where pre: "?ts = pre @ cp_tokens e cp1" "\<forall>t \<in> set pre. \<not> is_section t" and wf: "cp_wf ?n cp1"
      using f(2) by blast
    have no: "fst t \<noteq> Section s" if "t \<in> set pre" for t
      using pre(2) that by (auto simp: is_section_def split: token.splits)
    have same: "(\<exists>k. (Section s, k) \<in> set ?ts) \<longleftrightarrow> (\<exists>k. (Section s, k) \<in> set (cp_tokens e cp1))"
      using no unfolding pre(1) by fastforce
    have drop: "dropWhile (\<lambda>t. fst t \<noteq> Section s) ?ts = dropWhile (\<lambda>t. fst t \<noteq> Section s) (cp_tokens e cp1)"
      unfolding pre(1) using no by (simp add: dropWhile_append2)
    show ?thesis
    proof (cases "\<exists>k. (Section s, k) \<in> set ?ts")
      case True
      then obtain cp2 where cp2: "skip_to_section e s cp1 = Ok (True, cp2)" "cp_wf ?n cp2"
        "cp_tokens e cp2 = tl (dropWhile (\<lambda>t. fst t \<noteq> Section s) ?ts)"
        using skip_to_section_tokens [OF wf, of s e] same drop by auto
      then show ?thesis
        using assms f(1) Some True read_section_tokens [OF cp2(2), of e Map.empty]
        by (simp add: parse_config_file_def section_tokens_def)
    next
      case False
      then obtain cp2 where cp2: "skip_to_section e s cp1 = Ok (False, cp2)" "cp_lineno cp2 = ?n"
        using skip_to_section_tokens [OF wf, of s e] same by auto
      then show ?thesis
        using assms f(1) Some False by (simp add: parse_config_file_def)
    qed
  qed
qed

section \<open>An example environment\<close>

definition example_trim :: "string \<Rightarrow> string" where
  "example_trim s = rev (dropWhile (\<lambda>c. c = CHR '' '') (rev (dropWhile (\<lambda>c. c = CHR '' '') s)))"

definition example_env :: "string \<Rightarrow> base_env" where
  "example_env content =
     \<lparr>be_trim = example_trim, be_split = (\<lambda>s d. split_on (hd d) s), be_starts_with = (\<lambda>s p. take (length p) s = p),
      be_ends_with = (\<lambda>s p. drop (length s - length p) s = p),
      be_read_file = (\<lambda>p. if p = ''/ld.config.txt'' then FileContent content else FileENOENT),
      be_access = (\<lambda>p. AccessOk), be_fs = \<lparr>fs_realpath = (\<lambda>p. Some p), fs_stat_isdir = (\<lambda>p. Some True)\<rparr>,
      be_get_property = (\<lambda>p d. d), be_android_api = 35\<rparr>"

definition example_content :: string where
  "example_content =
     ''dir.a = /bin/'' @ CHR 0x0a # ''[b]'' @ CHR 0x0a # ''x = 0'' @ CHR 0x0a # ''[a] # main'' @ CHR 0x0a #
     ''additional.namespaces = n'' @ CHR 0x0a # ''namespace.n.links = default'' @ CHR 0x0a #
     ''namespace.n.link.default.shared_libs = libc.so'' @ CHR 0x0a # ''namespace.n.link.default.shared_libs += libm.so''"

section \<open>The result of parsing\<close>

text \<open>
  C21: Parsing a configuration file terminates, never trips the end-of-file check, and selects what the
  format promises. The section is that of the first directory, among the assignments before any
  section header, that contains the binary; the properties are those of the lines between the header of
  that section and the next header, later assignments replacing earlier ones and additions extending
  them. Without such a directory there is no configuration, and a section that does not exist is the
  error that is reported.
\<close>

theorem parse_config_file_spec:
  assumes "be_read_file e path = FileContent content"
  shows "let ts = tokens e (split_on (CHR 0x0a) content) 0 in
    parse_config_file e path binary =
      Ok (case section_for e binary ts of
            None \<Rightarrow> Inl None
          | Some s \<Rightarrow>
              if \<exists>k. (Section s, k) \<in> set ts then Inr (fold (apply_token e) (section_tokens s ts) Map.empty)
              else Inl (Some (ErrSectionNotFound (length (split_on (CHR 0x0a) content)) s)))"
  using assms by (rule parse_config_file_tokens)

theorem parse_config_file_spec_witness:
  "\<exists>m. parse_config_file (example_env example_content) ''/ld.config.txt'' ''/bin/sh'' = Ok (Inr m) \<and>
    m ''namespace.n.link.default.shared_libs'' = Some \<lparr>pv_value = ''libc.so:libm.so'', pv_lineno = 7\<rparr> \<and> m ''x'' = None"
proof -
  let ?e = "example_env example_content"
  let ?ts = "tokens ?e (split_on (CHR 0x0a) example_content) 0"
  have "be_read_file ?e ''/ld.config.txt'' = FileContent example_content"
    by (simp add: example_env_def)
  moreover have "section_for ?e ''/bin/sh'' ?ts = Some ''a''"
    by code_simp
  moreover have "(Section ''a'', 4) \<in> set ?ts"
    by code_simp
  moreover have "fold (apply_token ?e) (section_tokens ''a'' ?ts) Map.empty ''namespace.n.link.default.shared_libs'' =
      Some \<lparr>pv_value = ''libc.so:libm.so'', pv_lineno = 7\<rparr>"
    "fold (apply_token ?e) (section_tokens ''a'' ?ts) Map.empty ''x'' = None"
    by code_simp+
  ultimately show ?thesis
    using parse_config_file_spec [of ?e "''/ld.config.txt''" example_content "''/bin/sh''"] by (auto simp: Let_def)
qed

end
