(* ===== verification/Linker_Config_Spec.thy ===== *)
theory Linker_Config_Spec
  imports Linker_Config_Parse
begin

text \<open>
  The configuration that is built from the properties: it does not depend on the cache of resolved paths
  or on the order in which the namespaces are visited, every link leads to a namespace of the
  configuration, and a failure leaves no configuration behind.
\<close>

section \<open>Resolved paths\<close>

lemma normalize_shorter:
  assumes "in_ptr \<noteq> []" "length out + length in_ptr < sz"
  shows "\<exists>in' out'. normalize_loop sz in_ptr out = normalize_loop sz in' out' \<and>
    length in' < length in_ptr \<and> length out' + length in' < sz"
proof -
  let ?A = "char_at in_ptr 0 = CHR ''/'' \<and> char_at in_ptr 1 = CHR ''.'' \<and> char_at in_ptr 2 = CHR ''/''"
  let ?B = "char_at in_ptr 0 = CHR ''/'' \<and> char_at in_ptr 1 = CHR ''.'' \<and> char_at in_ptr 2 = CHR ''.'' \<and>
    (char_at in_ptr 3 = CHR ''/'' \<or> char_at in_ptr 3 = CHR 0x00)"
  let ?C = "char_at in_ptr 0 = CHR ''/'' \<and> char_at in_ptr 1 = CHR ''/''"
  have len: "0 < length in_ptr" and pop: "length (pop_component out) \<le> length out"
    using assms(1) length_pop by simp_all
  note step = normalize_loop.simps [of sz in_ptr out]
  consider ?A | "\<not> ?A" ?B | "\<not> ?A" "\<not> ?B" ?C | "\<not> ?A" "\<not> ?B" "\<not> ?C"
    by blast
  then show ?thesis
  proof cases
    case 1
    then have "normalize_loop sz in_ptr out = normalize_loop sz (drop 2 in_ptr) out"
      using assms(1) by (subst step) simp
    then show ?thesis
      using assms(2) len by - (rule exI [of _ "drop 2 in_ptr"], rule exI [of _ out], simp)
  next
    case 2
    then have 3: "3 \<le> length in_ptr"
      by (auto simp: char_at_def split: if_splits)
    let ?out = "if drop 3 in_ptr = [] then pop_component out @ ''/'' else pop_component out"
    have "normalize_loop sz in_ptr out = normalize_loop sz (drop 3 in_ptr) ?out"
      using 2 assms pop by (subst step) simp
    moreover have "length ?out + length (drop 3 in_ptr) < sz"
      using assms(2) pop 3 by (cases "drop 3 in_ptr = []") simp_all
    ultimately show ?thesis
      using 3 by - (rule exI [of _ "drop 3 in_ptr"], rule exI [of _ ?out], simp)
  next
    case 3
    then have "normalize_loop sz in_ptr out = normalize_loop sz (tl in_ptr) out"
      using assms(1) by (subst step) simp
    then show ?thesis
      using assms(2) len by - (rule exI [of _ "tl in_ptr"], rule exI [of _ out], simp)
  next
    case 4
    then have "normalize_loop sz in_ptr out = normalize_loop sz (tl in_ptr) (out @ [hd in_ptr])"
      using assms by (subst step) (simp only: if_False, simp)
    then show ?thesis
      using assms(2) len by - (rule exI [of _ "tl in_ptr"], rule exI [of _ "out @ [hd in_ptr]"], cases in_ptr, simp_all)
  qed
qed

lemma normalize_total: "length out + length in_ptr < sz \<Longrightarrow> \<exists>r. normalize_loop sz in_ptr out = Ok r"
proof (induction "length in_ptr" arbitrary: in_ptr out rule: less_induct)
  case less
  show ?case
  proof (cases "in_ptr = []")
    case True
    then show ?thesis
      using less.prems by (simp add: normalize_end)
  next
    case False
    obtain in' out' where "normalize_loop sz in_ptr out = normalize_loop sz in' out'"
      "length in' < length in_ptr" "length out' + length in' < sz"
      using normalize_shorter [OF False less.prems] by blast
    then show ?thesis
      using less.hyps by metis
  qed
qed

lemma normalize_path_total: "\<exists>r. normalize_path path = Ok r"
  using normalize_total [of "[]" path "length path + 1"] by (auto simp: normalize_path_def)

lemma parse_zip_path_total: "\<exists>r. parse_zip_path path = Ok r"
proof -
  obtain r where "normalize_path path = Ok r"
    using normalize_path_total by blast
  then show ?thesis
    by (simp add: parse_zip_path_def split: option.split)
qed

definition resolved :: "fsenv \<Rightarrow> string \<Rightarrow> string" where
  "resolved fs path = (case resolve_path fs path of Ok r \<Rightarrow> r | _ \<Rightarrow> [])"

lemma resolve_path_total: "resolve_path fs path = Ok (resolved fs path)"
proof -
  have "\<exists>r. resolve_path fs path = Ok r"
  proof (cases "fs_realpath fs path")
    case None
    obtain n where n: "normalize_path path = Ok n"
      using normalize_path_total by blast
    show ?thesis
    proof (cases n)
      case (Some p)
      obtain z where "parse_zip_path p = Ok z"
        using parse_zip_path_total by blast
      then show ?thesis
        using None n Some by (simp add: resolve_path_def split: option.split)
    qed (simp add: None n resolve_path_def)
  qed (simp add: resolve_path_def split: option.split bool.split)
  then show ?thesis
    by (auto simp: resolved_def)
qed

text \<open>A cache that holds what resolving would return changes no result.\<close>

definition cache_ok :: "fsenv \<Rightarrow> (string \<rightharpoonup> string) \<Rightarrow> bool" where
  "cache_ok fs cache \<longleftrightarrow> (\<forall>p r. cache p = Some r \<longrightarrow> r = resolved fs p)"

lemma resolve_cached_ok:
  "cache_ok fs cache \<Longrightarrow>
   \<exists>cache'. resolve_cached fs cache ps = Ok (filter (\<lambda>r. r \<noteq> []) (map (resolved fs) (filter (\<lambda>p. p \<noteq> []) ps)), cache') \<and>
     cache_ok fs cache'"
proof (induction ps arbitrary: cache)
  case (Cons p ps)
  show ?case
  proof (cases "p = []")
    case True
    then show ?thesis
      using Cons by simp
  next
    case False
    have "(case cache p of Some r \<Rightarrow> Ok r | None \<Rightarrow> resolve_path fs p) = Ok (resolved fs p)"
      using Cons.prems by (auto simp: cache_ok_def resolve_path_total split: option.split)
    moreover have "cache_ok fs (cache(p \<mapsto> resolved fs p))"
      using Cons.prems by (simp add: cache_ok_def)
    then obtain cache' where "resolve_cached fs (cache(p \<mapsto> resolved fs p)) ps =
        Ok (filter (\<lambda>r. r \<noteq> []) (map (resolved fs) (filter (\<lambda>p. p \<noteq> []) ps)), cache')" "cache_ok fs cache'"
      using Cons.IH by blast
    ultimately show ?thesis
      using False by (intro exI [of _ cache']) simp
  qed
qed simp

section \<open>One namespace\<close>

text \<open>The paths of a property, without a cache.\<close>

definition paths_of :: "base_env \<Rightarrow> property_map \<Rightarrow> int \<Rightarrow> string \<Rightarrow> string list" where
  "paths_of e pm sdk nm =
     map (\<lambda>p. format_string p (path_params e sdk))
       (split_path (be_split e) (Some (c_str (case pm nm of None \<Rightarrow> [] | Some pv \<Rightarrow> pv_value pv))) '':'' [])"

definition props_ok :: "base_env \<Rightarrow> property_map \<Rightarrow> int \<Rightarrow> properties \<Rightarrow> bool" where
  "props_ok e pm sdk ps \<longleftrightarrow> ps_properties ps = pm \<and> ps_target_sdk_version ps = sdk \<and> cache_ok (be_fs e) (ps_resolved_paths ps)"

lemma get_paths_ok:
  assumes "props_ok e pm sdk ps"
  shows "get_paths e ps nm False = Ok (paths_of e pm sdk nm, ps)"
    and "\<exists>ps'. get_paths e ps nm True =
      Ok (filter (\<lambda>r. r \<noteq> []) (map (resolved (be_fs e)) (filter (\<lambda>p. p \<noteq> []) (paths_of e pm sdk nm))), ps') \<and> props_ok e pm sdk ps'"
proof -
  have s: "fst (get_string ps nm 0) = (case pm nm of None \<Rightarrow> [] | Some pv \<Rightarrow> pv_value pv)"
    using assms by (simp add: get_string_def Properties_find_property_def props_ok_def split: option.split)
  show "get_paths e ps nm False = Ok (paths_of e pm sdk nm, ps)"
    using assms by (simp add: get_paths_def s paths_of_def props_ok_def)
  show "\<exists>ps'. get_paths e ps nm True =
      Ok (filter (\<lambda>r. r \<noteq> []) (map (resolved (be_fs e)) (filter (\<lambda>p. p \<noteq> []) (paths_of e pm sdk nm))), ps') \<and> props_ok e pm sdk ps'"
    using assms resolve_cached_ok [of "be_fs e" "ps_resolved_paths ps" "paths_of e pm sdk nm"]
    by (auto simp: get_paths_def s paths_of_def props_ok_def)
qed

text \<open>The outcome for one namespace depends on the properties and the namespace only.\<close>

definition plain_props :: "property_map \<Rightarrow> int \<Rightarrow> properties" where
  "plain_props pm sdk = \<lparr>ps_properties = pm, ps_resolved_paths = Map.empty, ps_target_sdk_version = sdk\<rparr>"

definition namespace_result ::
  "base_env \<Rightarrow> bool \<Rightarrow> bool \<Rightarrow> string list \<Rightarrow> property_map \<Rightarrow> int \<Rightarrow> string \<Rightarrow> namespace_config \<Rightarrow> cfg_error + namespace_config" where
  "namespace_result e is_asan is_hwasan names pm sdk nm nc =
     (case configure_namespace e is_asan is_hwasan names nm (plain_props pm sdk) nc of
        Ok (Inr (nc', _)) \<Rightarrow> Inr nc'
      | Ok (Inl err) \<Rightarrow> Inl err)"

lemma add_links_props:
  "ps_properties ps = ps_properties ps' \<Longrightarrow> add_links ps names nm ls n links = add_links ps' names nm ls n links"
proof (induction ls arbitrary: n links)
  case (Cons l ls)
  have "get_bool ps = get_bool ps'" "get_string ps = get_string ps'"
    using Cons.prems by (simp_all add: fun_eq_iff get_bool_def get_string_def Properties_find_property_def)
  then show ?case
    unfolding add_links.simps Cons.IH [OF Cons.prems] by simp
qed simp

lemma configure_namespace_result:
  assumes "props_ok e pm sdk ps"
  shows "\<exists>ps'. props_ok e pm sdk ps' \<and>
    configure_namespace e is_asan is_hwasan names nm ps nc =
      Ok (case namespace_result e is_asan is_hwasan names pm sdk nm nc of Inl err \<Rightarrow> Inl err | Inr nc' \<Rightarrow> Inr (nc', ps'))"
proof -
  have plain: "props_ok e pm sdk (plain_props pm sdk)"
    by (simp add: props_ok_def plain_props_def cache_ok_def)
  have same: "ps_properties ps = ps_properties (plain_props pm sdk)"
    using assms by (simp add: props_ok_def plain_props_def)
  have get: "get_strings e ps = get_strings e (plain_props pm sdk)" "set_flags e ps = set_flags e (plain_props pm sdk)"
    by (simp_all add: fun_eq_iff get_strings_def set_flags_def get_bool_def get_string_def Properties_find_property_def same)
  let ?p = "asan_prefix is_asan is_hwasan nm"
  obtain ps1 rs where p1: "get_paths e ps (?p @ ''.search.paths'') True = Ok (rs, ps1)" "props_ok e pm sdk ps1"
    and rs: "rs = filter (\<lambda>r. r \<noteq> []) (map (resolved (be_fs e)) (filter (\<lambda>p. p \<noteq> []) (paths_of e pm sdk (?p @ ''.search.paths''))))"
    using get_paths_ok(2) [OF assms] by blast
  obtain ps2 where p2: "get_paths e (plain_props pm sdk) (?p @ ''.search.paths'') True = Ok (rs, ps2)" "props_ok e pm sdk ps2"
    unfolding rs using get_paths_ok(2) [OF plain] by blast
  obtain ls n where ls: "get_strings e (plain_props pm sdk) (''namespace.'' @ nm @ ''.links'') 0 = (ls, n)"
    by (cases "get_strings e (plain_props pm sdk) (''namespace.'' @ nm @ ''.links'') 0")
  note conf = configure_namespace_def Let_def get ls prod.case add_links_props [OF same]
  show ?thesis
  proof (cases "add_links (plain_props pm sdk) names nm ls n (nc_links nc)")
    case (Inl err)
    then show ?thesis
      using assms unfolding namespace_result_def conf by (intro exI [of _ ps]) simp
  next
    case (Inr x)
    obtain links k where x: "x = (links, k)"
      by (cases x)
    show ?thesis
      unfolding namespace_result_def conf Inr x sum.case p1(1) p2(1) res_bind.simps get_paths_ok(1) [OF p1(2)]
        get_paths_ok(1) [OF p2(2)] res.case
      using p1(2) by blast
  qed
qed

section \<open>All namespaces\<close>

text \<open>
  What configuring the namespaces \<open>ns\<close> makes of a configuration, whatever the order: the outcome for each
  of them at its index, and nothing else.
\<close>

definition configured ::
  "base_env \<Rightarrow> bool \<Rightarrow> bool \<Rightarrow> string list \<Rightarrow> property_map \<Rightarrow> int \<Rightarrow> string set \<Rightarrow> config \<Rightarrow> config \<Rightarrow> bool" where
  "configured e is_asan is_hwasan names pm sdk ns c c' \<longleftrightarrow>
     cf_namespace_configs_map c' = cf_namespace_configs_map c \<and> cf_target_sdk_version c' = cf_target_sdk_version c \<and>
     length (cf_namespace_configs c') = length (cf_namespace_configs c) \<and>
     (\<forall>nm \<in> ns. \<exists>i. cf_namespace_configs_map c nm = Some i \<and>
        namespace_result e is_asan is_hwasan names pm sdk nm (cf_namespace_configs c ! i) = Inr (cf_namespace_configs c' ! i)) \<and>
     (\<forall>i < length (cf_namespace_configs c). (\<forall>nm \<in> ns. cf_namespace_configs_map c nm \<noteq> Some i) \<longrightarrow>
        cf_namespace_configs c' ! i = cf_namespace_configs c ! i)"

definition map_ok :: "config \<Rightarrow> bool" where
  "map_ok c \<longleftrightarrow> (\<forall>nm i. cf_namespace_configs_map c nm = Some i \<longrightarrow>
     i < length (cf_namespace_configs c) \<and> nc_name (cf_namespace_configs c ! i) = nm)"

lemma map_ok_inj:
  "map_ok c \<Longrightarrow> cf_namespace_configs_map c nm = Some i \<Longrightarrow> cf_namespace_configs_map c nm' = Some i \<Longrightarrow> nm' = nm"
  by (auto simp: map_ok_def)

lemma configured_unique:
  assumes "configured e a h names pm sdk ns c c1" "configured e a h names pm sdk ns c c2"
  shows "c1 = c2"
proof (rule config.equality)
  show "cf_namespace_configs c1 = cf_namespace_configs c2"
  proof (rule nth_equalityI)
    fix i
    assume "i < length (cf_namespace_configs c1)"
    then have i: "i < length (cf_namespace_configs c)"
      using assms(1) by (simp add: configured_def)
    show "cf_namespace_configs c1 ! i = cf_namespace_configs c2 ! i"
    proof (cases "\<exists>nm \<in> ns. cf_namespace_configs_map c nm = Some i")
      case True
      then obtain nm where "nm \<in> ns" "cf_namespace_configs_map c nm = Some i"
        by blast
      then show ?thesis
        using assms unfolding configured_def by (metis option.inject sum.inject(2))
    next
      case False
      then show ?thesis
        using assms i by (simp add: configured_def)
    qed
  qed (use assms in \<open>simp add: configured_def\<close>)
qed (use assms in \<open>simp_all add: configured_def\<close>)

lemma set_flags_keeps [simp]: "nc_name (set_flags e ps nm k nc) = nc_name nc" "nc_links (set_flags e ps nm k nc) = nc_links nc"
  by (simp_all add: set_flags_def Let_def)

lemma namespace_resultE:
  assumes "namespace_result e a h names pm sdk nm nc = Inr nc'"
  obtains ls n links k where "add_links (plain_props pm sdk) names nm ls n (nc_links nc) = Inr (links, k)"
    "nc_name nc' = nc_name nc" "nc_links nc' = links"
proof -
  have "props_ok e pm sdk (plain_props pm sdk)"
    by (simp add: props_ok_def plain_props_def cache_ok_def)
  then obtain ps' rs where ps': "get_paths e (plain_props pm sdk) (asan_prefix a h nm @ ''.search.paths'') True = Ok (rs, ps')"
    "props_ok e pm sdk ps'"
    using get_paths_ok(2) by blast
  obtain ls n where ls: "get_strings e (plain_props pm sdk) (''namespace.'' @ nm @ ''.links'') 0 = (ls, n)"
    by (cases "get_strings e (plain_props pm sdk) (''namespace.'' @ nm @ ''.links'') 0")
  show ?thesis
  proof (cases "add_links (plain_props pm sdk) names nm ls n (nc_links nc)")
    case (Inl err)
    then show ?thesis
      using assms unfolding namespace_result_def configure_namespace_def Let_def ls by simp
  next
    case (Inr x)
    obtain links k where x: "x = (links, k)"
      by (cases x)
    have "nc' = (set_flags e (plain_props pm sdk) nm k (nc\<lparr>nc_links := links\<rparr>))
        \<lparr>nc_search_paths := rs, nc_permitted_paths := paths_of e pm sdk (asan_prefix a h nm @ ''.permitted.paths'')\<rparr>"
      using assms unfolding namespace_result_def configure_namespace_def Let_def ls prod.case Inr x sum.case ps'(1)
        res_bind.simps get_paths_ok(1) [OF ps'(2)] res.case by simp
    then show ?thesis
      using that Inr x by simp
  qed
qed

lemma namespace_result_name: "namespace_result e a h names pm sdk nm nc = Inr nc' \<Longrightarrow> nc_name nc' = nc_name nc"
  by (erule namespace_resultE) simp

lemma configure_namespaces_result:
  "props_ok e pm sdk ps \<Longrightarrow> map_ok c \<Longrightarrow> distinct ns \<Longrightarrow> set ns \<subseteq> dom (cf_namespace_configs_map c) \<Longrightarrow>
   (\<exists>c'. configure_namespaces e a h names ns ps c = Ok (Inr c') \<and> configured e a h names pm sdk (set ns) c c') \<or>
   (\<exists>err nm i. configure_namespaces e a h names ns ps c = Ok (Inl err) \<and> nm \<in> set ns \<and>
      cf_namespace_configs_map c nm = Some i \<and>
      namespace_result e a h names pm sdk nm (cf_namespace_configs c ! i) = Inl err)"
proof (induction ns arbitrary: ps c)
  case Nil
  then show ?case
    by (auto simp: configured_def)
next
  case (Cons nm ns)
  obtain i where i: "cf_namespace_configs_map c nm = Some i" "i < length (cf_namespace_configs c)"
    "nc_name (cf_namespace_configs c ! i) = nm"
    using Cons.prems(2,4) by (auto simp: map_ok_def)
  obtain ps' where ps': "props_ok e pm sdk ps'" "configure_namespace e a h names nm ps (cf_namespace_configs c ! i) =
      Ok (case namespace_result e a h names pm sdk nm (cf_namespace_configs c ! i) of Inl err \<Rightarrow> Inl err | Inr nc' \<Rightarrow> Inr (nc', ps'))"
    using configure_namespace_result [OF Cons.prems(1)] by blast
  show ?case
  proof (cases "namespace_result e a h names pm sdk nm (cf_namespace_configs c ! i)")
    case (Inl err)
    then show ?thesis
      using i(1) ps'(2) by auto
  next
    case (Inr nc)
    let ?c = "c\<lparr>cf_namespace_configs := (cf_namespace_configs c)[i := nc]\<rparr>"
    have run: "configure_namespaces e a h names (nm # ns) ps c = configure_namespaces e a h names ns ps' ?c"
      using i(1) ps'(2) Inr by simp
    have ok: "map_ok ?c"
    proof -
      have "nc_name ((cf_namespace_configs c)[i := nc] ! j) = nc_name (cf_namespace_configs c ! j)" for j
        using namespace_result_name [OF Inr] i(2) by (cases "j = i") simp_all
      then show ?thesis
        using Cons.prems(2) by (simp add: map_ok_def)
    qed
    have other: "cf_namespace_configs ?c ! j = cf_namespace_configs c ! j"
      if "cf_namespace_configs_map c nm' = Some j" "nm' \<in> set ns" for nm' j
      using that Cons.prems(3) map_ok_inj [OF Cons.prems(2) i(1)] by (cases "j = i") auto
    consider c' where "configure_namespaces e a h names ns ps' ?c = Ok (Inr c')" "configured e a h names pm sdk (set ns) ?c c'"
      | err nm' j where "configure_namespaces e a h names ns ps' ?c = Ok (Inl err)" "nm' \<in> set ns"
        "cf_namespace_configs_map c nm' = Some j"
        "namespace_result e a h names pm sdk nm' (cf_namespace_configs ?c ! j) = Inl err"
      using Cons.IH [OF ps'(1) ok] Cons.prems(3,4) by auto
    then show ?thesis
    proof cases
      case 1
      have "cf_namespace_configs c' ! i = nc"
      proof -
        have "\<forall>nm' \<in> set ns. cf_namespace_configs_map c nm' \<noteq> Some i"
          using map_ok_inj [OF Cons.prems(2) i(1)] Cons.prems(3) by auto
        then show ?thesis
          using 1(2) i(2) by (simp add: configured_def)
      qed
      moreover have "\<exists>j. cf_namespace_configs_map c nm' = Some j \<and>
          namespace_result e a h names pm sdk nm' (cf_namespace_configs c ! j) = Inr (cf_namespace_configs c' ! j)"
        if "nm' \<in> set ns" for nm'
        using 1(2) that other unfolding configured_def by auto
      ultimately have "configured e a h names pm sdk (set (nm # ns)) c c'"
        using 1(2) i(1) Inr unfolding configured_def by auto
      then show ?thesis
        using run 1(1) by auto
    next
      case 2
      then show ?thesis
        using run other by auto
    qed
  qed
qed

section \<open>The whole configuration\<close>

lemma create_map_ok:
  "map_ok c \<Longrightarrow> map_ok (fold create_namespace_config ns c) \<and>
   dom (cf_namespace_configs_map (fold create_namespace_config ns c)) = dom (cf_namespace_configs_map c) \<union> set ns"
proof (induction ns arbitrary: c)
  case (Cons n ns)
  have "map_ok (create_namespace_config n c)"
    using Cons.prems
    by (auto simp: map_ok_def create_namespace_config_def new_namespace_config_def nth_append less_SucI)
  then show ?case
    using Cons.IH by (auto simp: create_namespace_config_def)
qed simp

lemma clear_map_ok: "map_ok (config_clear c)" "dom (cf_namespace_configs_map (config_clear c)) = {}"
  by (simp_all add: map_ok_def config_clear_def)

definition link_ok :: "string set \<Rightarrow> namespace_link_config \<Rightarrow> bool" where
  "link_ok names l \<longleftrightarrow> nl_ns_name l \<in> names \<and> (nl_allow_all_shared_libs l \<longleftrightarrow> nl_shared_libs l = [])"

lemma add_links_ok:
  "add_links ps names nm ls n links = Inr (links', n') \<Longrightarrow> \<forall>l \<in> set links. link_ok (set names) l \<Longrightarrow>
   \<forall>l \<in> set links'. link_ok (set names) l"
proof (induction ls arbitrary: n links)
  case (Cons l ls)
  obtain lib n1 where g: "get_string ps ((''namespace.'' @ nm @ ''.link.'' @ l) @ ''.shared_libs'') n = (lib, n1)"
    by (cases "get_string ps ((''namespace.'' @ nm @ ''.link.'' @ l) @ ''.shared_libs'') n")
  let ?all = "get_bool ps ((''namespace.'' @ nm @ ''.link.'' @ l) @ ''.allow_all_shared_libs'')"
  let ?l = "\<lparr>nl_ns_name = l, nl_shared_libs = lib, nl_allow_all_shared_libs = ?all\<rparr>"
  have step: "add_links ps names nm (l # ls) n links =
    (if l \<notin> set names then Inl (ErrUndefinedNamespace n l)
     else if \<not> ?all \<and> lib = [] then Inl (ErrNoSharedLibs n1 nm l)
     else if ?all \<and> lib \<noteq> [] then Inl (ErrBothSharedLibs n1 nm l)
     else add_links ps names nm ls n1 (links @ [?l]))"
    unfolding add_links.simps Let_def g prod.case by (rule refl)
  show ?case
  proof (cases "l \<in> set names \<and> (?all \<longleftrightarrow> lib = [])")
    case True
    then show ?thesis
      using Cons.IH [of n1 "links @ [?l]"] Cons.prems unfolding step by (auto simp: link_ok_def)
  next
    case False
    then show ?thesis
      using Cons.prems(1) unfolding step by (auto split: if_splits)
  qed
qed simp

lemma namespace_result_links:
  assumes "namespace_result e a h names pm sdk nm nc = Inr nc'" "nc_links nc = []"
  shows "\<forall>l \<in> set (nc_links nc'). link_ok (set names) l"
  using assms(1)
proof (rule namespace_resultE)
  fix ls n links k
  assume "add_links (plain_props pm sdk) names nm ls n (nc_links nc) = Inr (links, k)" "nc_links nc' = links"
  then show ?thesis
    using add_links_ok [of "plain_props pm sdk" names nm ls n "[]" links k] assms(2) by simp
qed

lemma create_fresh:
  "\<forall>x \<in> set (cf_namespace_configs c). nc_links x = [] \<Longrightarrow>
   \<forall>x \<in> set (cf_namespace_configs (fold create_namespace_config ns c)). nc_links x = []"
proof (induction ns arbitrary: c)
  case (Cons n ns)
  have "\<forall>x \<in> set (cf_namespace_configs (create_namespace_config n c)). nc_links x = []"
    using Cons.prems by (auto simp: create_namespace_config_def new_namespace_config_def)
  then show ?case
    using Cons.IH by simp
qed simp

text \<open>The iteration of an \<open>unordered_map\<close> visits each key exactly once.\<close>

definition iterates :: "(string list \<Rightarrow> string list) \<Rightarrow> bool" where
  "iterates order \<longleftrightarrow> (\<forall>ks. distinct ks \<longrightarrow> distinct (order ks) \<and> set (order ks) = set ks)"

text \<open>The two ways in which the configuration of the namespaces can end.\<close>

lemma build_config_cases:
  assumes "iterates order"
  obtains (failed) err g where "build_config e order binary a h pm (config_clear g0) = Ok (config_clear g, Inl (Some err))"
      "\<And>order'. iterates order' \<Longrightarrow> \<nexists>g'. build_config e order' binary a h pm (config_clear g0) = Ok (g', Inr ())"
  | (built) names sdk c c' where "build_config e order binary a h pm (config_clear g0) = Ok (c', Inr ())"
      "configured e a h names pm sdk (set names) c c'" "map_ok c" "dom (cf_namespace_configs_map c) = set names"
      "''default'' \<in> set names" "\<forall>x \<in> set (cf_namespace_configs c). nc_links x = []"
      "\<And>order'. iterates order' \<Longrightarrow> build_config e order' binary a h pm (config_clear g0) = Ok (c', Inr ())"
proof -
  let ?ps = "plain_props pm (be_android_api e)"
  define L where "L = ''default'' # fst (get_strings e ?ps ''additional.namespaces'' 0)"
  let ?names = "remdups L"
  let ?g1 = "fold create_namespace_config L (config_clear g0)"
  have default: "''default'' \<in> set ?names"
    by (simp add: L_def)
  have build: "build_config e ord binary a h pm (config_clear g0) =
     (case read_target_sdk_version e binary ?ps of
        Inl err \<Rightarrow> Ok (config_clear ?g1, Inl (Some err))
      | Inr sdk \<Rightarrow>
          res_bind (configure_namespaces e a h ?names (ord ?names) (plain_props pm sdk) (?g1\<lparr>cf_target_sdk_version := sdk\<rparr>))
            (\<lambda>c. case c of Inl err \<Rightarrow> Ok (config_clear (?g1\<lparr>cf_target_sdk_version := sdk\<rparr>), Inl (Some err)) | Inr g3 \<Rightarrow> Ok (g3, Inr ())))"
    for ord
    unfolding build_config_def Let_def plain_props_def properties.update_convs L_def by (rule refl)
  show ?thesis
  proof (cases "read_target_sdk_version e binary ?ps")
    case (Inl err)
    then show ?thesis
      using failed [of ?g1 err] build Inl by simp
  next
    case (Inr sdk)
    let ?c = "?g1\<lparr>cf_target_sdk_version := sdk\<rparr>"
    have c: "map_ok ?c" "dom (cf_namespace_configs_map ?c) = set ?names"
      using create_map_ok [OF clear_map_ok(1), of L g0] clear_map_ok(2) [of g0]
      by (simp_all add: map_ok_def)
    have fresh: "\<forall>x \<in> set (cf_namespace_configs ?c). nc_links x = []"
      using create_fresh [of "config_clear g0" L] by (simp add: config_clear_def)
    have run: "(\<exists>c'. configure_namespaces e a h ?names (ord ?names) (plain_props pm sdk) ?c = Ok (Inr c') \<and>
          configured e a h ?names pm sdk (set ?names) ?c c') \<or>
        (\<exists>err nm i. configure_namespaces e a h ?names (ord ?names) (plain_props pm sdk) ?c = Ok (Inl err) \<and> nm \<in> set ?names \<and>
          cf_namespace_configs_map ?c nm = Some i \<and>
          namespace_result e a h ?names pm sdk nm (cf_namespace_configs ?c ! i) = Inl err)" if "iterates ord" for ord
    proof -
      have "props_ok e pm sdk (plain_props pm sdk)"
        by (simp add: props_ok_def plain_props_def cache_ok_def)
      moreover have "distinct (ord ?names)" "set (ord ?names) = set ?names"
        using that distinct_remdups unfolding iterates_def by blast+
      ultimately show ?thesis
        using configure_namespaces_result [of e pm sdk "plain_props pm sdk" ?c "ord ?names" a h ?names] c by simp
    qed
    have excl: False if "configured e a h ?names pm sdk (set ?names) ?c c'" "nm \<in> set ?names"
      "cf_namespace_configs_map ?c nm = Some i" "namespace_result e a h ?names pm sdk nm (cf_namespace_configs ?c ! i) = Inl err"
      for c' nm i err
      using that unfolding configured_def by fastforce
    consider c' where "configure_namespaces e a h ?names (order ?names) (plain_props pm sdk) ?c = Ok (Inr c')"
        "configured e a h ?names pm sdk (set ?names) ?c c'"
      | err nm i where "configure_namespaces e a h ?names (order ?names) (plain_props pm sdk) ?c = Ok (Inl err)" "nm \<in> set ?names"
          "cf_namespace_configs_map ?c nm = Some i"
          "namespace_result e a h ?names pm sdk nm (cf_namespace_configs ?c ! i) = Inl err"
      using run [OF assms] by blast
    then show ?thesis
    proof cases
      case 1
      have "build_config e ord binary a h pm (config_clear g0) = Ok (c', Inr ())" if it: "iterates ord" for ord
      proof -
        obtain c2 where "configure_namespaces e a h ?names (ord ?names) (plain_props pm sdk) ?c = Ok (Inr c2)"
          "configured e a h ?names pm sdk (set ?names) ?c c2"
          using run [OF it] excl 1(2) by blast
        then show ?thesis
          using configured_unique [OF 1(2)] build [of ord] Inr by simp
      qed
      then show ?thesis
        using built [OF _ 1(2) c default fresh] assms by blast
    next
      case 2
      have "\<nexists>g'. build_config e ord binary a h pm (config_clear g0) = Ok (g', Inr ())" if it: "iterates ord" for ord
      proof -
        obtain err2 where "configure_namespaces e a h ?names (ord ?names) (plain_props pm sdk) ?c = Ok (Inl err2)"
          using run [OF it] excl 2(2-4) by blast
        then show ?thesis
          using build [of ord] Inr by simp
      qed
      then show ?thesis
        using failed [of ?c err] build [of order] Inr 2(1) by simp
    qed
  qed
qed

lemma parse_config_file_total: "\<exists>r. parse_config_file e path binary = Ok r"
proof (cases "be_read_file e path")
  case (FileContent content)
  then show ?thesis
    using parse_config_file_tokens [OF FileContent, of binary] unfolding Let_def by blast
qed (simp_all add: parse_config_file_def)

lemma configured_ok:
  assumes "configured e a h names pm sdk (set names) c c'" "map_ok c" "dom (cf_namespace_configs_map c) = set names"
    "\<forall>x \<in> set (cf_namespace_configs c). nc_links x = []"
    "cf_namespace_configs_map c' nm = Some i"
  shows "i < length (cf_namespace_configs c')" "nc_name (cf_namespace_configs c' ! i) = nm"
    "\<forall>l \<in> set (nc_links (cf_namespace_configs c' ! i)). link_ok (dom (cf_namespace_configs_map c')) l"
proof -
  have i: "cf_namespace_configs_map c nm = Some i" and len: "length (cf_namespace_configs c') = length (cf_namespace_configs c)"
    and dom: "dom (cf_namespace_configs_map c') = set names"
    using assms(1,3,5) by (simp_all add: configured_def)
  then have nm: "nm \<in> set names"
    using assms(3) by blast
  then have res: "namespace_result e a h names pm sdk nm (cf_namespace_configs c ! i) = Inr (cf_namespace_configs c' ! i)"
    using assms(1) i unfolding configured_def by fastforce
  have bound: "i < length (cf_namespace_configs c)" "nc_name (cf_namespace_configs c ! i) = nm"
    using assms(2) i by (simp_all add: map_ok_def)
  show "i < length (cf_namespace_configs c')"
    using bound len by simp
  show "nc_name (cf_namespace_configs c' ! i) = nm"
    using res bound(2) by (auto elim: namespace_resultE)
  show "\<forall>l \<in> set (nc_links (cf_namespace_configs c' ! i)). link_ok (dom (cf_namespace_configs_map c')) l"
    using namespace_result_links [OF res] assms(4) bound(1) dom by simp
qed

text \<open>What a finished configuration guarantees.\<close>

definition config_ok :: "config \<Rightarrow> bool" where
  "config_ok c \<longleftrightarrow> default_namespace_config c \<noteq> None \<and>
     (\<forall>nm i. cf_namespace_configs_map c nm = Some i \<longrightarrow>
        i < length (cf_namespace_configs c) \<and> nc_name (cf_namespace_configs c ! i) = nm \<and>
        (\<forall>l \<in> set (nc_links (cf_namespace_configs c ! i)). link_ok (dom (cf_namespace_configs_map c)) l))"

definition example_config :: config where
  "example_config = \<lparr>cf_namespace_configs = [], cf_namespace_configs_map = Map.empty, cf_target_sdk_version = 0\<rparr>"

text \<open>
  C19: Reading the configuration always returns. A failure, wherever it happens, leaves the global
  configuration without namespaces; after a success the default namespace exists, each name leads to
  the namespace of that name, and each link leads to a namespace of the configuration and has either a
  list of shared libraries or the permission for all of them, never both and never neither.
\<close>

theorem read_config_result:
  assumes "iterates order"
  shows "\<exists>c r. read_config_for_binary e order path binary is_asan is_hwasan g0 = Ok (c, r) \<and>
    (case r of
       Inl _ \<Rightarrow> cf_namespace_configs c = [] \<and> cf_namespace_configs_map c = Map.empty
     | Inr _ \<Rightarrow> config_ok c)"
proof -
  obtain p where p: "parse_config_file e path binary = Ok p"
    using parse_config_file_total by blast
  show ?thesis
  proof (cases p)
    case (Inl err)
    then show ?thesis
      using p by (simp add: read_config_for_binary_def config_clear_def)
  next
    case (Inr pm)
    then have read: "read_config_for_binary e order path binary is_asan is_hwasan g0 =
        build_config e order binary is_asan is_hwasan pm (config_clear g0)"
      using p by (simp add: read_config_for_binary_def)
    show ?thesis
      using assms
    proof (cases rule: build_config_cases [where e = e and binary = binary and a = is_asan and h = is_hwasan and pm = pm and ?g0.0 = g0])
      case (failed err g)
      then show ?thesis
        unfolding read by (simp add: config_clear_def)
    next
      case (built names sdk c c')
      have "config_ok c'"
        using configured_ok [OF built(2-4,6)] built(2,4,5)
        by (auto simp: config_ok_def default_namespace_config_def configured_def)
      then show ?thesis
        unfolding read using built(1) by simp
    qed
  qed
qed

theorem read_config_result_witness:
  "\<exists>c r. read_config_for_binary (example_env example_content) rev ''/ld.config.txt'' ''/bin/sh'' False False example_config = Ok (c, r) \<and>
    (case r of Inl _ \<Rightarrow> cf_namespace_configs c = [] \<and> cf_namespace_configs_map c = Map.empty | Inr _ \<Rightarrow> config_ok c)"
proof -
  have "iterates rev"
    by (simp add: iterates_def)
  then show ?thesis
    by (rule read_config_result)
qed

text \<open>
  C20: The configuration does not depend on the order in which the hash table of namespaces is iterated:
  whether reading succeeds and the configuration it builds, the resolved search paths taken from the
  shared cache included, are the same for all orders.
\<close>

theorem read_config_deterministic:
  assumes "iterates order" "iterates order'"
  shows "read_config_for_binary e order path binary is_asan is_hwasan g0 = Ok (c, Inr ()) \<longleftrightarrow>
    read_config_for_binary e order' path binary is_asan is_hwasan g0 = Ok (c, Inr ())"
proof -
  obtain p where p: "parse_config_file e path binary = Ok p"
    using parse_config_file_total by blast
  show ?thesis
  proof (cases p)
    case (Inl err)
    then show ?thesis
      using p by (simp add: read_config_for_binary_def)
  next
    case (Inr pm)
    then have read: "read_config_for_binary e ord path binary is_asan is_hwasan g0 =
        build_config e ord binary is_asan is_hwasan pm (config_clear g0)" for ord
      using p by (simp add: read_config_for_binary_def)
    show ?thesis
      using assms(1)
    proof (cases rule: build_config_cases [where e = e and binary = binary and a = is_asan and h = is_hwasan and pm = pm and ?g0.0 = g0])
      case (failed err g)
      then show ?thesis
        unfolding read using assms(2) by auto
    next
      case (built names sdk c1 c')
      then show ?thesis
        unfolding read using built(7) [OF assms(2)] by simp
    qed
  qed
qed

theorem read_config_deterministic_witness:
  "\<forall>c. read_config_for_binary (example_env example_content) id ''/ld.config.txt'' ''/bin/sh'' False False example_config = Ok (c, Inr ()) \<longleftrightarrow>
   read_config_for_binary (example_env example_content) rev ''/ld.config.txt'' ''/bin/sh'' False False example_config = Ok (c, Inr ())"
proof -
  have "iterates id" "iterates rev"
    by (simp_all add: iterates_def)
  then show ?thesis
    using read_config_deterministic by blast
qed

end
