(* ===== verification/Time_Conversions.thy ===== *)
theory Time_Conversions
  imports Bionic_Prelude
begin

text \<open>
  Time values and timeouts: libc/private/bionic_time_conversions.h, libc/bionic/bionic_time_conversions.cpp
  and the timeout handling of libc/bionic/bionic_futex.cpp.

  The fields are integers; an addition or multiplication that leaves the range of its 64-bit type is
  \<open>Undef\<close>, as the signed overflow is in C. The kernel and the clocks are parameters.
\<close>

record timespec =
  tv_sec :: int
  tv_nsec :: int

record timeval =
  tval_sec :: int
  tval_usec :: int

definition NS_PER_S :: int where "NS_PER_S = 1000000000"
definition US_PER_S :: int where "US_PER_S = 1000000"

definition EINTR :: int where "EINTR = 4"
definition EAGAIN :: int where "EAGAIN = 11"
definition EBUSY :: int where "EBUSY = 16"
definition EINVAL :: int where "EINVAL = 22"
definition EDEADLK :: int where "EDEADLK = 35"
definition EPERM :: int where "EPERM = 1"
definition ETIMEDOUT :: int where "ETIMEDOUT = 110"

lemmas errno_defs = EINTR_def EAGAIN_def EBUSY_def EINVAL_def EDEADLK_def EPERM_def ETIMEDOUT_def

definition s64 :: "int \<Rightarrow> int res" where
  "s64 x = (if - (2 ^ 63) \<le> x \<and> x < 2 ^ 63 then Ok x else Undef)"

section \<open>Conversions\<close>

definition to_ns :: "timespec \<Rightarrow> int res" where
  "to_ns ts = res_bind (s64 (tv_sec ts * NS_PER_S)) (\<lambda>s. s64 (s + tv_nsec ts))"

definition to_us :: "timeval \<Rightarrow> int res" where
  "to_us tv = res_bind (s64 (tval_sec tv * US_PER_S)) (\<lambda>s. s64 (s + tval_usec tv))"

text \<open>The new \<open>timespec\<close> and the result; a failure has already stored the seconds.\<close>

definition timespec_from_timeval :: "timespec \<Rightarrow> timeval \<Rightarrow> timespec \<times> bool" where
  "timespec_from_timeval ts tv =
     (let ts1 = ts\<lparr>tv_sec := tval_sec tv\<rparr> in
      if tval_usec tv \<ge> 1000000 \<or> tval_usec tv < 0 then (ts1, False)
      else (ts1\<lparr>tv_nsec := tval_usec tv * 1000\<rparr>, True))"

text \<open>Division and remainder of C round towards zero.\<close>

definition c_div :: "int \<Rightarrow> int \<Rightarrow> int" where "c_div a b = sgn a * sgn b * (\<bar>a\<bar> div \<bar>b\<bar>)"
definition c_mod :: "int \<Rightarrow> int \<Rightarrow> int" where "c_mod a b = a - c_div a b * b"

definition timespec_from_ms :: "int \<Rightarrow> timespec" where
  "timespec_from_ms ms = \<lparr>tv_sec = c_div ms 1000, tv_nsec = c_mod ms 1000 * 1000000\<rparr>"

definition timeval_from_timespec :: "timespec \<Rightarrow> timeval" where
  "timeval_from_timespec ts = \<lparr>tval_sec = tv_sec ts, tval_usec = c_div (tv_nsec ts) 1000\<rparr>"

text \<open>\<open>check_timespec\<close> with a null pointer that is not allowed has no defined behaviour.\<close>

definition check_timespec :: "timespec option \<Rightarrow> bool \<Rightarrow> int res" where
  "check_timespec ts null_allowed =
     (case ts of
        None \<Rightarrow> if null_allowed then Ok 0 else Undef
      | Some t \<Rightarrow>
          if tv_nsec t < 0 \<or> tv_nsec t \<ge> NS_PER_S then Ok EINVAL
          else if tv_sec t < 0 then Ok ETIMEDOUT
          else Ok 0)"

datatype clockid = CLOCK_REALTIME | CLOCK_MONOTONIC | OtherClock int

definition convert_timespec_clocks :: "(clockid \<Rightarrow> timespec) \<Rightarrow> clockid \<Rightarrow> timespec \<Rightarrow> clockid \<Rightarrow> timespec res" where
  "convert_timespec_clocks clock_gettime new_clockbase old_time old_clockbase =
     (let new_clock = clock_gettime new_clockbase;
          old_clock = clock_gettime old_clockbase in
      res_bind (s64 (tv_sec old_time - tv_sec old_clock)) (\<lambda>d. res_bind (s64 (d + tv_sec new_clock)) (\<lambda>sec.
      res_bind (s64 (tv_nsec old_time - tv_nsec old_clock)) (\<lambda>e. res_bind (s64 (e + tv_nsec new_clock)) (\<lambda>nsec.
      if nsec \<ge> NS_PER_S then res_bind (s64 (sec + 1)) (\<lambda>sec'. Ok \<lparr>tv_sec = sec', tv_nsec = nsec - NS_PER_S\<rparr>)
      else if nsec < 0 then res_bind (s64 (sec - 1)) (\<lambda>sec'. Ok \<lparr>tv_sec = sec', tv_nsec = nsec + NS_PER_S\<rparr>)
      else Ok \<lparr>tv_sec = sec, tv_nsec = nsec\<rparr>)))))"

definition monotonic_time_from_realtime_time :: "(clockid \<Rightarrow> timespec) \<Rightarrow> timespec \<Rightarrow> timespec res" where
  "monotonic_time_from_realtime_time clock_gettime realtime_time =
     convert_timespec_clocks clock_gettime CLOCK_MONOTONIC realtime_time CLOCK_REALTIME"

definition realtime_time_from_monotonic_time :: "(clockid \<Rightarrow> timespec) \<Rightarrow> timespec \<Rightarrow> timespec res" where
  "realtime_time_from_monotonic_time clock_gettime monotonic_time =
     convert_timespec_clocks clock_gettime CLOCK_REALTIME monotonic_time CLOCK_MONOTONIC"

section \<open>Futex operations with a timeout\<close>

datatype futex_cmd = FUTEX_WAIT | FUTEX_WAKE | FUTEX_WAIT_BITSET | FUTEX_LOCK_PI | FUTEX_UNLOCK_PI | FUTEX_LOCK_PI2

record futex_op =
  fo_cmd :: futex_cmd
  fo_private :: bool
  fo_clock_realtime :: bool

text \<open>
  The system call takes the operation, the expected value, the absolute timeout and the bitset;
  \<open>Inl\<close> is a failure with its error number.
\<close>

type_synonym futex_syscall = "futex_op \<Rightarrow> int \<Rightarrow> timespec option \<Rightarrow> u32 \<Rightarrow> int + int"

definition FUTEX_BITSET_MATCH_ANY :: u32 where "FUTEX_BITSET_MATCH_ANY = 0xffffffff"

definition futex :: "futex_syscall \<Rightarrow> futex_op \<Rightarrow> int \<Rightarrow> timespec option \<Rightarrow> u32 \<Rightarrow> int" where
  "futex sys op v timeout bitset = (case sys op v timeout bitset of Inl err \<Rightarrow> - err | Inr r \<Rightarrow> r)"

definition futex_wake_ex :: "futex_syscall \<Rightarrow> bool \<Rightarrow> int \<Rightarrow> int" where
  "futex_wake_ex sys shared count = futex sys \<lparr>fo_cmd = FUTEX_WAKE, fo_private = \<not> shared, fo_clock_realtime = False\<rparr> count None 0"

definition FutexWithTimeout ::
  "futex_syscall \<Rightarrow> (clockid \<Rightarrow> timespec) \<Rightarrow> futex_op \<Rightarrow> int \<Rightarrow> bool \<Rightarrow> timespec option \<Rightarrow> u32 \<Rightarrow> int res" where
  "FutexWithTimeout sys clock_gettime op v use_realtime_clock abs_timeout bitset =
     (case abs_timeout of
        None \<Rightarrow> Ok (futex sys op v None bitset)
      | Some t \<Rightarrow>
          (let op' = (if fo_cmd op = FUTEX_LOCK_PI then op else op\<lparr>fo_clock_realtime := False\<rparr>) in
           res_bind (if fo_cmd op = FUTEX_LOCK_PI
                     then (if \<not> use_realtime_clock then realtime_time_from_monotonic_time clock_gettime t else Ok t)
                     else (if use_realtime_clock then monotonic_time_from_realtime_time clock_gettime t else Ok t))
             (\<lambda>timeout. if tv_sec timeout < 0 then Ok (- ETIMEDOUT) else Ok (futex sys op' v (Some timeout) bitset))))"

definition futex_wait_ex ::
  "futex_syscall \<Rightarrow> (clockid \<Rightarrow> timespec) \<Rightarrow> bool \<Rightarrow> int \<Rightarrow> bool \<Rightarrow> timespec option \<Rightarrow> int res" where
  "futex_wait_ex sys clock_gettime shared v use_realtime_clock abs_timeout =
     FutexWithTimeout sys clock_gettime \<lparr>fo_cmd = FUTEX_WAIT_BITSET, fo_private = \<not> shared, fo_clock_realtime = False\<rparr>
       v use_realtime_clock abs_timeout FUTEX_BITSET_MATCH_ANY"

text \<open>The operation that is cached in the static \<open>lock_op\<close>, \<open>None\<close> before the first call; the probe uses a futex of its own.\<close>

definition futex_pi_lock_ex ::
  "futex_syscall \<Rightarrow> futex_syscall \<Rightarrow> (clockid \<Rightarrow> timespec) \<Rightarrow> futex_cmd option \<Rightarrow> bool \<Rightarrow> bool \<Rightarrow> timespec option
   \<Rightarrow> (int \<times> futex_cmd) res" where
  "futex_pi_lock_ex probe sys clock_gettime lock_op shared use_realtime_clock abs_timeout =
     (let op = (case lock_op of
                  Some op \<Rightarrow> op
                | None \<Rightarrow>
                    if futex probe \<lparr>fo_cmd = FUTEX_LOCK_PI2, fo_private = False, fo_clock_realtime = False\<rparr> 0 None 0 = 0
                    then FUTEX_LOCK_PI2 else FUTEX_LOCK_PI) in
      res_bind (FutexWithTimeout sys clock_gettime \<lparr>fo_cmd = op, fo_private = \<not> shared, fo_clock_realtime = False\<rparr>
                  0 use_realtime_clock abs_timeout 0)
        (\<lambda>r. Ok (r, op)))"

section \<open>Properties\<close>

definition valid_ts :: "timespec \<Rightarrow> bool" where
  "valid_ts t \<longleftrightarrow> 0 \<le> tv_nsec t \<and> tv_nsec t < NS_PER_S \<and> \<bar>tv_sec t\<bar> < 2 ^ 61"

definition ts_ns :: "timespec \<Rightarrow> int" where
  "ts_ns t = tv_sec t * NS_PER_S + tv_nsec t"

lemma s64_Ok: "- (2 ^ 63) \<le> x \<Longrightarrow> x < 2 ^ 63 \<Longrightarrow> s64 x = Ok x"
  by (simp add: s64_def)

lemma convert_clocks_exact:
  assumes "valid_ts (gettime new)" "valid_ts (gettime old)" "valid_ts t"
  shows "\<exists>r. convert_timespec_clocks gettime new t old = Ok r \<and> 0 \<le> tv_nsec r \<and> tv_nsec r < NS_PER_S \<and>
    ts_ns r - ts_ns (gettime new) = ts_ns t - ts_ns (gettime old)"
proof -
  let ?n = "gettime new" and ?o = "gettime old"
  let ?sec = "tv_sec t - tv_sec ?o + tv_sec ?n" and ?nsec = "tv_nsec t - tv_nsec ?o + tv_nsec ?n"
  have s: "s64 (tv_sec t - tv_sec ?o) = Ok (tv_sec t - tv_sec ?o)" "s64 ?sec = Ok ?sec" "s64 (?sec + 1) = Ok (?sec + 1)"
    "s64 (?sec - 1) = Ok (?sec - 1)" "s64 (tv_nsec t - tv_nsec ?o) = Ok (tv_nsec t - tv_nsec ?o)" "s64 ?nsec = Ok ?nsec"
    using assms by (auto simp: valid_ts_def NS_PER_S_def abs_less_iff intro!: s64_Ok)
  show ?thesis
    using assms unfolding convert_timespec_clocks_def Let_def
    by (simp only: s res_bind.simps) (auto simp: valid_ts_def ts_ns_def NS_PER_S_def s algebra_simps)
qed

end
