(* ===== verification/Rwlock.thy ===== *)
theory Rwlock
  imports Time_Conversions
begin

text \<open>
  Read-write locks: libc/bionic/pthread_rwlock.cpp.

  A lock is a record of the fields of \<open>pthread_rwlock_internal_t\<close>; \<open>pending_lock\<close> is the index of the thread
  that holds it. Threads are interleaved at their accesses to the lock: each value of \<open>rw_pc\<close> is the point
  before one atomic operation on \<open>state\<close> or \<open>writer_tid\<close>, one access to a member that \<open>pending_lock\<close>
  protects, or one futex call, with the local variables that are live there. Thread \<open>i\<close> has the thread
  id \<open>i + 1\<close>. The interleaving is sequentially consistent; the memory orders are not modelled.
\<close>

section \<open>Attributes\<close>

text \<open>\<open>pthread_rwlockattr_t\<close> is a \<open>long\<close>.\<close>

type_synonym rwlockattr = u64

definition RWLOCKATTR_PSHARED_MASK :: rwlockattr where "RWLOCKATTR_PSHARED_MASK = 1"
definition RWLOCKATTR_KIND_MASK :: rwlockattr where "RWLOCKATTR_KIND_MASK = 2"
definition RWLOCKATTR_RESERVED_MASK :: rwlockattr where "RWLOCKATTR_RESERVED_MASK = NOT 3"

definition PTHREAD_PROCESS_PRIVATE :: int where "PTHREAD_PROCESS_PRIVATE = 0"
definition PTHREAD_PROCESS_SHARED :: int where "PTHREAD_PROCESS_SHARED = 1"
definition PTHREAD_RWLOCK_PREFER_READER_NP :: int where "PTHREAD_RWLOCK_PREFER_READER_NP = 0"
definition PTHREAD_RWLOCK_PREFER_WRITER_NONRECURSIVE_NP :: int where "PTHREAD_RWLOCK_PREFER_WRITER_NONRECURSIVE_NP = 1"

definition rwlockattr_getpshared :: "rwlockattr \<Rightarrow> bool" where
  "rwlockattr_getpshared attr = (attr AND RWLOCKATTR_PSHARED_MASK \<noteq> 0)"

definition rwlockattr_setpshared :: "rwlockattr \<Rightarrow> int \<Rightarrow> rwlockattr" where
  "rwlockattr_setpshared attr pshared = (attr AND NOT RWLOCKATTR_PSHARED_MASK) OR word_of_int pshared"

definition rwlockattr_getkind :: "rwlockattr \<Rightarrow> int" where
  "rwlockattr_getkind attr = uint (drop_bit 1 (attr AND RWLOCKATTR_KIND_MASK))"

definition rwlockattr_setkind :: "rwlockattr \<Rightarrow> int \<Rightarrow> rwlockattr" where
  "rwlockattr_setkind attr kind = (attr AND NOT RWLOCKATTR_KIND_MASK) OR push_bit 1 (word_of_int kind)"

definition pthread_rwlockattr_init :: rwlockattr where "pthread_rwlockattr_init = 0"
definition pthread_rwlockattr_destroy :: rwlockattr where "pthread_rwlockattr_destroy = -1"

definition pthread_rwlockattr_getpshared :: "rwlockattr \<Rightarrow> int" where
  "pthread_rwlockattr_getpshared attr =
     (if rwlockattr_getpshared attr then PTHREAD_PROCESS_SHARED else PTHREAD_PROCESS_PRIVATE)"

definition pthread_rwlockattr_setpshared :: "rwlockattr \<Rightarrow> int \<Rightarrow> rwlockattr \<times> int" where
  "pthread_rwlockattr_setpshared attr pshared =
     (if pshared = PTHREAD_PROCESS_PRIVATE then (rwlockattr_setpshared attr 0, 0)
      else if pshared = PTHREAD_PROCESS_SHARED then (rwlockattr_setpshared attr 1, 0)
      else (attr, EINVAL))"

definition pthread_rwlockattr_getkind_np :: "rwlockattr \<Rightarrow> int" where
  "pthread_rwlockattr_getkind_np attr = rwlockattr_getkind attr"

definition pthread_rwlockattr_setkind_np :: "rwlockattr \<Rightarrow> int \<Rightarrow> rwlockattr \<times> int" where
  "pthread_rwlockattr_setkind_np attr pref =
     (if pref = PTHREAD_RWLOCK_PREFER_READER_NP \<or> pref = PTHREAD_RWLOCK_PREFER_WRITER_NONRECURSIVE_NP
      then (rwlockattr_setkind attr pref, 0) else (attr, EINVAL))"

section \<open>The state word\<close>

definition STATE_HAVE_PENDING_READERS_FLAG :: u32 where "STATE_HAVE_PENDING_READERS_FLAG = 1"
definition STATE_HAVE_PENDING_WRITERS_FLAG :: u32 where "STATE_HAVE_PENDING_WRITERS_FLAG = 2"
definition STATE_READER_COUNT_CHANGE_STEP :: u32 where "STATE_READER_COUNT_CHANGE_STEP = 4"
definition STATE_OWNED_BY_WRITER_FLAG :: u32 where "STATE_OWNED_BY_WRITER_FLAG = 0x80000000"
definition STATE_HAVE_PENDING_READERS_OR_WRITERS_FLAG :: u32 where
  "STATE_HAVE_PENDING_READERS_OR_WRITERS_FLAG = STATE_HAVE_PENDING_READERS_FLAG OR STATE_HAVE_PENDING_WRITERS_FLAG"

definition state_owned_by_writer :: "u32 \<Rightarrow> bool" where
  "state_owned_by_writer state = (sint state < 0)"

definition state_owned_by_readers :: "u32 \<Rightarrow> bool" where
  "state_owned_by_readers state = (sint state \<ge> sint STATE_READER_COUNT_CHANGE_STEP)"

definition state_owned_by_readers_or_writer :: "u32 \<Rightarrow> bool" where
  "state_owned_by_readers_or_writer state = (sint state < 0 \<or> sint state \<ge> sint STATE_READER_COUNT_CHANGE_STEP)"

definition state_add_writer_flag :: "u32 \<Rightarrow> u32" where
  "state_add_writer_flag state = state OR STATE_OWNED_BY_WRITER_FLAG"

definition state_is_last_reader :: "u32 \<Rightarrow> bool" where
  "state_is_last_reader state = (sint state div 4 = 1)"

definition state_have_pending_writers :: "u32 \<Rightarrow> bool" where
  "state_have_pending_writers state = (state AND STATE_HAVE_PENDING_WRITERS_FLAG \<noteq> 0)"

definition state_have_pending_readers_or_writers :: "u32 \<Rightarrow> bool" where
  "state_have_pending_readers_or_writers state = (state AND STATE_HAVE_PENDING_READERS_OR_WRITERS_FLAG \<noteq> 0)"

section \<open>Locks\<close>

record rwlock_internal =
  rw_state :: u32
  rw_writer_tid :: nat
  rw_pshared :: bool
  rw_writer_nonrecursive_preferred :: bool
  rw_pending_lock :: "nat option"
  rw_pending_reader_count :: u32
  rw_pending_writer_count :: u32
  rw_pending_reader_wakeup_serial :: u32
  rw_pending_writer_wakeup_serial :: u32

definition zero_rwlock :: rwlock_internal where
  "zero_rwlock =
     \<lparr>rw_state = 0, rw_writer_tid = 0, rw_pshared = False, rw_writer_nonrecursive_preferred = False, rw_pending_lock = None,
      rw_pending_reader_count = 0, rw_pending_writer_count = 0, rw_pending_reader_wakeup_serial = 0,
      rw_pending_writer_wakeup_serial = 0\<rparr>"

definition pthread_rwlock_init :: "rwlockattr option \<Rightarrow> rwlock_internal \<times> int" where
  "pthread_rwlock_init attr =
     (case attr of
        None \<Rightarrow> (zero_rwlock, 0)
      | Some a \<Rightarrow>
          (let rw1 = zero_rwlock\<lparr>rw_pshared := rwlockattr_getpshared a\<rparr>;
               kind = rwlockattr_getkind a in
           if kind = PTHREAD_RWLOCK_PREFER_READER_NP \<or> kind = PTHREAD_RWLOCK_PREFER_WRITER_NONRECURSIVE_NP then
             (let rw2 = rw1\<lparr>rw_writer_nonrecursive_preferred := (kind = PTHREAD_RWLOCK_PREFER_WRITER_NONRECURSIVE_NP)\<rparr> in
              if a AND RWLOCKATTR_RESERVED_MASK \<noteq> 0 then (rw2, EINVAL) else (rw2, 0))
           else (rw1, EINVAL)))"

definition pthread_rwlock_destroy :: "rwlock_internal \<Rightarrow> int" where
  "pthread_rwlock_destroy rw = (if rw_state rw \<noteq> 0 then EBUSY else 0)"

definition can_acquire_read_lock :: "u32 \<Rightarrow> bool \<Rightarrow> bool" where
  "can_acquire_read_lock old_state writer_nonrecursive_preferred =
     (let cannot_apply = state_owned_by_writer old_state \<or>
            (writer_nonrecursive_preferred \<and> state_have_pending_writers old_state) in \<not> cannot_apply)"

definition can_acquire_write_lock :: "u32 \<Rightarrow> bool" where
  "can_acquire_write_lock old_state = (\<not> state_owned_by_readers_or_writer old_state)"

section \<open>Threads\<close>

datatype side = Rd | Wr

text \<open>Where the inlined try function was called from: the try functions, the fast path, or the loop of the slow path.\<close>

datatype caller = TryOnly | FastPath | SlowPath

datatype rw_pc =
  Idle
| TryLoad side caller
| TryLoop side caller u32
| StoreTid
| CheckTid side
| CheckTimeout side
| Reload side
| PendLock side
| PendCount side
| PendFlag side
| PendSerial side u32
| Wait side u32 u32
| Asleep side
| WakeLock side int
| WakeCount side int
| WakeFlag side int
| WakeUnlock side int
| UnlockLoad
| UnlockCheckTid
| UnlockClearTid
| UnlockWrite
| UnlockRead
| NotifyLock
| NotifyCount
| NotifyWake side

text \<open>
  The locks a thread holds are recorded with the atomic operation that takes and releases them;
  \<open>th_result\<close> is the value its last call returned.
\<close>

record rw_thread =
  th_pc :: rw_pc
  th_timeout :: "timespec option"
  th_result :: int
  th_reads :: nat
  th_writes :: bool

datatype rw_call =
  CallTryRdLock
| CallRdLock
| CallTimedRdLock "timespec option"
| CallTryWrLock
| CallWrLock
| CallTimedWrLock "timespec option"
| CallUnlock

text \<open>
  What the environment decides in a step: nothing, that a weak compare-exchange fails spuriously, how a
  futex wait ends, which sleeping writer is woken, and which function an idle thread calls.
\<close>

datatype choice = Go | CasFails | TimedOut | Interrupted | Pick nat | Call rw_call

definition returns :: "int \<Rightarrow> rw_thread \<Rightarrow> rw_thread" where
  "returns r t = t\<lparr>th_pc := Idle, th_result := r\<rparr>"

text \<open>What the caller of the inlined try function does with its result.\<close>

definition tryrdlock_returns :: "caller \<Rightarrow> int \<Rightarrow> rw_thread \<Rightarrow> rw_thread" where
  "tryrdlock_returns c r t =
     (case c of
        TryOnly \<Rightarrow> returns r t
      | FastPath \<Rightarrow> if r = 0 then returns 0 t else t\<lparr>th_pc := CheckTid Rd\<rparr>
      | SlowPath \<Rightarrow> if r = 0 \<or> r = EAGAIN then returns r t else t\<lparr>th_pc := CheckTimeout Rd\<rparr>)"

definition trywrlock_returns :: "caller \<Rightarrow> int \<Rightarrow> rw_thread \<Rightarrow> rw_thread" where
  "trywrlock_returns c r t =
     (case c of
        TryOnly \<Rightarrow> returns r t
      | FastPath \<Rightarrow> if r = 0 then returns 0 t else t\<lparr>th_pc := CheckTid Wr\<rparr>
      | SlowPath \<Rightarrow> if r = 0 then returns r t else t\<lparr>th_pc := CheckTimeout Wr\<rparr>)"

definition tryrdlock_loop :: "choice \<Rightarrow> caller \<Rightarrow> u32 \<Rightarrow> rwlock_internal \<Rightarrow> rw_thread \<Rightarrow> rwlock_internal \<times> rw_thread" where
  "tryrdlock_loop ch c old_state rw t =
     (if can_acquire_read_lock old_state (rw_writer_nonrecursive_preferred rw) then
        (let new_state = old_state + STATE_READER_COUNT_CHANGE_STEP in
         if \<not> state_owned_by_readers new_state then (rw, tryrdlock_returns c EAGAIN t)
         else if rw_state rw = old_state \<and> ch \<noteq> CasFails
         then (rw\<lparr>rw_state := new_state\<rparr>, tryrdlock_returns c 0 (t\<lparr>th_reads := th_reads t + 1\<rparr>))
         else (rw, t\<lparr>th_pc := TryLoop Rd c (rw_state rw)\<rparr>))
      else (rw, tryrdlock_returns c EBUSY t))"

text \<open>The store of the thread id follows the exchange; all callers return 0 after it.\<close>

definition trywrlock_loop :: "choice \<Rightarrow> caller \<Rightarrow> u32 \<Rightarrow> rwlock_internal \<Rightarrow> rw_thread \<Rightarrow> rwlock_internal \<times> rw_thread" where
  "trywrlock_loop ch c old_state rw t =
     (if can_acquire_write_lock old_state then
        (if rw_state rw = old_state \<and> ch \<noteq> CasFails
         then (rw\<lparr>rw_state := state_add_writer_flag old_state\<rparr>, t\<lparr>th_writes := True, th_pc := StoreTid\<rparr>)
         else (rw, t\<lparr>th_pc := TryLoop Wr c (rw_state rw)\<rparr>))
      else (rw, trywrlock_returns c EBUSY t))"

text \<open>
  A futex wait on a serial that has the expected value sleeps, or times out at once; on another value
  it returns.
\<close>

definition futex_wait_step :: "choice \<Rightarrow> side \<Rightarrow> bool \<Rightarrow> rw_thread \<Rightarrow> rw_thread option" where
  "futex_wait_step ch s same t =
     (if ch = TimedOut then (if th_timeout t \<noteq> None then Some (t\<lparr>th_pc := WakeLock s (- ETIMEDOUT)\<rparr>) else None)
      else if same then Some (t\<lparr>th_pc := Asleep s\<rparr>)
      else Some (t\<lparr>th_pc := WakeLock s (- EAGAIN)\<rparr>))"

definition asleep_step :: "choice \<Rightarrow> side \<Rightarrow> rw_thread \<Rightarrow> rw_thread option" where
  "asleep_step ch s t =
     (case ch of
        TimedOut \<Rightarrow> if th_timeout t \<noteq> None then Some (t\<lparr>th_pc := WakeLock s (- ETIMEDOUT)\<rparr>) else None
      | Interrupted \<Rightarrow> Some (t\<lparr>th_pc := WakeLock s (- EINTR)\<rparr>)
      | _ \<Rightarrow> None)"

fun timedrdlock_step :: "nat \<Rightarrow> choice \<Rightarrow> rw_pc \<Rightarrow> rwlock_internal \<Rightarrow> rw_thread \<Rightarrow> (rwlock_internal \<times> rw_thread) option" where
  "timedrdlock_step i ch (CheckTid s) rw t =
     Some (rw, if rw_writer_tid rw = i + 1 then returns EDEADLK t else t\<lparr>th_pc := TryLoad Rd SlowPath\<rparr>)"
| "timedrdlock_step i ch (CheckTimeout s) rw t =
     (case check_timespec (th_timeout t) True of
        Ok r \<Rightarrow> Some (rw, if r \<noteq> 0 then returns r t else t\<lparr>th_pc := Reload Rd\<rparr>)
      | _ \<Rightarrow> None)"
| "timedrdlock_step i ch (Reload s) rw t =
     Some (rw, if can_acquire_read_lock (rw_state rw) (rw_writer_nonrecursive_preferred rw)
               then t\<lparr>th_pc := TryLoad Rd SlowPath\<rparr> else t\<lparr>th_pc := PendLock Rd\<rparr>)"
| "timedrdlock_step i ch (PendLock s) rw t =
     (if rw_pending_lock rw = None then Some (rw\<lparr>rw_pending_lock := Some i\<rparr>, t\<lparr>th_pc := PendCount Rd\<rparr>) else None)"
| "timedrdlock_step i ch (PendCount s) rw t =
     Some (rw\<lparr>rw_pending_reader_count := rw_pending_reader_count rw + 1\<rparr>, t\<lparr>th_pc := PendFlag Rd\<rparr>)"
| "timedrdlock_step i ch (PendFlag s) rw t =
     Some (rw\<lparr>rw_state := rw_state rw OR STATE_HAVE_PENDING_READERS_FLAG\<rparr>, t\<lparr>th_pc := PendSerial Rd (rw_state rw)\<rparr>)"
| "timedrdlock_step i ch (PendSerial s old_state) rw t =
     Some (rw\<lparr>rw_pending_lock := None\<rparr>, t\<lparr>th_pc := Wait Rd old_state (rw_pending_reader_wakeup_serial rw)\<rparr>)"
| "timedrdlock_step i ch (Wait s old_state old_serial) rw t =
     (if \<not> can_acquire_read_lock old_state (rw_writer_nonrecursive_preferred rw)
      then map_option (Pair rw) (futex_wait_step ch Rd (rw_pending_reader_wakeup_serial rw = old_serial) t)
      else Some (rw, t\<lparr>th_pc := WakeLock Rd 0\<rparr>))"
| "timedrdlock_step i ch (Asleep s) rw t = map_option (Pair rw) (asleep_step ch Rd t)"
| "timedrdlock_step i ch (WakeLock s futex_result) rw t =
     (if rw_pending_lock rw = None then Some (rw\<lparr>rw_pending_lock := Some i\<rparr>, t\<lparr>th_pc := WakeCount Rd futex_result\<rparr>) else None)"
| "timedrdlock_step i ch (WakeCount s futex_result) rw t =
     (let n = rw_pending_reader_count rw - 1 in
      Some (rw\<lparr>rw_pending_reader_count := n\<rparr>, t\<lparr>th_pc := if n = 0 then WakeFlag Rd futex_result else WakeUnlock Rd futex_result\<rparr>))"
| "timedrdlock_step i ch (WakeFlag s futex_result) rw t =
     Some (rw\<lparr>rw_state := rw_state rw AND NOT STATE_HAVE_PENDING_READERS_FLAG\<rparr>, t\<lparr>th_pc := WakeUnlock Rd futex_result\<rparr>)"
| "timedrdlock_step i ch (WakeUnlock s futex_result) rw t =
     Some (rw\<lparr>rw_pending_lock := None\<rparr>,
           if futex_result = - ETIMEDOUT then returns ETIMEDOUT t else t\<lparr>th_pc := TryLoad Rd SlowPath\<rparr>)"
| "timedrdlock_step i ch pc rw t = None"

fun timedwrlock_step :: "nat \<Rightarrow> choice \<Rightarrow> rw_pc \<Rightarrow> rwlock_internal \<Rightarrow> rw_thread \<Rightarrow> (rwlock_internal \<times> rw_thread) option" where
  "timedwrlock_step i ch (CheckTid s) rw t =
     Some (rw, if rw_writer_tid rw = i + 1 then returns EDEADLK t else t\<lparr>th_pc := TryLoad Wr SlowPath\<rparr>)"
| "timedwrlock_step i ch (CheckTimeout s) rw t =
     (case check_timespec (th_timeout t) True of
        Ok r \<Rightarrow> Some (rw, if r \<noteq> 0 then returns r t else t\<lparr>th_pc := Reload Wr\<rparr>)
      | _ \<Rightarrow> None)"
| "timedwrlock_step i ch (Reload s) rw t =
     Some (rw, if can_acquire_write_lock (rw_state rw)
               then t\<lparr>th_pc := TryLoad Wr SlowPath\<rparr> else t\<lparr>th_pc := PendLock Wr\<rparr>)"
| "timedwrlock_step i ch (PendLock s) rw t =
     (if rw_pending_lock rw = None then Some (rw\<lparr>rw_pending_lock := Some i\<rparr>, t\<lparr>th_pc := PendCount Wr\<rparr>) else None)"
| "timedwrlock_step i ch (PendCount s) rw t =
     Some (rw\<lparr>rw_pending_writer_count := rw_pending_writer_count rw + 1\<rparr>, t\<lparr>th_pc := PendFlag Wr\<rparr>)"
| "timedwrlock_step i ch (PendFlag s) rw t =
     Some (rw\<lparr>rw_state := rw_state rw OR STATE_HAVE_PENDING_WRITERS_FLAG\<rparr>, t\<lparr>th_pc := PendSerial Wr (rw_state rw)\<rparr>)"
| "timedwrlock_step i ch (PendSerial s old_state) rw t =
     Some (rw\<lparr>rw_pending_lock := None\<rparr>, t\<lparr>th_pc := Wait Wr old_state (rw_pending_writer_wakeup_serial rw)\<rparr>)"
| "timedwrlock_step i ch (Wait s old_state old_serial) rw t =
     (if \<not> can_acquire_write_lock old_state
      then map_option (Pair rw) (futex_wait_step ch Wr (rw_pending_writer_wakeup_serial rw = old_serial) t)
      else Some (rw, t\<lparr>th_pc := WakeLock Wr 0\<rparr>))"
| "timedwrlock_step i ch (Asleep s) rw t = map_option (Pair rw) (asleep_step ch Wr t)"
| "timedwrlock_step i ch (WakeLock s futex_result) rw t =
     (if rw_pending_lock rw = None then Some (rw\<lparr>rw_pending_lock := Some i\<rparr>, t\<lparr>th_pc := WakeCount Wr futex_result\<rparr>) else None)"
| "timedwrlock_step i ch (WakeCount s futex_result) rw t =
     (let n = rw_pending_writer_count rw - 1 in
      Some (rw\<lparr>rw_pending_writer_count := n\<rparr>, t\<lparr>th_pc := if n = 0 then WakeFlag Wr futex_result else WakeUnlock Wr futex_result\<rparr>))"
| "timedwrlock_step i ch (WakeFlag s futex_result) rw t =
     Some (rw\<lparr>rw_state := rw_state rw AND NOT STATE_HAVE_PENDING_WRITERS_FLAG\<rparr>, t\<lparr>th_pc := WakeUnlock Wr futex_result\<rparr>)"
| "timedwrlock_step i ch (WakeUnlock s futex_result) rw t =
     Some (rw\<lparr>rw_pending_lock := None\<rparr>,
           if futex_result = - ETIMEDOUT then returns ETIMEDOUT t else t\<lparr>th_pc := TryLoad Wr SlowPath\<rparr>)"
| "timedwrlock_step i ch pc rw t = None"

text \<open>\<open>pthread_rwlock_unlock\<close> up to the futex wake, which acts on the sleeping threads.\<close>

fun unlock_step :: "nat \<Rightarrow> rw_pc \<Rightarrow> rwlock_internal \<Rightarrow> rw_thread \<Rightarrow> (rwlock_internal \<times> rw_thread) option" where
  "unlock_step i UnlockLoad rw t =
     Some (rw, if state_owned_by_writer (rw_state rw) then t\<lparr>th_pc := UnlockCheckTid\<rparr>
               else if state_owned_by_readers (rw_state rw) then t\<lparr>th_pc := UnlockRead\<rparr>
               else returns EPERM t)"
| "unlock_step i UnlockCheckTid rw t =
     Some (rw, if rw_writer_tid rw \<noteq> i + 1 then returns EPERM t else t\<lparr>th_pc := UnlockClearTid\<rparr>)"
| "unlock_step i UnlockClearTid rw t = Some (rw\<lparr>rw_writer_tid := 0\<rparr>, t\<lparr>th_pc := UnlockWrite\<rparr>)"
| "unlock_step i UnlockWrite rw t =
     (let t' = t\<lparr>th_writes := False\<rparr> in
      Some (rw\<lparr>rw_state := rw_state rw AND NOT STATE_OWNED_BY_WRITER_FLAG\<rparr>,
            if \<not> state_have_pending_readers_or_writers (rw_state rw) then returns 0 t' else t'\<lparr>th_pc := NotifyLock\<rparr>))"
| "unlock_step i UnlockRead rw t =
     (let t' = t\<lparr>th_reads := th_reads t - 1\<rparr> in
      Some (rw\<lparr>rw_state := rw_state rw - STATE_READER_COUNT_CHANGE_STEP\<rparr>,
            if \<not> state_is_last_reader (rw_state rw) \<or> \<not> state_have_pending_readers_or_writers (rw_state rw)
            then returns 0 t' else t'\<lparr>th_pc := NotifyLock\<rparr>))"
| "unlock_step i NotifyLock rw t =
     (if rw_pending_lock rw = None then Some (rw\<lparr>rw_pending_lock := Some i\<rparr>, t\<lparr>th_pc := NotifyCount\<rparr>) else None)"
| "unlock_step i NotifyCount rw t =
     (if rw_pending_writer_count rw \<noteq> 0 then
        Some (rw\<lparr>rw_pending_writer_wakeup_serial := rw_pending_writer_wakeup_serial rw + 1, rw_pending_lock := None\<rparr>,
              t\<lparr>th_pc := NotifyWake Wr\<rparr>)
      else if rw_pending_reader_count rw \<noteq> 0 then
        Some (rw\<lparr>rw_pending_reader_wakeup_serial := rw_pending_reader_wakeup_serial rw + 1, rw_pending_lock := None\<rparr>,
              t\<lparr>th_pc := NotifyWake Rd\<rparr>)
      else Some (rw\<lparr>rw_pending_lock := None\<rparr>, returns 0 t))"
| "unlock_step i pc rw t = None"

text \<open>
  The first step of a call. A call of unlock is a step of the model only for a thread that holds the
  lock: for the others POSIX leaves it undefined.
\<close>

definition start_call :: "rw_call \<Rightarrow> rw_thread \<Rightarrow> rw_thread option" where
  "start_call c t =
     (case c of
        CallTryRdLock \<Rightarrow> Some (t\<lparr>th_pc := TryLoad Rd TryOnly, th_timeout := None\<rparr>)
      | CallRdLock \<Rightarrow> Some (t\<lparr>th_pc := TryLoad Rd FastPath, th_timeout := None\<rparr>)
      | CallTimedRdLock timeout \<Rightarrow> Some (t\<lparr>th_pc := CheckTid Rd, th_timeout := timeout\<rparr>)
      | CallTryWrLock \<Rightarrow> Some (t\<lparr>th_pc := TryLoad Wr TryOnly, th_timeout := None\<rparr>)
      | CallWrLock \<Rightarrow> Some (t\<lparr>th_pc := TryLoad Wr FastPath, th_timeout := None\<rparr>)
      | CallTimedWrLock timeout \<Rightarrow> Some (t\<lparr>th_pc := CheckTid Wr, th_timeout := timeout\<rparr>)
      | CallUnlock \<Rightarrow> if th_reads t \<noteq> 0 \<or> th_writes t then Some (t\<lparr>th_pc := UnlockLoad, th_timeout := None\<rparr>) else None)"

text \<open>\<open>pthread_rwlock_clockrdlock\<close> and \<open>pthread_rwlock_clockwrlock\<close>: the call they forward to, or the error.\<close>

definition pthread_rwlock_clockrdlock :: "clockid \<Rightarrow> timespec option \<Rightarrow> int + rw_call" where
  "pthread_rwlock_clockrdlock clock abs_timeout =
     (case clock of
        CLOCK_MONOTONIC \<Rightarrow> Inr (CallTimedRdLock abs_timeout)
      | CLOCK_REALTIME \<Rightarrow> Inr (CallTimedRdLock abs_timeout)
      | OtherClock _ \<Rightarrow> Inl EINVAL)"

definition pthread_rwlock_clockwrlock :: "clockid \<Rightarrow> timespec option \<Rightarrow> int + rw_call" where
  "pthread_rwlock_clockwrlock clock abs_timeout =
     (case clock of
        CLOCK_MONOTONIC \<Rightarrow> Inr (CallTimedWrLock abs_timeout)
      | CLOCK_REALTIME \<Rightarrow> Inr (CallTimedWrLock abs_timeout)
      | OtherClock _ \<Rightarrow> Inl EINVAL)"

fun side_of :: "rw_pc \<Rightarrow> side option" where
  "side_of (CheckTid s) = Some s"
| "side_of (CheckTimeout s) = Some s"
| "side_of (Reload s) = Some s"
| "side_of (PendLock s) = Some s"
| "side_of (PendCount s) = Some s"
| "side_of (PendFlag s) = Some s"
| "side_of (PendSerial s _) = Some s"
| "side_of (Wait s _ _) = Some s"
| "side_of (Asleep s) = Some s"
| "side_of (WakeLock s _) = Some s"
| "side_of (WakeCount s _) = Some s"
| "side_of (WakeFlag s _) = Some s"
| "side_of (WakeUnlock s _) = Some s"
| "side_of _ = None"

definition thread_step :: "nat \<Rightarrow> choice \<Rightarrow> rwlock_internal \<Rightarrow> rw_thread \<Rightarrow> (rwlock_internal \<times> rw_thread) option" where
  "thread_step i ch rw t =
     (case side_of (th_pc t) of
        Some Rd \<Rightarrow> timedrdlock_step i ch (th_pc t) rw t
      | Some Wr \<Rightarrow> timedwrlock_step i ch (th_pc t) rw t
      | None \<Rightarrow>
          (case th_pc t of
             Idle \<Rightarrow> (case ch of Call c \<Rightarrow> map_option (Pair rw) (start_call c t) | _ \<Rightarrow> None)
           | TryLoad s c \<Rightarrow> Some (rw, t\<lparr>th_pc := TryLoop s c (rw_state rw)\<rparr>)
           | TryLoop Rd c old_state \<Rightarrow> Some (tryrdlock_loop ch c old_state rw t)
           | TryLoop Wr c old_state \<Rightarrow> Some (trywrlock_loop ch c old_state rw t)
           | StoreTid \<Rightarrow> Some (rw\<lparr>rw_writer_tid := i + 1\<rparr>, returns 0 t)
           | pc \<Rightarrow> unlock_step i pc rw t))"

section \<open>The system\<close>

record rw_sys =
  sys_lock :: rwlock_internal
  sys_threads :: "rw_thread list"

definition woken :: "side \<Rightarrow> rw_thread \<Rightarrow> rw_thread" where
  "woken s t = (if th_pc t = Asleep s then t\<lparr>th_pc := WakeLock s 0\<rparr> else t)"

text \<open>The futex wake at the end of unlock: one sleeping writer, which the environment picks, or all sleeping readers.\<close>

definition notify :: "choice \<Rightarrow> side \<Rightarrow> rw_thread list \<Rightarrow> rw_thread list option" where
  "notify ch s ts =
     (case s of
        Rd \<Rightarrow> Some (map (woken Rd) ts)
      | Wr \<Rightarrow>
          if list_all (\<lambda>t. th_pc t \<noteq> Asleep Wr) ts then Some ts
          else (case ch of
                  Pick j \<Rightarrow> if j < length ts \<and> th_pc (ts ! j) = Asleep Wr then Some (ts[j := woken Wr (ts ! j)]) else None
                | _ \<Rightarrow> None))"

definition sys_step :: "nat \<Rightarrow> choice \<Rightarrow> rw_sys \<Rightarrow> rw_sys option" where
  "sys_step i ch s =
     (if i < length (sys_threads s) then
        (case th_pc (sys_threads s ! i) of
           NotifyWake sd \<Rightarrow>
             map_option (\<lambda>ts. s\<lparr>sys_threads := ts[i := returns 0 (ts ! i)]\<rparr>) (notify ch sd (sys_threads s))
         | _ \<Rightarrow>
             map_option (\<lambda>(rw, t). s\<lparr>sys_lock := rw, sys_threads := (sys_threads s)[i := t]\<rparr>)
               (thread_step i ch (sys_lock s) (sys_threads s ! i)))
      else None)"

fun sys_run :: "(nat \<times> choice) list \<Rightarrow> rw_sys \<Rightarrow> rw_sys option" where
  "sys_run [] s = Some s"
| "sys_run ((i, ch) # xs) s = (case sys_step i ch s of None \<Rightarrow> None | Some s' \<Rightarrow> sys_run xs s')"

definition idle_thread :: rw_thread where
  "idle_thread = \<lparr>th_pc = Idle, th_timeout = None, th_result = 0, th_reads = 0, th_writes = False\<rparr>"

definition init_sys :: "bool \<Rightarrow> nat \<Rightarrow> rw_sys" where
  "init_sys writer_preferred n =
     \<lparr>sys_lock = zero_rwlock\<lparr>rw_writer_nonrecursive_preferred := writer_preferred\<rparr>,
      sys_threads = replicate n idle_thread\<rparr>"

text \<open>The states that \<open>n\<close> threads reach, with the number of steps.\<close>

inductive rw_reach :: "bool \<Rightarrow> nat \<Rightarrow> nat \<Rightarrow> rw_sys \<Rightarrow> bool" for wp n where
  init: "rw_reach wp n 0 (init_sys wp n)"
| step: "rw_reach wp n k s \<Longrightarrow> sys_step i ch s = Some s' \<Longrightarrow> rw_reach wp n (Suc k) s'"

end
