(* ===== verification/Rwlock_State.thy ===== *)
theory Rwlock_State
  imports Rwlock
begin

text \<open>
  The state word of a read-write lock as the encoding of a writer flag, a reader count and two pending
  flags, and the counting of threads by what they are doing.
\<close>

section \<open>The encoding\<close>

definition enc :: "bool \<Rightarrow> nat \<Rightarrow> bool \<Rightarrow> bool \<Rightarrow> u32" where
  "enc w r bw br = word_of_nat (2 ^ 31 * of_bool w + 4 * r + 2 * of_bool bw + of_bool br)"

lemma unat_enc: "r < 2 ^ 29 \<Longrightarrow> unat (enc w r bw br) = 2 ^ 31 * of_bool w + 4 * r + 2 * of_bool bw + of_bool br"
  unfolding enc_def unat_of_nat by (auto simp: take_bit_nat_eq_self_iff)

lemma sint_u32: "sint (a :: u32) = (if unat a < 2 ^ 31 then int (unat a) else int (unat a) - 2 ^ 32)"
proof -
  define x where "x = unat a"
  have lt: "x < 2 ^ 32"
    using unsigned_less [of a, where 'a = nat] by (simp add: x_def)
  have s: "sint a = (int x + 2 ^ 31) mod 2 ^ 32 - 2 ^ 31"
    by (simp add: sint_uint signed_take_bit_eq_take_bit_shift take_bit_eq_mod x_def)
  have "(int x + 2 ^ 31) mod 2 ^ 32 = (if x < 2 ^ 31 then int x + 2 ^ 31 else int x + 2 ^ 31 - 2 ^ 32)"
    using lt by (cases "x < 2 ^ 31") (simp, subst mod_pos_geq, simp_all)
  then show ?thesis
    unfolding s x_def [symmetric] by simp
qed

lemma bit_flags: "bit (2 :: u32) n \<longleftrightarrow> n = 1" "bit (0x80000000 :: u32) n \<longleftrightarrow> n = 31"
proof -
  have exp: "bit (2 ^ m :: u32) n \<longleftrightarrow> n < 32 \<and> n = m" for m
    by (subst bit_exp_iff) simp
  show "bit (2 :: u32) n \<longleftrightarrow> n = 1" "bit (0x80000000 :: u32) n \<longleftrightarrow> n = 31"
    using exp [of 1] exp [of 31] by auto
qed

lemma enc_tests:
  assumes "r < 2 ^ 29"
  shows "state_owned_by_writer (enc w r bw br) \<longleftrightarrow> w"
    "state_owned_by_readers (enc w r bw br) \<longleftrightarrow> \<not> w \<and> 0 < r"
    "state_owned_by_readers_or_writer (enc w r bw br) \<longleftrightarrow> w \<or> 0 < r"
    "state_is_last_reader (enc w r bw br) \<longleftrightarrow> \<not> w \<and> r = 1"
  using assms unat_enc [OF assms, of w bw br]
  by (auto simp: state_owned_by_writer_def state_owned_by_readers_def state_owned_by_readers_or_writer_def
      state_is_last_reader_def STATE_READER_COUNT_CHANGE_STEP_def sint_u32)

lemma bit_enc:
  assumes "r < 2 ^ 29"
  shows "bit (enc w r bw br) n \<longleftrightarrow> n = 0 \<and> br \<or> n = 1 \<and> bw \<or> 2 \<le> n \<and> n < 31 \<and> bit r (n - 2) \<or> n = 31 \<and> w"
proof -
  let ?x = "2 ^ 31 * of_bool w + 4 * r + 2 * of_bool bw + of_bool br :: nat"
  have b: "bit (enc w r bw br) n \<longleftrightarrow> n < 32 \<and> bit ?x n"
    unfolding enc_def bit_of_nat_iff possible_bit_word by (rule conj_cong) simp_all
  have high: "\<not> bit r m" if "29 \<le> m" for m
  proof -
    have "r < 2 ^ m"
      using assms that by (meson less_le_trans one_le_numeral power_increasing)
    then show ?thesis
      by (simp add: bit_iff_odd)
  qed
  have x4: "?x div 2 div 2 = push_bit 29 (of_bool w) OR r"
  proof -
    have "?x div 2 div 2 = 2 ^ 29 * of_bool w + r"
      by (cases w; cases bw; cases br) simp_all
    also have "\<dots> = push_bit 29 (of_bool w) + r"
      by (simp add: push_bit_eq_mult)
    also have "\<dots> = push_bit 29 (of_bool w) OR r"
      by (rule disjunctive_add) (auto simp: bit_simps high)
    finally show ?thesis .
  qed
  consider "n = 0" | "n = 1" | m where "n = Suc (Suc m)"
    by (metis One_nat_def not0_implies_Suc)
  then show ?thesis
  proof cases
    case 1
    then show ?thesis
      unfolding b by (simp add: bit_0)
  next
    case 2
    have "?x div 2 = 2 * (2 ^ 29 * of_bool w + r) + of_bool bw"
      by (cases w; cases bw; cases br) simp_all
    then show ?thesis
      unfolding b using 2 by (simp add: bit_Suc bit_0)
  next
    case 3
    have "bit ?x n \<longleftrightarrow> bit (push_bit 29 (of_bool w) OR r) m"
      unfolding 3 bit_Suc x4 by (rule refl)
    then show ?thesis
      unfolding b using 3 high [of m] by (cases "29 \<le> m") (auto simp: bit_simps)
  qed
qed

lemma u32_nonzero: "(x :: u32) \<noteq> 0 \<longleftrightarrow> (\<exists>n. bit x n)"
  by (metis bit_0_eq bit_word_eqI bot_apply bot_bool_def)

lemma enc_pending:
  assumes "r < 2 ^ 29"
  shows "state_have_pending_writers (enc w r bw br) \<longleftrightarrow> bw"
    "state_have_pending_readers_or_writers (enc w r bw br) \<longleftrightarrow> bw \<or> br"
  unfolding state_have_pending_writers_def STATE_HAVE_PENDING_WRITERS_FLAG_def state_have_pending_readers_or_writers_def
    STATE_HAVE_PENDING_READERS_OR_WRITERS_FLAG_def STATE_HAVE_PENDING_READERS_FLAG_def u32_nonzero
    bit_and_iff bit_or_iff bit_flags bit_1_iff bit_enc [OF assms]
  by auto

lemma enc_flags:
  assumes "r < 2 ^ 29"
  shows "enc w r bw br OR STATE_HAVE_PENDING_READERS_FLAG = enc w r bw True"
    "enc w r bw br OR STATE_HAVE_PENDING_WRITERS_FLAG = enc w r True br"
    "enc w r bw br AND NOT STATE_HAVE_PENDING_READERS_FLAG = enc w r bw False"
    "enc w r bw br AND NOT STATE_HAVE_PENDING_WRITERS_FLAG = enc w r False br"
    "state_add_writer_flag (enc w r bw br) = enc True r bw br"
    "enc w r bw br AND NOT STATE_OWNED_BY_WRITER_FLAG = enc False r bw br"
  unfolding state_add_writer_flag_def STATE_HAVE_PENDING_WRITERS_FLAG_def STATE_HAVE_PENDING_READERS_FLAG_def STATE_OWNED_BY_WRITER_FLAG_def
  by (rule bit_word_eqI, unfold bit_and_iff bit_or_iff bit_not_iff bit_flags bit_1_iff bit_enc [OF assms], (auto)[1])+

lemma enc_step:
  assumes "r < 2 ^ 29"
  shows "r + 1 < 2 ^ 29 \<Longrightarrow> enc w r bw br + STATE_READER_COUNT_CHANGE_STEP = enc w (r + 1) bw br"
    "0 < r \<Longrightarrow> enc w r bw br - STATE_READER_COUNT_CHANGE_STEP = enc w (r - 1) bw br"
    "\<not> w \<Longrightarrow> r + 1 = 2 ^ 29 \<Longrightarrow> \<not> state_owned_by_readers (enc w r bw br + STATE_READER_COUNT_CHANGE_STEP)"
proof -
  have plus: "enc w k bw br + STATE_READER_COUNT_CHANGE_STEP = enc w (k + 1) bw br" for k
    by (simp add: enc_def STATE_READER_COUNT_CHANGE_STEP_def algebra_simps)
  show "enc w r bw br + STATE_READER_COUNT_CHANGE_STEP = enc w (r + 1) bw br"
    by (rule plus)
  show "enc w r bw br - STATE_READER_COUNT_CHANGE_STEP = enc w (r - 1) bw br" if "0 < r"
    using plus [of "r - 1"] that by (simp add: algebra_simps)
  show "\<not> state_owned_by_readers (enc w r bw br + STATE_READER_COUNT_CHANGE_STEP)" if "\<not> w" "r + 1 = 2 ^ 29"
  proof -
    have "enc w (2 ^ 29) bw br = enc True 0 bw br"
      using that(1) by (simp add: enc_def)
    then show ?thesis
      using plus [of r] that(2) enc_tests(2) [of 0 True bw br] by simp
  qed
qed

end
