(* ===== verification/Interleaving.thy ===== *)
theory Interleaving
  imports Main
begin

text \<open>
  Lists of threads: counting the threads with a property, and the threads other than the one that steps.
\<close>

section \<open>Counting threads\<close>

definition cnt :: "('a \<Rightarrow> bool) \<Rightarrow> 'a list \<Rightarrow> nat" where
  "cnt P ts = sum_list (map (\<lambda>t. of_bool (P t)) ts)"

definition others :: "nat \<Rightarrow> 'a list \<Rightarrow> 'a list" where
  "others i ts = take i ts @ drop (Suc i) ts"

lemma cnt_simps [simp]: "cnt P [] = 0" "cnt P (t # ts) = of_bool (P t) + cnt P ts" "cnt P (ts @ us) = cnt P ts + cnt P us"
  by (simp_all add: cnt_def)

lemma sum_split: "i < length ts \<Longrightarrow> sum_list (map f ts) = f (ts ! i) + sum_list (map f (others i ts) :: nat list)"
  by (subst id_take_nth_drop [of i ts]) (simp_all add: others_def)

lemma cnt_split: "i < length ts \<Longrightarrow> cnt P ts = of_bool (P (ts ! i)) + cnt P (others i ts)"
  unfolding cnt_def by (rule sum_split)

lemma others_update [simp]: "others i (ts[i := t]) = others i ts"
  by (simp add: others_def)

lemma cnt_pos: "0 < cnt P ts \<longleftrightarrow> (\<exists>t \<in> set ts. P t)"
  by (induction ts) auto

lemma cnt_le: "cnt P ts \<le> length ts"
  by (induction ts) (auto simp: le_Suc_eq)

lemma cnt_cong: "(\<And>t. t \<in> set ts \<Longrightarrow> P t = Q t) \<Longrightarrow> cnt P ts = cnt Q ts"
  by (induction ts) auto

lemma in_others: "i < length ts \<Longrightarrow> t \<in> set (others i ts) \<longleftrightarrow> (\<exists>j < length ts. j \<noteq> i \<and> t = ts ! j)"
proof -
  assume i: "i < length ts"
  have "t \<in> set (take i ts) \<longleftrightarrow> (\<exists>j < i. t = ts ! j)"
    using i by (auto simp: in_set_conv_nth)
  moreover have "t \<in> set (drop (Suc i) ts) \<longleftrightarrow> (\<exists>j < length ts. i < j \<and> t = ts ! j)"
  proof
    assume "t \<in> set (drop (Suc i) ts)"
    then obtain k where "k < length ts - Suc i" "t = drop (Suc i) ts ! k"
      by (auto simp: in_set_conv_nth)
    then show "\<exists>j < length ts. i < j \<and> t = ts ! j"
      using i by (intro exI [of _ "Suc i + k"]) simp
  next
    assume "\<exists>j < length ts. i < j \<and> t = ts ! j"
    then obtain j where "j < length ts" "i < j" "t = ts ! j" by blast
    then show "t \<in> set (drop (Suc i) ts)"
      by (auto simp: in_set_conv_nth intro!: exI [of _ "j - Suc i"])
  qed
  ultimately show ?thesis
    using i unfolding others_def by (auto; metis less_trans nat_neq_iff)
qed

lemma all_update:
  "i < length ts \<Longrightarrow> (\<forall>j < length ts. Q j (ts[i := t] ! j)) \<longleftrightarrow> Q i t \<and> (\<forall>j < length ts. j \<noteq> i \<longrightarrow> Q j (ts ! j))"
  by (auto simp: nth_list_update)

lemma set_update_others: "i < length ts \<Longrightarrow> set (ts[i := t]) = insert t (set (others i ts))"
  by (subst upd_conv_take_nth_drop) (auto simp: others_def)

end
