(* ===== verification/Rwlock_Inv.thy ===== *)
theory Rwlock_Inv
  imports Rwlock_State Interleaving
begin

text \<open>
  The invariant of a read-write lock under any interleaving of its threads: the state word counts the
  holders, the pending counts and flags are those of the threads in the slow path, and the thread id
  is that of the writer.
\<close>

section \<open>What a thread is doing\<close>

text \<open>In a critical section of \<open>pending_lock\<close>; counted as pending; covered by the pending flag; clearing that flag.\<close>

fun crit :: "rw_pc \<Rightarrow> bool" where
  "crit (PendCount _) = True"
| "crit (PendFlag _) = True"
| "crit (PendSerial _ _) = True"
| "crit (WakeCount _ _) = True"
| "crit (WakeFlag _ _) = True"
| "crit (WakeUnlock _ _) = True"
| "crit NotifyCount = True"
| "crit _ = False"

fun counted :: "side \<Rightarrow> rw_pc \<Rightarrow> bool" where
  "counted s (PendFlag s') = (s' = s)"
| "counted s (PendSerial s' _) = (s' = s)"
| "counted s (Wait s' _ _) = (s' = s)"
| "counted s (Asleep s') = (s' = s)"
| "counted s (WakeLock s' _) = (s' = s)"
| "counted s (WakeCount s' _) = (s' = s)"
| "counted s _ = False"

fun clearing :: "side \<Rightarrow> rw_pc \<Rightarrow> bool" where
  "clearing s (WakeFlag s' _) = (s' = s)"
| "clearing s _ = False"

fun flagged :: "side \<Rightarrow> rw_pc \<Rightarrow> bool" where
  "flagged s (PendSerial s' _) = (s' = s)"
| "flagged s (Wait s' _ _) = (s' = s)"
| "flagged s (Asleep s') = (s' = s)"
| "flagged s (WakeLock s' _) = (s' = s)"
| "flagged s (WakeCount s' _) = (s' = s)"
| "flagged s (WakeFlag s' _) = (s' = s)"
| "flagged s _ = False"

text \<open>A writer whose thread id is stored.\<close>

definition tid_set :: "rw_thread \<Rightarrow> bool" where
  "tid_set t \<longleftrightarrow> th_writes t \<and> th_pc t \<noteq> StoreTid \<and> th_pc t \<noteq> UnlockWrite"

definition holds_ok :: "rw_thread \<Rightarrow> bool" where
  "holds_ok t \<longleftrightarrow>
     (th_pc t \<in> {StoreTid, UnlockCheckTid, UnlockClearTid, UnlockWrite} \<longrightarrow> th_writes t) \<and>
     (th_pc t = UnlockRead \<longrightarrow> th_reads t \<noteq> 0) \<and> (th_pc t = UnlockLoad \<longrightarrow> th_reads t \<noteq> 0 \<or> th_writes t)"

definition reads :: "rw_thread list \<Rightarrow> nat" where
  "reads ts = sum_list (map th_reads ts)"

definition writers :: "rw_thread list \<Rightarrow> nat" where
  "writers ts = cnt th_writes ts"

abbreviation pcnt :: "(rw_pc \<Rightarrow> bool) \<Rightarrow> rw_thread list \<Rightarrow> nat" where
  "pcnt P ts \<equiv> cnt (\<lambda>t. P (th_pc t)) ts"

section \<open>The invariant\<close>

definition state_inv :: "rwlock_internal \<Rightarrow> rw_thread list \<Rightarrow> bool" where
  "state_inv rw ts \<longleftrightarrow>
     rw_state rw = enc (0 < writers ts) (reads ts) (0 < pcnt (flagged Wr) ts) (0 < pcnt (flagged Rd) ts) \<and>
     reads ts < 2 ^ 29 \<and> (writers ts = 0 \<or> writers ts = 1 \<and> reads ts = 0)"

definition count_inv :: "rwlock_internal \<Rightarrow> rw_thread list \<Rightarrow> bool" where
  "count_inv rw ts \<longleftrightarrow>
     unat (rw_pending_reader_count rw) = pcnt (counted Rd) ts \<and> unat (rw_pending_writer_count rw) = pcnt (counted Wr) ts \<and>
     (\<forall>s. 0 < pcnt (clearing s) ts \<longrightarrow> pcnt (counted s) ts = 0)"

definition lock_inv :: "rwlock_internal \<Rightarrow> rw_thread list \<Rightarrow> bool" where
  "lock_inv rw ts \<longleftrightarrow> (\<forall>i < length ts. crit (th_pc (ts ! i)) \<longleftrightarrow> rw_pending_lock rw = Some i) \<and>
     (\<forall>i. rw_pending_lock rw = Some i \<longrightarrow> i < length ts)"

definition tid_inv :: "rwlock_internal \<Rightarrow> rw_thread list \<Rightarrow> bool" where
  "tid_inv rw ts \<longleftrightarrow> (\<forall>i < length ts. tid_set (ts ! i) \<longleftrightarrow> rw_writer_tid rw = i + 1) \<and> rw_writer_tid rw \<le> length ts \<and>
     (\<forall>i < length ts. holds_ok (ts ! i))"

definition rw_inv :: "rwlock_internal \<Rightarrow> rw_thread list \<Rightarrow> bool" where
  "rw_inv rw ts \<longleftrightarrow> length ts < 2 ^ 32 \<and> state_inv rw ts \<and> count_inv rw ts \<and> lock_inv rw ts \<and> tid_inv rw ts"

lemma init_inv: "n < 2 ^ 32 \<Longrightarrow> rw_inv (sys_lock (init_sys wp n)) (sys_threads (init_sys wp n))"
proof -
  assume n: "n < 2 ^ 32"
  have zero: "cnt P (replicate n idle_thread) = 0" if "\<not> P idle_thread" for P
    using that by (induction n) auto
  have reads: "reads (replicate n idle_thread) = 0"
    by (simp add: reads_def idle_thread_def sum_list_replicate)
  show ?thesis
    using n zero by (simp add: rw_inv_def state_inv_def count_inv_def lock_inv_def tid_inv_def init_sys_def zero_rwlock_def
        writers_def reads enc_def tid_set_def holds_ok_def idle_thread_def [symmetric])
      (simp add: idle_thread_def)
qed

end
