(* ===== verification/Rwlock_Moves.thy ===== *)
theory Rwlock_Moves
  imports Rwlock_Inv
begin

text \<open>
  The moves of a thread of a read-write lock, the reader and the writer slow path taken together: the
  step function of the model read as a relation, one rule per program point and outcome.
\<close>

definition pend_flag :: "side \<Rightarrow> u32" where
  "pend_flag s = (case s of Rd \<Rightarrow> STATE_HAVE_PENDING_READERS_FLAG | Wr \<Rightarrow> STATE_HAVE_PENDING_WRITERS_FLAG)"

definition pend_count :: "side \<Rightarrow> rwlock_internal \<Rightarrow> u32" where
  "pend_count s rw = (case s of Rd \<Rightarrow> rw_pending_reader_count rw | Wr \<Rightarrow> rw_pending_writer_count rw)"

definition set_pend_count :: "side \<Rightarrow> u32 \<Rightarrow> rwlock_internal \<Rightarrow> rwlock_internal" where
  "set_pend_count s c rw = (case s of Rd \<Rightarrow> rw\<lparr>rw_pending_reader_count := c\<rparr> | Wr \<Rightarrow> rw\<lparr>rw_pending_writer_count := c\<rparr>)"

definition pend_serial :: "side \<Rightarrow> rwlock_internal \<Rightarrow> u32" where
  "pend_serial s rw = (case s of Rd \<Rightarrow> rw_pending_reader_wakeup_serial rw | Wr \<Rightarrow> rw_pending_writer_wakeup_serial rw)"

definition set_pend_serial :: "side \<Rightarrow> u32 \<Rightarrow> rwlock_internal \<Rightarrow> rwlock_internal" where
  "set_pend_serial s c rw =
     (case s of Rd \<Rightarrow> rw\<lparr>rw_pending_reader_wakeup_serial := c\<rparr> | Wr \<Rightarrow> rw\<lparr>rw_pending_writer_wakeup_serial := c\<rparr>)"

lemma set_pend_simps [simp]:
  "rw_state (set_pend_count s c rw) = rw_state rw" "rw_state (set_pend_serial s c rw) = rw_state rw"
  "rw_pending_lock (set_pend_count s c rw) = rw_pending_lock rw" "rw_pending_lock (set_pend_serial s c rw) = rw_pending_lock rw"
  "rw_writer_nonrecursive_preferred (set_pend_count s c rw) = rw_writer_nonrecursive_preferred rw"
  "rw_writer_nonrecursive_preferred (set_pend_serial s c rw) = rw_writer_nonrecursive_preferred rw"
  "rw_writer_tid (set_pend_count s c rw) = rw_writer_tid rw" "rw_writer_tid (set_pend_serial s c rw) = rw_writer_tid rw"
  "pend_count s (set_pend_serial s' c rw) = pend_count s rw" "pend_serial s (set_pend_count s' c rw) = pend_serial s rw"
  "pend_count s (set_pend_count s' c rw) = (if s = s' then c else pend_count s rw)"
  "pend_serial s (set_pend_serial s' c rw) = (if s = s' then c else pend_serial s rw)"
  by (cases s; cases s'; simp add: set_pend_count_def set_pend_serial_def pend_count_def pend_serial_def)+

lemma pend_upd_simps [simp]:
  "pend_serial s (rw\<lparr>rw_state := x\<rparr>) = pend_serial s rw" "pend_serial s (rw\<lparr>rw_pending_lock := l\<rparr>) = pend_serial s rw"
  "pend_serial s (rw\<lparr>rw_writer_tid := y\<rparr>) = pend_serial s rw" "pend_count s (rw\<lparr>rw_state := x\<rparr>) = pend_count s rw"
  "pend_count s (rw\<lparr>rw_pending_lock := l\<rparr>) = pend_count s rw" "pend_count s (rw\<lparr>rw_writer_tid := y\<rparr>) = pend_count s rw"
  by (cases s; simp add: pend_serial_def pend_count_def)+

definition can_acquire :: "side \<Rightarrow> bool \<Rightarrow> u32 \<Rightarrow> bool" where
  "can_acquire s wp st = (case s of Rd \<Rightarrow> can_acquire_read_lock st wp | Wr \<Rightarrow> can_acquire_write_lock st)"

inductive move :: "nat \<Rightarrow> rwlock_internal \<Rightarrow> rw_thread \<Rightarrow> rwlock_internal \<Rightarrow> rw_thread \<Rightarrow> bool" for i rw t where
  call_lock: "th_pc t = Idle \<Longrightarrow> pc \<in> {TryLoad s TryOnly, TryLoad s FastPath} \<Longrightarrow> move i rw t rw (t\<lparr>th_pc := pc, th_timeout := None\<rparr>)"
| call_timed: "th_pc t = Idle \<Longrightarrow> move i rw t rw (t\<lparr>th_pc := CheckTid s, th_timeout := x\<rparr>)"
| call_unlock: "th_pc t = Idle \<Longrightarrow> th_reads t \<noteq> 0 \<or> th_writes t \<Longrightarrow> move i rw t rw (t\<lparr>th_pc := UnlockLoad, th_timeout := None\<rparr>)"
| try_load: "th_pc t = TryLoad s c \<Longrightarrow> move i rw t rw (t\<lparr>th_pc := TryLoop s c (rw_state rw)\<rparr>)"
| try_again: "th_pc t = TryLoop s c old \<Longrightarrow> move i rw t rw (t\<lparr>th_pc := TryLoop s c (rw_state rw)\<rparr>)"
| try_return: "th_pc t = TryLoop s c old \<Longrightarrow> c = TryOnly \<or> s = Rd \<and> \<not> state_owned_by_readers (old + STATE_READER_COUNT_CHANGE_STEP) \<Longrightarrow>
    r \<noteq> 0 \<Longrightarrow> move i rw t rw (t\<lparr>th_pc := Idle, th_result := r\<rparr>)"
| try_fast: "th_pc t = TryLoop s FastPath old \<Longrightarrow> move i rw t rw (t\<lparr>th_pc := CheckTid s\<rparr>)"
| try_slow: "th_pc t = TryLoop s SlowPath old \<Longrightarrow> move i rw t rw (t\<lparr>th_pc := CheckTimeout s\<rparr>)"
| acquire_read: "th_pc t = TryLoop Rd c (rw_state rw) \<Longrightarrow> can_acquire Rd (rw_writer_nonrecursive_preferred rw) (rw_state rw) \<Longrightarrow>
    state_owned_by_readers (rw_state rw + STATE_READER_COUNT_CHANGE_STEP) \<Longrightarrow>
    move i rw t (rw\<lparr>rw_state := rw_state rw + STATE_READER_COUNT_CHANGE_STEP\<rparr>)
      (t\<lparr>th_reads := th_reads t + 1, th_pc := Idle, th_result := 0\<rparr>)"
| acquire_write: "th_pc t = TryLoop Wr c (rw_state rw) \<Longrightarrow> can_acquire Wr (rw_writer_nonrecursive_preferred rw) (rw_state rw) \<Longrightarrow>
    move i rw t (rw\<lparr>rw_state := state_add_writer_flag (rw_state rw)\<rparr>) (t\<lparr>th_writes := True, th_pc := StoreTid\<rparr>)"
| store_tid: "th_pc t = StoreTid \<Longrightarrow> move i rw t (rw\<lparr>rw_writer_tid := i + 1\<rparr>) (t\<lparr>th_pc := Idle, th_result := 0\<rparr>)"
| deadlock: "th_pc t = CheckTid s \<Longrightarrow> rw_writer_tid rw = i + 1 \<Longrightarrow> move i rw t rw (t\<lparr>th_pc := Idle, th_result := EDEADLK\<rparr>)"
| enter_loop: "th_pc t = CheckTid s \<Longrightarrow> move i rw t rw (t\<lparr>th_pc := TryLoad s SlowPath\<rparr>)"
| bad_timeout: "th_pc t = CheckTimeout s \<Longrightarrow> th_timeout t \<noteq> None \<Longrightarrow> r \<noteq> 0 \<Longrightarrow> move i rw t rw (t\<lparr>th_pc := Idle, th_result := r\<rparr>)"
| good_timeout: "th_pc t = CheckTimeout s \<Longrightarrow> move i rw t rw (t\<lparr>th_pc := Reload s\<rparr>)"
| reload_free: "th_pc t = Reload s \<Longrightarrow> move i rw t rw (t\<lparr>th_pc := TryLoad s SlowPath\<rparr>)"
| reload_taken: "th_pc t = Reload s \<Longrightarrow> move i rw t rw (t\<lparr>th_pc := PendLock s\<rparr>)"
| pend_lock: "th_pc t = PendLock s \<Longrightarrow> rw_pending_lock rw = None \<Longrightarrow>
    move i rw t (rw\<lparr>rw_pending_lock := Some i\<rparr>) (t\<lparr>th_pc := PendCount s\<rparr>)"
| pend_inc: "th_pc t = PendCount s \<Longrightarrow> move i rw t (set_pend_count s (pend_count s rw + 1) rw) (t\<lparr>th_pc := PendFlag s\<rparr>)"
| pend_or: "th_pc t = PendFlag s \<Longrightarrow>
    move i rw t (rw\<lparr>rw_state := rw_state rw OR pend_flag s\<rparr>) (t\<lparr>th_pc := PendSerial s (rw_state rw)\<rparr>)"
| pend_read: "th_pc t = PendSerial s old \<Longrightarrow>
    move i rw t (rw\<lparr>rw_pending_lock := None\<rparr>) (t\<lparr>th_pc := Wait s old (pend_serial s rw)\<rparr>)"
| no_wait: "th_pc t = Wait s old ser \<Longrightarrow> can_acquire s (rw_writer_nonrecursive_preferred rw) old \<Longrightarrow>
    move i rw t rw (t\<lparr>th_pc := WakeLock s 0\<rparr>)"
| wait_changed: "th_pc t = Wait s old ser \<Longrightarrow> move i rw t rw (t\<lparr>th_pc := WakeLock s (- EAGAIN)\<rparr>)"
| wait_timeout: "th_pc t = Wait s old ser \<or> th_pc t = Asleep s \<Longrightarrow> th_timeout t \<noteq> None \<Longrightarrow>
    move i rw t rw (t\<lparr>th_pc := WakeLock s (- ETIMEDOUT)\<rparr>)"
| sleep: "th_pc t = Wait s old ser \<Longrightarrow> \<not> can_acquire s (rw_writer_nonrecursive_preferred rw) old \<Longrightarrow> pend_serial s rw = ser \<Longrightarrow>
    move i rw t rw (t\<lparr>th_pc := Asleep s\<rparr>)"
| interrupted: "th_pc t = Asleep s \<Longrightarrow> move i rw t rw (t\<lparr>th_pc := WakeLock s (- EINTR)\<rparr>)"
| wake_lock: "th_pc t = WakeLock s x \<Longrightarrow> rw_pending_lock rw = None \<Longrightarrow>
    move i rw t (rw\<lparr>rw_pending_lock := Some i\<rparr>) (t\<lparr>th_pc := WakeCount s x\<rparr>)"
| wake_dec: "th_pc t = WakeCount s x \<Longrightarrow> pend_count s rw - 1 \<noteq> 0 \<Longrightarrow>
    move i rw t (set_pend_count s (pend_count s rw - 1) rw) (t\<lparr>th_pc := WakeUnlock s x\<rparr>)"
| wake_last: "th_pc t = WakeCount s x \<Longrightarrow> pend_count s rw - 1 = 0 \<Longrightarrow>
    move i rw t (set_pend_count s 0 rw) (t\<lparr>th_pc := WakeFlag s x\<rparr>)"
| wake_and: "th_pc t = WakeFlag s x \<Longrightarrow>
    move i rw t (rw\<lparr>rw_state := rw_state rw AND NOT (pend_flag s)\<rparr>) (t\<lparr>th_pc := WakeUnlock s x\<rparr>)"
| wake_return: "th_pc t = WakeUnlock s (- ETIMEDOUT) \<Longrightarrow>
    move i rw t (rw\<lparr>rw_pending_lock := None\<rparr>) (t\<lparr>th_pc := Idle, th_result := ETIMEDOUT\<rparr>)"
| wake_retry: "th_pc t = WakeUnlock s x \<Longrightarrow> x \<noteq> - ETIMEDOUT \<Longrightarrow>
    move i rw t (rw\<lparr>rw_pending_lock := None\<rparr>) (t\<lparr>th_pc := TryLoad s SlowPath\<rparr>)"
| unlock_writer: "th_pc t = UnlockLoad \<Longrightarrow> state_owned_by_writer (rw_state rw) \<Longrightarrow> move i rw t rw (t\<lparr>th_pc := UnlockCheckTid\<rparr>)"
| unlock_reader: "th_pc t = UnlockLoad \<Longrightarrow> \<not> state_owned_by_writer (rw_state rw) \<Longrightarrow> state_owned_by_readers (rw_state rw) \<Longrightarrow>
    move i rw t rw (t\<lparr>th_pc := UnlockRead\<rparr>)"
| unlock_free: "th_pc t = UnlockLoad \<Longrightarrow> \<not> state_owned_by_writer (rw_state rw) \<Longrightarrow> \<not> state_owned_by_readers (rw_state rw) \<Longrightarrow>
    move i rw t rw (t\<lparr>th_pc := Idle, th_result := EPERM\<rparr>)"
| unlock_foreign: "th_pc t = UnlockCheckTid \<Longrightarrow> rw_writer_tid rw \<noteq> i + 1 \<Longrightarrow> move i rw t rw (t\<lparr>th_pc := Idle, th_result := EPERM\<rparr>)"
| unlock_own: "th_pc t = UnlockCheckTid \<Longrightarrow> rw_writer_tid rw = i + 1 \<Longrightarrow> move i rw t rw (t\<lparr>th_pc := UnlockClearTid\<rparr>)"
| clear_tid: "th_pc t = UnlockClearTid \<Longrightarrow> move i rw t (rw\<lparr>rw_writer_tid := 0\<rparr>) (t\<lparr>th_pc := UnlockWrite\<rparr>)"
| release_write: "th_pc t = UnlockWrite \<Longrightarrow> \<not> state_have_pending_readers_or_writers (rw_state rw) \<Longrightarrow>
    move i rw t (rw\<lparr>rw_state := rw_state rw AND NOT STATE_OWNED_BY_WRITER_FLAG\<rparr>)
      (t\<lparr>th_writes := False, th_pc := Idle, th_result := 0\<rparr>)"
| release_write_notify: "th_pc t = UnlockWrite \<Longrightarrow> state_have_pending_readers_or_writers (rw_state rw) \<Longrightarrow>
    move i rw t (rw\<lparr>rw_state := rw_state rw AND NOT STATE_OWNED_BY_WRITER_FLAG\<rparr>) (t\<lparr>th_writes := False, th_pc := NotifyLock\<rparr>)"
| release_read: "th_pc t = UnlockRead \<Longrightarrow>
    \<not> state_is_last_reader (rw_state rw) \<or> \<not> state_have_pending_readers_or_writers (rw_state rw) \<Longrightarrow>
    move i rw t (rw\<lparr>rw_state := rw_state rw - STATE_READER_COUNT_CHANGE_STEP\<rparr>)
      (t\<lparr>th_reads := th_reads t - 1, th_pc := Idle, th_result := 0\<rparr>)"
| release_read_notify: "th_pc t = UnlockRead \<Longrightarrow>
    state_is_last_reader (rw_state rw) \<Longrightarrow> state_have_pending_readers_or_writers (rw_state rw) \<Longrightarrow>
    move i rw t (rw\<lparr>rw_state := rw_state rw - STATE_READER_COUNT_CHANGE_STEP\<rparr>)
      (t\<lparr>th_reads := th_reads t - 1, th_pc := NotifyLock\<rparr>)"
| notify_lock: "th_pc t = NotifyLock \<Longrightarrow> rw_pending_lock rw = None \<Longrightarrow>
    move i rw t (rw\<lparr>rw_pending_lock := Some i\<rparr>) (t\<lparr>th_pc := NotifyCount\<rparr>)"
| notify_readers: "th_pc t = NotifyCount \<Longrightarrow> pend_count Rd rw \<noteq> 0 \<Longrightarrow> pend_count Wr rw = 0 \<Longrightarrow>
    move i rw t ((set_pend_serial Rd (pend_serial Rd rw + 1) rw)\<lparr>rw_pending_lock := None\<rparr>) (t\<lparr>th_pc := NotifyWake Rd\<rparr>)"
| notify_writer: "th_pc t = NotifyCount \<Longrightarrow> pend_count Wr rw \<noteq> 0 \<Longrightarrow>
    move i rw t ((set_pend_serial Wr (pend_serial Wr rw + 1) rw)\<lparr>rw_pending_lock := None\<rparr>) (t\<lparr>th_pc := NotifyWake Wr\<rparr>)"
| notify_none: "th_pc t = NotifyCount \<Longrightarrow> pend_count Rd rw = 0 \<Longrightarrow> pend_count Wr rw = 0 \<Longrightarrow>
    move i rw t (rw\<lparr>rw_pending_lock := None\<rparr>) (t\<lparr>th_pc := Idle, th_result := 0\<rparr>)"

lemmas step_defs = thread_step_def futex_wait_step_def asleep_step_def start_call_def returns_def
lemmas side_defs = pend_flag_def pend_count_def set_pend_count_def pend_serial_def set_pend_serial_def can_acquire_def

lemma tryrdlock_move: "th_pc t = TryLoop Rd c old \<Longrightarrow> tryrdlock_loop ch c old rw t = (rw', t') \<Longrightarrow> move i rw t rw' t'"
  using acquire_read [where t = t and c = c and rw = rw and i = i] try_return [where t = t and s = Rd and c = c and old = old and r = EAGAIN and rw = rw and i = i] try_return [where t = t and s = Rd and c = c and old = old and r = EBUSY and rw = rw and i = i]
    try_fast [where t = t and s = Rd and old = old and rw = rw and i = i] try_slow [where t = t and s = Rd and old = old and rw = rw and i = i] try_again [where t = t and s = Rd and c = c and old = old and rw = rw and i = i]
  by (cases c) (auto simp: tryrdlock_loop_def tryrdlock_returns_def returns_def Let_def can_acquire_def errno_defs split: if_splits)

lemma trywrlock_move: "th_pc t = TryLoop Wr c old \<Longrightarrow> trywrlock_loop ch c old rw t = (rw', t') \<Longrightarrow> move i rw t rw' t'"
  using acquire_write [where t = t and c = c and rw = rw and i = i] try_return [where t = t and s = Wr and c = c and old = old and r = EBUSY and rw = rw and i = i]
    try_fast [where t = t and s = Wr and old = old and rw = rw and i = i] try_slow [where t = t and s = Wr and old = old and rw = rw and i = i] try_again [where t = t and s = Wr and c = c and old = old and rw = rw and i = i]
  by (cases c) (auto simp: trywrlock_loop_def trywrlock_returns_def returns_def can_acquire_def errno_defs split: if_splits)

lemma unlock_move:
  assumes "unlock_step i (th_pc t) rw t = Some (rw', t')"
  shows "move i rw t rw' t'"
proof (cases "th_pc t = NotifyCount")
  case True
  then show ?thesis
    using assms notify_readers [OF True, where rw = rw and i = i] notify_writer [OF True, where rw = rw and i = i]
      notify_none [OF True, where rw = rw and i = i]
    by (auto simp: returns_def side_defs split: if_splits)
next
  case False
  then show ?thesis
    using assms by (cases "th_pc t") (auto simp: returns_def Let_def intro: move.intros release_read [simplified] release_read_notify [simplified] split: if_splits)
qed

lemma timedrdlock_move:
  assumes "timedrdlock_step i ch (th_pc t) rw t = Some (rw', t')" "side_of (th_pc t) = Some Rd"
  shows "move i rw t rw' t'"
proof (cases "th_pc t")
  case (WakeCount s x)
  then show ?thesis
    using assms wake_dec [where t = t and s = Rd and x = x and rw = rw and i = i] wake_last [where t = t and s = Rd and x = x and rw = rw and i = i]
    by (auto simp: Let_def side_defs split: if_splits)
next
  case (PendCount s)
  then show ?thesis
    using assms pend_inc [where t = t and s = Rd and rw = rw and i = i] by (simp add: side_defs)
next
  case (PendFlag s)
  then show ?thesis
    using assms pend_or [where t = t and s = Rd and rw = rw and i = i] by (simp add: side_defs)
next
  case (PendSerial s old)
  then show ?thesis
    using assms pend_read [where t = t and s = Rd and rw = rw and i = i] by (simp add: side_defs)
next
  case (WakeFlag s x)
  then show ?thesis
    using assms wake_and [where t = t and s = Rd and rw = rw and i = i] by (simp add: side_defs)
next
  case (Wait s old ser)
  then show ?thesis
    using assms no_wait [where t = t and s = Rd and old = old and ser = ser and rw = rw and i = i]
      wait_changed [where t = t and s = Rd and old = old and ser = ser and rw = rw and i = i]
      wait_timeout [where t = t and s = Rd and old = old and ser = ser and rw = rw and i = i]
      sleep [where t = t and s = Rd and old = old and ser = ser and rw = rw and i = i]
    by (auto simp: futex_wait_step_def side_defs split: if_splits)
next
  case (CheckTimeout s)
  then show ?thesis
    using assms bad_timeout [where t = t and s = Rd and rw = rw and i = i] good_timeout [where t = t and s = Rd and rw = rw and i = i]
    by (auto simp: check_timespec_def returns_def split: option.splits if_splits)
qed (use assms in \<open>auto simp: returns_def asleep_step_def intro: move.intros split: if_splits choice.splits\<close>)

lemma timedwrlock_move:
  assumes "timedwrlock_step i ch (th_pc t) rw t = Some (rw', t')" "side_of (th_pc t) = Some Wr"
  shows "move i rw t rw' t'"
proof (cases "th_pc t")
  case (WakeCount s x)
  then show ?thesis
    using assms wake_dec [where t = t and s = Wr and x = x and rw = rw and i = i] wake_last [where t = t and s = Wr and x = x and rw = rw and i = i]
    by (auto simp: Let_def side_defs split: if_splits)
next
  case (PendCount s)
  then show ?thesis
    using assms pend_inc [where t = t and s = Wr and rw = rw and i = i] by (simp add: side_defs)
next
  case (PendFlag s)
  then show ?thesis
    using assms pend_or [where t = t and s = Wr and rw = rw and i = i] by (simp add: side_defs)
next
  case (PendSerial s old)
  then show ?thesis
    using assms pend_read [where t = t and s = Wr and rw = rw and i = i] by (simp add: side_defs)
next
  case (WakeFlag s x)
  then show ?thesis
    using assms wake_and [where t = t and s = Wr and rw = rw and i = i] by (simp add: side_defs)
next
  case (Wait s old ser)
  then show ?thesis
    using assms no_wait [where t = t and s = Wr and old = old and ser = ser and rw = rw and i = i]
      wait_changed [where t = t and s = Wr and old = old and ser = ser and rw = rw and i = i]
      wait_timeout [where t = t and s = Wr and old = old and ser = ser and rw = rw and i = i]
      sleep [where t = t and s = Wr and old = old and ser = ser and rw = rw and i = i]
    by (auto simp: futex_wait_step_def side_defs split: if_splits)
next
  case (CheckTimeout s)
  then show ?thesis
    using assms bad_timeout [where t = t and s = Wr and rw = rw and i = i] good_timeout [where t = t and s = Wr and rw = rw and i = i]
    by (auto simp: check_timespec_def returns_def split: option.splits if_splits)
qed (use assms in \<open>auto simp: returns_def asleep_step_def intro: move.intros split: if_splits choice.splits\<close>)

lemma call_move:
  assumes "start_call c t = Some t'" "th_pc t = Idle"
  shows "move i rw t rw t'"
  using assms by (auto simp: start_call_def intro: move.intros split: rw_call.splits if_splits)

theorem thread_step_move:
  assumes "thread_step i ch rw t = Some (rw', t')"
  shows "move i rw t rw' t'"
proof (cases "side_of (th_pc t)")
  case (Some s)
  then show ?thesis
    using assms timedrdlock_move timedwrlock_move by (cases s) (auto simp: thread_step_def)
next
  case None
  then show ?thesis
  proof (cases "th_pc t")
    case Idle
    then show ?thesis
      using assms call_move by (auto simp: thread_step_def split: choice.splits)
  next
    case (TryLoad s c)
    then show ?thesis
      using assms by (auto simp: thread_step_def intro: move.intros)
  next
    case (TryLoop s c old)
    then show ?thesis
      using assms tryrdlock_move trywrlock_move by (cases s) (auto simp: thread_step_def)
  next
    case StoreTid
    then show ?thesis
      using assms store_tid [OF StoreTid, where rw = rw and i = i] by (simp add: thread_step_def returns_def)
  qed (rule unlock_move, use None assms in \<open>simp add: thread_step_def del: unlock_step.simps\<close>)+
qed

end
