(* ===== verification/Rwlock_Pres.thy ===== *)
theory Rwlock_Pres
  imports Rwlock_Moves
begin

text \<open>
  Every move of a thread keeps the invariant of the lock.
\<close>

lemma writers_split: "i < length ts \<Longrightarrow> writers (ts[i := t]) = of_bool (th_writes t) + writers (others i ts)"
  using cnt_split [of i "ts[i := t]" th_writes] by (simp add: writers_def)

lemma reads_split: "i < length ts \<Longrightarrow> reads (ts[i := t]) = th_reads t + reads (others i ts)"
  using sum_split [of i "ts[i := t]" th_reads] by (simp add: reads_def)

lemma pcnt_split: "i < length ts \<Longrightarrow> pcnt P (ts[i := t]) = of_bool (P (th_pc t)) + pcnt P (others i ts)"
  using cnt_split [of i "ts[i := t]" "\<lambda>t. P (th_pc t)"] by simp

lemmas inv_split = writers_split reads_split pcnt_split

section \<open>One thread and the others\<close>

definition state_at :: "rwlock_internal \<Rightarrow> rw_thread \<Rightarrow> rw_thread list \<Rightarrow> bool" where
  "state_at rw t os \<longleftrightarrow>
     rw_state rw = enc (th_writes t \<or> 0 < writers os) (th_reads t + reads os)
       (flagged Wr (th_pc t) \<or> 0 < pcnt (flagged Wr) os) (flagged Rd (th_pc t) \<or> 0 < pcnt (flagged Rd) os) \<and>
     th_reads t + reads os < 2 ^ 29 \<and>
     (th_writes t \<longrightarrow> writers os = 0) \<and> writers os \<le> 1 \<and> (th_writes t \<or> 0 < writers os \<longrightarrow> th_reads t = 0 \<and> reads os = 0)"

definition count_at :: "rwlock_internal \<Rightarrow> rw_thread \<Rightarrow> rw_thread list \<Rightarrow> bool" where
  "count_at rw t os \<longleftrightarrow>
     unat (rw_pending_reader_count rw) = of_bool (counted Rd (th_pc t)) + pcnt (counted Rd) os \<and>
     unat (rw_pending_writer_count rw) = of_bool (counted Wr (th_pc t)) + pcnt (counted Wr) os \<and>
     (\<forall>s. clearing s (th_pc t) \<or> 0 < pcnt (clearing s) os \<longrightarrow> \<not> counted s (th_pc t) \<and> pcnt (counted s) os = 0)"

lemma state_inv_at: "i < length ts \<Longrightarrow> state_inv rw (ts[i := t]) \<longleftrightarrow> state_at rw t (others i ts)"
  by (cases "th_writes t") (auto simp: state_inv_def state_at_def inv_split)

lemma count_inv_at: "i < length ts \<Longrightarrow> count_inv rw (ts[i := t]) \<longleftrightarrow> count_at rw t (others i ts)"
  by (auto simp: count_inv_def count_at_def inv_split)

lemma state_at_keep:
  "state_at rw t os \<Longrightarrow> rw_state rw' = rw_state rw \<Longrightarrow> th_reads t' = th_reads t \<Longrightarrow> th_writes t' = th_writes t \<Longrightarrow>
   flagged Wr (th_pc t') = flagged Wr (th_pc t) \<Longrightarrow> flagged Rd (th_pc t') = flagged Rd (th_pc t) \<Longrightarrow> state_at rw' t' os"
  by (simp add: state_at_def)

lemma state_at_enc:
  assumes "state_at rw t os"
  shows "rw_state rw = enc (th_writes t \<or> 0 < writers os) (th_reads t + reads os)
       (flagged Wr (th_pc t) \<or> 0 < pcnt (flagged Wr) os) (flagged Rd (th_pc t) \<or> 0 < pcnt (flagged Rd) os)"
    "th_reads t + reads os < 2 ^ 29"
  using assms unfolding state_at_def by blast+

lemma state_at_tests:
  assumes "state_at rw t os"
  shows "state_owned_by_writer (rw_state rw) \<longleftrightarrow> th_writes t \<or> 0 < writers os"
    "state_owned_by_readers (rw_state rw) \<longleftrightarrow> 0 < th_reads t + reads os"
    "state_owned_by_readers_or_writer (rw_state rw) \<longleftrightarrow> th_writes t \<or> 0 < writers os \<or> 0 < th_reads t + reads os"
proof -
  note e = state_at_enc [OF assms]
  show "state_owned_by_writer (rw_state rw) \<longleftrightarrow> th_writes t \<or> 0 < writers os"
    "state_owned_by_readers_or_writer (rw_state rw) \<longleftrightarrow> th_writes t \<or> 0 < writers os \<or> 0 < th_reads t + reads os"
    unfolding e(1) using enc_tests [OF e(2)] by simp_all
  show "state_owned_by_readers (rw_state rw) \<longleftrightarrow> 0 < th_reads t + reads os"
    unfolding e(1) using enc_tests [OF e(2)] assms by (auto simp: state_at_def)
qed

lemma no_crit:
  assumes "pcnt crit os = 0"
  shows "pcnt (counted s) os = pcnt (flagged s) os" "pcnt (clearing s) os = 0"
proof -
  have nc: "\<not> crit (th_pc t)" if "t \<in> set os" for t
    using assms that cnt_pos [of "\<lambda>t. crit (th_pc t)" os] by auto
  show "pcnt (counted s) os = pcnt (flagged s) os"
  proof (rule cnt_cong)
    show "counted s (th_pc t) = flagged s (th_pc t)" if "t \<in> set os" for t
      using nc [OF that] by (cases "th_pc t") auto
  qed
  have "\<not> clearing s (th_pc t)" if "t \<in> set os" for t
    using nc [OF that] by (cases "th_pc t") auto
  then show "pcnt (clearing s) os = 0"
    using cnt_pos [of "\<lambda>t. clearing s (th_pc t)" os] by auto
qed

lemma state_at_step:
  assumes "state_at rw t os" "count_at rw t os" "holds_ok t" "move i rw t rw' t'"
    and nc: "crit (th_pc t) \<Longrightarrow> pcnt crit os = 0"
  shows "state_at rw' t' os"
  using assms(4)
proof (cases rule: move.cases)
  case (acquire_read c)
  note e = state_at_enc [OF assms(1)]
  let ?bw = "flagged Wr (th_pc t) \<or> 0 < pcnt (flagged Wr) os" and ?br = "flagged Rd (th_pc t) \<or> 0 < pcnt (flagged Rd) os"
  have w: "\<not> th_writes t" "writers os = 0"
    using acquire_read state_at_tests(1) [OF assms(1)] by (auto simp: can_acquire_def can_acquire_read_lock_def Let_def)
  have old: "rw_state rw = enc False (th_reads t + reads os) ?bw ?br"
    using e(1) w by simp
  have r: "th_reads t + reads os + 1 < 2 ^ 29"
  proof (rule ccontr)
    assume "\<not> ?thesis"
    then have full: "th_reads t + reads os + 1 = 2 ^ 29"
      using e(2) by linarith
    have "\<not> state_owned_by_readers (enc False (th_reads t + reads os) ?bw ?br + STATE_READER_COUNT_CHANGE_STEP)"
      using enc_step(3) [OF e(2) _ full] by blast
    then show False
      using acquire_read unfolding old by blast
  qed
  have "rw_state rw + STATE_READER_COUNT_CHANGE_STEP = enc False (th_reads t + reads os + 1) ?bw ?br"
    unfolding old by (rule enc_step(1) [OF e(2) r])
  then show ?thesis
    using acquire_read w r unfolding state_at_def by simp
next
  case (acquire_write c)
  note e = state_at_enc [OF assms(1)]
  have w: "\<not> th_writes t" "writers os = 0" "th_reads t + reads os = 0"
    using acquire_write state_at_tests(3) [OF assms(1)] by (auto simp: can_acquire_def can_acquire_write_lock_def)
  have "state_add_writer_flag (rw_state rw) = enc True (th_reads t + reads os) (flagged Wr (th_pc t) \<or> 0 < pcnt (flagged Wr) os)
      (flagged Rd (th_pc t) \<or> 0 < pcnt (flagged Rd) os)"
    unfolding e(1) by (rule enc_flags(5) [OF e(2)])
  then show ?thesis
    using acquire_write w e(2) unfolding state_at_def by simp
next
  case (pend_or s)
  note e = state_at_enc [OF assms(1)]
  show ?thesis
    using assms(1) pend_or e(1) enc_flags(1,2) [OF e(2)] unfolding state_at_def by (cases s) (auto simp: pend_flag_def)
next
  case (wake_dec s x)
  have c: "unat (pend_count s rw) = 1 + pcnt (flagged s) os"
    using assms(2) no_crit(1) [of os s] nc wake_dec by (cases s) (simp_all add: count_at_def pend_count_def)
  have "pcnt (flagged s) os \<noteq> 0"
  proof
    assume "pcnt (flagged s) os = 0"
    then have "pend_count s rw = 1"
      using c word_unat_eq_iff [of "pend_count s rw" 1] by simp
    then show False
      using wake_dec by simp
  qed
  then show ?thesis
    using assms(1) wake_dec unfolding state_at_def by (cases s) (auto simp: set_pend_count_def)
next
  case (wake_last s x)
  then show ?thesis
    using assms(1) unfolding state_at_def by (cases s) (auto simp: set_pend_count_def)
next
  case (wake_and s x)
  note e = state_at_enc [OF assms(1)]
  have "pcnt (flagged s) os = 0"
    using assms(2) no_crit(1) [of os s] nc wake_and by (simp add: count_at_def)
  then show ?thesis
    using assms(1) wake_and e(1) enc_flags(3,4) [OF e(2)] unfolding state_at_def by (cases s) (auto simp: pend_flag_def)
next
  case release_write
  note e = state_at_enc [OF assms(1)]
  show ?thesis
    using assms(1,3) release_write e(1) enc_flags(6) [OF e(2)] unfolding state_at_def holds_ok_def by simp
next
  case release_write_notify
  note e = state_at_enc [OF assms(1)]
  show ?thesis
    using assms(1,3) release_write_notify e(1) enc_flags(6) [OF e(2)] unfolding state_at_def holds_ok_def by simp
next
  case release_read
  note e = state_at_enc [OF assms(1)]
  have r: "th_reads t \<noteq> 0" "th_reads t - 1 + reads os = th_reads t + reads os - 1"
    using assms(3) release_read by (simp_all add: holds_ok_def)
  show ?thesis
    using assms(1) release_read e(1) enc_step(2) [OF e(2)] r unfolding state_at_def by (simp add: less_imp_diff_less)
next
  case release_read_notify
  note e = state_at_enc [OF assms(1)]
  have r: "th_reads t \<noteq> 0" "th_reads t - 1 + reads os = th_reads t + reads os - 1"
    using assms(3) release_read_notify by (simp_all add: holds_ok_def)
  show ?thesis
    using assms(1) release_read_notify e(1) enc_step(2) [OF e(2)] r unfolding state_at_def by (simp add: less_imp_diff_less)
next
  case (pend_inc s)
  then show ?thesis
    by (intro state_at_keep [OF assms(1)]) simp_all
next
  case notify_readers
  then show ?thesis
    by (intro state_at_keep [OF assms(1)]) simp_all
next
  case notify_writer
  then show ?thesis
    by (intro state_at_keep [OF assms(1)]) simp_all
next
  case (wait_timeout s old ser)
  then show ?thesis
    by (intro state_at_keep [OF assms(1)]) auto
next
  case (call_lock pc s)
  then show ?thesis
    by (intro state_at_keep [OF assms(1)]) auto
qed (rule state_at_keep [OF assms(1)]; simp)+

section \<open>The pending counts\<close>

lemma unat_pred: "0 < unat c \<Longrightarrow> unat (c - 1 :: u32) = unat c - 1"
  by (metis less_numeral_extra(3) unat_0 unat_minus_one)

lemma unat_succ: "unat c + 1 < 2 ^ 32 \<Longrightarrow> unat (c + 1 :: u32) = unat c + 1"
  using unat_add_lem [of c 1] by simp

lemma count_at_keep:
  "count_at rw t os \<Longrightarrow> rw_pending_reader_count rw' = rw_pending_reader_count rw \<Longrightarrow>
   rw_pending_writer_count rw' = rw_pending_writer_count rw \<Longrightarrow>
   (\<And>s. counted s (th_pc t') = counted s (th_pc t)) \<Longrightarrow> (\<And>s. clearing s (th_pc t') = clearing s (th_pc t)) \<Longrightarrow> count_at rw' t' os"
  by (simp add: count_at_def)

lemma count_at_step:
  assumes "count_at rw t os" "move i rw t rw' t'" "length os + 1 < 2 ^ 32"
    and nc: "crit (th_pc t) \<Longrightarrow> pcnt crit os = 0"
  shows "count_at rw' t' os"
  using assms(2)
proof (cases rule: move.cases)
  case (pend_inc s)
  have "pcnt (clearing s) os = 0" for s
    using no_crit(2) nc pend_inc by simp
  moreover have "unat (pend_count s rw + 1) = unat (pend_count s rw) + 1"
    using assms(1,3) cnt_le [of "\<lambda>t. counted s (th_pc t)" os] pend_inc
    by (intro unat_succ) (cases s; simp add: count_at_def pend_count_def)
  ultimately show ?thesis
    using pend_inc assms(1) by (cases s) (auto simp: count_at_def pend_count_def set_pend_count_def)
next
  case (wake_dec s x)
  have "pcnt (clearing s) os = 0" for s
    using no_crit(2) nc wake_dec by simp
  moreover have "unat (pend_count s rw) = 1 + pcnt (counted s) os"
    using assms(1) wake_dec by (cases s) (simp_all add: count_at_def pend_count_def)
  ultimately show ?thesis
    using wake_dec assms(1) unat_pred [of "pend_count s rw"]
    by (cases s) (auto simp: count_at_def pend_count_def set_pend_count_def)
next
  case (wake_last s x)
  have "pcnt (clearing s) os = 0" for s
    using no_crit(2) nc wake_last by simp
  moreover have "unat (pend_count s rw) = 1 + pcnt (counted s) os"
    using assms(1) wake_last by (cases s) (simp_all add: count_at_def pend_count_def)
  moreover have "unat (pend_count s rw - 1) = 0"
    using wake_last by simp
  ultimately show ?thesis
    using wake_last assms(1) unat_pred [of "pend_count s rw"]
    by (cases s) (auto simp: count_at_def pend_count_def set_pend_count_def)
next
  case (wake_and s x)
  then show ?thesis
    using assms(1) by (auto simp: count_at_def)
next
  case notify_readers
  then show ?thesis
    by (intro count_at_keep [OF assms(1)]) (simp_all add: set_pend_serial_def)
next
  case notify_writer
  then show ?thesis
    by (intro count_at_keep [OF assms(1)]) (simp_all add: set_pend_serial_def)
next
  case (wait_timeout s old ser)
  then show ?thesis
    by (intro count_at_keep [OF assms(1)]) auto
next
  case (call_lock pc s)
  then show ?thesis
    by (intro count_at_keep [OF assms(1)]) auto
qed (rule count_at_keep [OF assms(1)]; simp)+

section \<open>The pending lock\<close>

lemma lock_step:
  assumes "move i rw t rw' t'" "crit (th_pc t) \<longleftrightarrow> rw_pending_lock rw = Some i"
  shows "crit (th_pc t') \<longleftrightarrow> rw_pending_lock rw' = Some i"
    "j \<noteq> i \<Longrightarrow> rw_pending_lock rw' = Some j \<longleftrightarrow> rw_pending_lock rw = Some j"
proof -
  have "(crit (th_pc t') \<longleftrightarrow> rw_pending_lock rw' = Some i) \<and>
    (rw_pending_lock rw' = rw_pending_lock rw \<or> rw_pending_lock rw' = Some i \<and> rw_pending_lock rw = None \<or>
     rw_pending_lock rw' = None \<and> rw_pending_lock rw = Some i)"
    using assms by (cases rule: move.cases) auto
  then show "crit (th_pc t') \<longleftrightarrow> rw_pending_lock rw' = Some i"
    "j \<noteq> i \<Longrightarrow> rw_pending_lock rw' = Some j \<longleftrightarrow> rw_pending_lock rw = Some j"
    by auto
qed

lemma lock_inv_step:
  assumes "lock_inv rw ts" "i < length ts" "move i rw (ts ! i) rw' t'"
  shows "lock_inv rw' (ts[i := t'])"
proof -
  have i: "crit (th_pc (ts ! i)) \<longleftrightarrow> rw_pending_lock rw = Some i"
    using assms(1,2) by (simp add: lock_inv_def)
  show ?thesis
    using assms(1,2) lock_step(1) [OF assms(3) i] lock_step(2) [OF assms(3) i] unfolding lock_inv_def
    by (auto simp: nth_list_update split: if_splits) metis+
qed

lemma lock_others:
  assumes "lock_inv rw ts" "i < length ts" "crit (th_pc (ts ! i))"
  shows "pcnt crit (others i ts) = 0"
proof -
  have "\<not> crit (th_pc t)" if "t \<in> set (others i ts)" for t
    using assms that unfolding in_others [OF assms(2)] lock_inv_def by auto
  then show ?thesis
    using cnt_pos [of "\<lambda>t. crit (th_pc t)" "others i ts"] by auto
qed

section \<open>The writer\<close>

lemma tid_step:
  assumes "move i rw t rw' t'" "holds_ok t" "tid_set t \<longleftrightarrow> rw_writer_tid rw = i + 1" "state_at rw t os"
  shows "tid_set t' \<longleftrightarrow> rw_writer_tid rw' = i + 1"
    "rw_writer_tid rw' = rw_writer_tid rw \<or> rw_writer_tid rw = i + 1 \<and> rw_writer_tid rw' = 0 \<or> rw_writer_tid rw' = i + 1 \<and> th_writes t"
    "holds_ok t'"
proof -
  note tests = state_at_tests [OF assms(4)]
  have nw: "can_acquire Wr wp (rw_state rw) \<Longrightarrow> \<not> th_writes t" for wp
    using tests(3) by (simp add: can_acquire_def can_acquire_write_lock_def)
  have unlock: "state_owned_by_writer (rw_state rw) \<Longrightarrow> th_reads t \<noteq> 0 \<or> th_writes t \<Longrightarrow> th_writes t"
    "\<not> state_owned_by_writer (rw_state rw) \<Longrightarrow> th_reads t \<noteq> 0 \<or> th_writes t \<Longrightarrow> th_reads t \<noteq> 0"
    using tests(1) assms(4) by (auto simp: state_at_def)
  have "(tid_set t' \<longleftrightarrow> rw_writer_tid rw' = i + 1) \<and>
    (rw_writer_tid rw' = rw_writer_tid rw \<or> rw_writer_tid rw = i + 1 \<and> rw_writer_tid rw' = 0 \<or> rw_writer_tid rw' = i + 1 \<and> th_writes t)"
    using assms(1-3)
    by (cases rule: move.cases) (auto simp: tid_set_def holds_ok_def dest: nw)
  then show "tid_set t' \<longleftrightarrow> rw_writer_tid rw' = i + 1"
    "rw_writer_tid rw' = rw_writer_tid rw \<or> rw_writer_tid rw = i + 1 \<and> rw_writer_tid rw' = 0 \<or> rw_writer_tid rw' = i + 1 \<and> th_writes t"
    by blast+
  show "holds_ok t'"
    using assms(1,2) unlock by (cases rule: move.cases) (auto simp: holds_ok_def)
qed

lemma tid_inv_step:
  assumes "tid_inv rw ts" "i < length ts" "move i rw (ts ! i) rw' t'" "state_at rw (ts ! i) (others i ts)"
  shows "tid_inv rw' (ts[i := t'])"
proof -
  have i: "holds_ok (ts ! i)" "tid_set (ts ! i) \<longleftrightarrow> rw_writer_tid rw = i + 1"
    using assms(1,2) by (simp_all add: tid_inv_def)
  note t = tid_step [OF assms(3) i assms(4)]
  have others: "tid_set (ts ! j) \<longleftrightarrow> rw_writer_tid rw' = j + 1" if j: "j < length ts" "j \<noteq> i" for j
  proof -
    have old: "tid_set (ts ! j) \<longleftrightarrow> rw_writer_tid rw = j + 1"
      using assms(1) j by (simp add: tid_inv_def)
    moreover have "\<not> tid_set (ts ! j)" if "th_writes (ts ! i)"
    proof -
      have "writers (others i ts) = 0"
        using assms(4) that by (simp add: state_at_def)
      then have "\<not> th_writes (ts ! j)"
        using cnt_pos [of th_writes "others i ts"] j in_others [OF assms(2), of "ts ! j"] by (auto simp: writers_def)
      then show ?thesis
        by (simp add: tid_set_def)
    qed
    ultimately show ?thesis
      using t(2) j by auto
  qed
  have "rw_writer_tid rw' \<le> length ts"
    using t(2) assms(1,2) by (auto simp: tid_inv_def)
  then show ?thesis
    using t(1,3) others assms(1,2) by (auto simp: tid_inv_def nth_list_update)
qed

theorem rw_inv_move:
  assumes "rw_inv rw ts" "i < length ts" "move i rw (ts ! i) rw' t'"
  shows "rw_inv rw' (ts[i := t'])"
proof -
  have at: "state_at rw (ts ! i) (others i ts)" "count_at rw (ts ! i) (others i ts)"
    using assms(1) state_inv_at [OF assms(2), of rw "ts ! i"] count_inv_at [OF assms(2), of rw "ts ! i"] by (simp_all add: rw_inv_def)
  have inv: "lock_inv rw ts" "tid_inv rw ts"
    using assms(1) by (simp_all add: rw_inv_def)
  have nc: "crit (th_pc (ts ! i)) \<Longrightarrow> pcnt crit (others i ts) = 0"
    using lock_others [OF inv(1) assms(2)] .
  have "length (others i ts) + 1 = length ts"
    using assms(2) by (simp add: others_def)
  then have "length (others i ts) + 1 < 2 ^ 32" "holds_ok (ts ! i)"
    using assms(1,2) by (auto simp: rw_inv_def tid_inv_def)
  then show ?thesis
    using state_at_step [OF at _ assms(3) nc] count_at_step [OF at(2) assms(3) _ nc] lock_inv_step [OF inv(1) assms(2,3)]
      tid_inv_step [OF inv(2) assms(2,3) at(1)] assms(1)
    by (simp add: rw_inv_def state_inv_at [OF assms(2)] count_inv_at [OF assms(2)])
qed

section \<open>Waking threads\<close>

text \<open>Threads that differ only in program points of the same class.\<close>

definition same_class :: "rw_thread \<Rightarrow> rw_thread \<Rightarrow> bool" where
  "same_class t t' \<longleftrightarrow> th_reads t' = th_reads t \<and> th_writes t' = th_writes t \<and> crit (th_pc t') = crit (th_pc t) \<and>
     (\<forall>s. counted s (th_pc t') = counted s (th_pc t) \<and> flagged s (th_pc t') = flagged s (th_pc t) \<and>
        clearing s (th_pc t') = clearing s (th_pc t)) \<and>
     tid_set t' = tid_set t \<and> (holds_ok t \<longrightarrow> holds_ok t')"

lemma same_class_refl [simp]: "same_class t t"
  by (simp add: same_class_def)

lemma same_class_woken [simp]: "same_class t (woken s t)"
  by (auto simp: woken_def same_class_def tid_set_def holds_ok_def)

lemma same_class_counts:
  assumes "list_all2 same_class ts ts'"
  shows "reads ts' = reads ts" "writers ts' = writers ts" "pcnt (counted s) ts' = pcnt (counted s) ts"
    "pcnt (flagged s) ts' = pcnt (flagged s) ts" "pcnt (clearing s) ts' = pcnt (clearing s) ts"
  using assms by (induction rule: list_all2_induct) (simp_all add: same_class_def reads_def writers_def)

lemma rw_inv_same_class:
  assumes "rw_inv rw ts" "list_all2 same_class ts ts'"
  shows "rw_inv rw ts'"
proof -
  have len: "length ts' = length ts" and nth: "\<And>i. i < length ts \<Longrightarrow> same_class (ts ! i) (ts' ! i)"
    using assms(2) by (simp_all add: list_all2_conv_all_nth)
  then show ?thesis
    using assms(1) unfolding rw_inv_def state_inv_def count_inv_def lock_inv_def tid_inv_def same_class_counts [OF assms(2)]
    by (simp add: same_class_def)
qed

lemma notify_same_class: "notify ch s ts = Some ts' \<Longrightarrow> list_all2 same_class ts ts'"
  by (auto simp: notify_def list_all2_conv_all_nth nth_list_update split: side.splits choice.splits if_splits)

lemma returns_same_class: "th_pc t = NotifyWake s \<Longrightarrow> same_class t (returns 0 t)"
  by (auto simp: same_class_def returns_def tid_set_def holds_ok_def)

lemma notify_others: "notify ch s ts = Some ts' \<Longrightarrow> i < length ts \<Longrightarrow> th_pc (ts ! i) \<noteq> Asleep s \<Longrightarrow> ts' ! i = ts ! i"
  by (auto simp: notify_def woken_def nth_list_update split: side.splits choice.splits if_splits)

lemma sys_stepE:
  assumes "sys_step i ch s = Some s'"
  obtains (moved) rw' t' where "i < length (sys_threads s)" "move i (sys_lock s) (sys_threads s ! i) rw' t'"
      "s' = s\<lparr>sys_lock := rw', sys_threads := (sys_threads s)[i := t']\<rparr>"
      "thread_step i ch (sys_lock s) (sys_threads s ! i) = Some (rw', t')"
  | (notified) sd ts where "i < length (sys_threads s)" "th_pc (sys_threads s ! i) = NotifyWake sd" "notify ch sd (sys_threads s) = Some ts"
      "s' = s\<lparr>sys_threads := ts[i := returns 0 (ts ! i)]\<rparr>" "ts ! i = sys_threads s ! i"
proof -
  have i: "i < length (sys_threads s)"
    using assms by (simp add: sys_step_def split: if_splits)
  show ?thesis
  proof (cases "\<exists>sd. th_pc (sys_threads s ! i) = NotifyWake sd")
    case True
    then obtain sd where sd: "th_pc (sys_threads s ! i) = NotifyWake sd" by blast
    then obtain ts where "notify ch sd (sys_threads s) = Some ts" "s' = s\<lparr>sys_threads := ts[i := returns 0 (ts ! i)]\<rparr>"
      using assms i by (auto simp: sys_step_def)
    then show ?thesis
      using notified [OF i sd] notify_others [of ch sd "sys_threads s" ts i] i sd by simp
  next
    case False
    then have eq: "sys_step i ch s = map_option (\<lambda>(rw, t). s\<lparr>sys_lock := rw, sys_threads := (sys_threads s)[i := t]\<rparr>)
        (thread_step i ch (sys_lock s) (sys_threads s ! i))"
      using i by (auto simp: sys_step_def split: rw_pc.splits)
    obtain rw' t' where "thread_step i ch (sys_lock s) (sys_threads s ! i) = Some (rw', t')"
      "s' = s\<lparr>sys_lock := rw', sys_threads := (sys_threads s)[i := t']\<rparr>"
      using assms unfolding eq by auto
    then show ?thesis
      using moved [OF i thread_step_move] by blast
  qed
qed

lemma rw_inv_step:
  assumes "rw_inv (sys_lock s) (sys_threads s)" "sys_step i ch s = Some s'"
  shows "rw_inv (sys_lock s') (sys_threads s')"
  using assms(2)
proof (cases rule: sys_stepE)
  case (moved rw' t')
  then show ?thesis
    using rw_inv_move [OF assms(1)] by simp
next
  case (notified sd ts)
  have len: "length ts = length (sys_threads s)"
    using notify_same_class [OF notified(3)] by (simp add: list_all2_lengthD)
  have "list_all2 same_class ts (ts[i := returns 0 (ts ! i)])"
    using notified(1,2,5) len returns_same_class by (auto simp: list_all2_conv_all_nth nth_list_update)
  then show ?thesis
    using rw_inv_same_class [OF rw_inv_same_class [OF assms(1) notify_same_class [OF notified(3)]]] notified(4) by simp
qed

lemma move_pref: "move i rw t rw' t' \<Longrightarrow> rw_writer_nonrecursive_preferred rw' = rw_writer_nonrecursive_preferred rw"
  by (cases rule: move.cases) auto

lemma sys_step_keeps:
  assumes "sys_step i ch s = Some s'"
  shows "length (sys_threads s') = length (sys_threads s)"
    "rw_writer_nonrecursive_preferred (sys_lock s') = rw_writer_nonrecursive_preferred (sys_lock s)"
proof -
  have "length (sys_threads s') = length (sys_threads s) \<and>
    rw_writer_nonrecursive_preferred (sys_lock s') = rw_writer_nonrecursive_preferred (sys_lock s)"
    using assms
  proof (cases rule: sys_stepE)
    case (notified sd ts)
    then show ?thesis
      using list_all2_lengthD [OF notify_same_class [OF notified(3)]] by simp
  qed (simp add: move_pref)
  then show "length (sys_threads s') = length (sys_threads s)"
    "rw_writer_nonrecursive_preferred (sys_lock s') = rw_writer_nonrecursive_preferred (sys_lock s)" by blast+
qed

lemma rw_reach_inv:
  assumes "rw_reach wp n k s" "n < 2 ^ 32"
  shows "rw_inv (sys_lock s) (sys_threads s)" "length (sys_threads s) = n"
    "rw_writer_nonrecursive_preferred (sys_lock s) = wp"
proof -
  show "rw_inv (sys_lock s) (sys_threads s)"
    using assms(1)
  proof (induction rule: rw_reach.induct)
    case init
    then show ?case by (rule init_inv [OF assms(2)])
  next
    case (step k s i ch s')
    then show ?case using rw_inv_step by blast
  qed
  show "length (sys_threads s) = n" "rw_writer_nonrecursive_preferred (sys_lock s) = wp"
    using assms(1) by (induction rule: rw_reach.induct) (auto simp: init_sys_def dest: sys_step_keeps)
qed

end
