(* ===== verification/Rwlock_Live.thy ===== *)
theory Rwlock_Live
  imports Rwlock_Pres
begin

text \<open>
  No wake-up is lost as long as no call gives up: while the lock is free and a thread sleeps on it,
  some thread is awake that will either wake a sleeper or take the lock.
\<close>

section \<open>Threads that can be relied on\<close>

definition free :: "rwlock_internal \<Rightarrow> bool" where
  "free rw \<longleftrightarrow> \<not> state_owned_by_readers_or_writer (rw_state rw)"

fun notifying :: "rw_pc \<Rightarrow> bool" where
  "notifying NotifyLock = True"
| "notifying NotifyCount = True"
| "notifying _ = False"

text \<open>In the loop of the writers' slow path, and awake in it.\<close>

fun wloop :: "rw_pc \<Rightarrow> bool" where
  "wloop (TryLoad s c) = (s = Wr \<and> c = SlowPath)"
| "wloop (TryLoop s c _) = (s = Wr \<and> c = SlowPath)"
| "wloop (CheckTimeout s) = (s = Wr)"
| "wloop (Reload s) = (s = Wr)"
| "wloop (PendLock s) = (s = Wr)"
| "wloop (PendCount s) = (s = Wr)"
| "wloop (PendFlag s) = (s = Wr)"
| "wloop (PendSerial s _) = (s = Wr)"
| "wloop (Wait s _ _) = (s = Wr)"
| "wloop (Asleep s) = (s = Wr)"
| "wloop (WakeLock s _) = (s = Wr)"
| "wloop (WakeCount s _) = (s = Wr)"
| "wloop (WakeFlag s _) = (s = Wr)"
| "wloop (WakeUnlock s _) = (s = Wr)"
| "wloop _ = False"

definition wawake :: "rw_pc \<Rightarrow> bool" where
  "wawake pc \<longleftrightarrow> wloop pc \<and> pc \<noteq> Asleep Wr"

text \<open>A thread that has set its flag on a lock it cannot take and that nobody has notified since.\<close>

fun about :: "side \<Rightarrow> rwlock_internal \<Rightarrow> rw_pc \<Rightarrow> bool" where
  "about s rw (PendSerial s' old) = (s' = s \<and> \<not> can_acquire s (rw_writer_nonrecursive_preferred rw) old)"
| "about s rw (Wait s' old ser) = (s' = s \<and> \<not> can_acquire s (rw_writer_nonrecursive_preferred rw) old \<and> pend_serial s rw = ser)"
| "about s rw _ = False"

definition live :: "rwlock_internal \<Rightarrow> rw_pc set \<Rightarrow> bool" where
  "live rw T \<longleftrightarrow> (free rw \<longrightarrow>
     (Asleep Wr \<in> T \<longrightarrow> (\<exists>p \<in> T. notifying p \<or> p = NotifyWake Wr \<or> wawake p)) \<and>
     (Asleep Rd \<in> T \<longrightarrow> (\<exists>p \<in> T. notifying p \<or> p = NotifyWake Rd \<or> wloop p)) \<and>
     ((\<exists>p \<in> T. about Wr rw p) \<longrightarrow> (\<exists>p \<in> T. notifying p)) \<and>
     ((\<exists>p \<in> T. about Rd rw p) \<longrightarrow> (\<exists>p \<in> T. notifying p \<or> wloop p)))"

lemma live_keep:
  assumes "live rw (insert p T)" "free rw' \<Longrightarrow> free rw" "\<And>s q. q \<in> T \<Longrightarrow> about s rw' q \<Longrightarrow> about s rw q"
    "notifying p \<Longrightarrow> notifying p'" "wloop p \<Longrightarrow> wloop p'" "wawake p \<Longrightarrow> wawake p'" "\<And>s. p \<noteq> NotifyWake s"
    "\<And>s. p' = Asleep s \<Longrightarrow> p = Asleep s" "\<And>s. about s rw' p' \<Longrightarrow> about s rw p"
  shows "live rw' (insert p' T)"
  unfolding live_def
proof (intro impI conjI)
  assume "free rw'"
  then have l: "Asleep Wr \<in> insert p T \<longrightarrow> (\<exists>p \<in> insert p T. notifying p \<or> p = NotifyWake Wr \<or> wawake p)"
    "Asleep Rd \<in> insert p T \<longrightarrow> (\<exists>p \<in> insert p T. notifying p \<or> p = NotifyWake Rd \<or> wloop p)"
    "(\<exists>p \<in> insert p T. about Wr rw p) \<longrightarrow> (\<exists>p \<in> insert p T. notifying p)"
    "(\<exists>p \<in> insert p T. about Rd rw p) \<longrightarrow> (\<exists>p \<in> insert p T. notifying p \<or> wloop p)"
    using assms(1,2) unfolding live_def by blast+
  show "\<exists>p \<in> insert p' T. notifying p \<or> p = NotifyWake Wr \<or> wawake p" if "Asleep Wr \<in> insert p' T"
    using that l(1) assms(4,6,7,8) by auto
  show "\<exists>p \<in> insert p' T. notifying p \<or> p = NotifyWake Rd \<or> wloop p" if "Asleep Rd \<in> insert p' T"
    using that l(2) assms(4,5,7,8) by auto
  show "\<exists>p \<in> insert p' T. notifying p" if "\<exists>p \<in> insert p' T. about Wr rw' p"
  proof -
    have "\<exists>p \<in> insert p T. about Wr rw p"
      using that assms(3,9) by blast
    then show ?thesis
      using l(3) assms(4) by blast
  qed
  show "\<exists>p \<in> insert p' T. notifying p \<or> wloop p" if "\<exists>p \<in> insert p' T. about Rd rw' p"
  proof -
    have "\<exists>p \<in> insert p T. about Rd rw p"
      using that assms(3,9) by blast
    then show ?thesis
      using l(4) assms(4,5) by blast
  qed
qed

lemma live_notifying: "\<exists>p \<in> T. notifying p \<Longrightarrow> live rw T"
  unfolding live_def by blast

lemma live_quiet: "(\<And>p s. p \<in> T \<Longrightarrow> p \<noteq> Asleep s \<and> \<not> about s rw p) \<Longrightarrow> live rw T"
  unfolding live_def by blast

lemma about_flagged: "about s rw p \<Longrightarrow> flagged s p" "about s rw p \<Longrightarrow> counted s p"
  by (cases p; simp)+

lemma flagged_wloop: "flagged Wr p \<Longrightarrow> wloop p" "counted Wr p \<Longrightarrow> wloop p"
  by (cases p; simp)+

lemma live_owned: "\<not> free rw \<Longrightarrow> live rw T"
  unfolding live_def by blast

text \<open>Without timeouts the wait never ends with ETIMEDOUT.\<close>

fun woke_by_timeout :: "rw_pc \<Rightarrow> bool" where
  "woke_by_timeout (WakeLock _ x) = (x = - ETIMEDOUT)"
| "woke_by_timeout (WakeCount _ x) = (x = - ETIMEDOUT)"
| "woke_by_timeout (WakeFlag _ x) = (x = - ETIMEDOUT)"
| "woke_by_timeout (WakeUnlock _ x) = (x = - ETIMEDOUT)"
| "woke_by_timeout _ = False"

definition untimed :: "rw_thread \<Rightarrow> bool" where
  "untimed t \<longleftrightarrow> th_timeout t = None \<and> \<not> woke_by_timeout (th_pc t)"

definition serial_ok :: "rwlock_internal \<Rightarrow> rw_pc \<Rightarrow> bool" where
  "serial_ok rw p \<longleftrightarrow> (\<forall>s old ser. p = Wait s old ser \<longrightarrow> unat ser \<le> unat (pend_serial s rw))"

lemma about_simps [simp]:
  "about s (rw\<lparr>rw_state := x\<rparr>) p = about s rw p" "about s (rw\<lparr>rw_pending_lock := l\<rparr>) p = about s rw p"
  "about s (rw\<lparr>rw_writer_tid := y\<rparr>) p = about s rw p" "about s (set_pend_count s' c rw) p = about s rw p"
  by (cases p; simp_all)+

lemma free_simps [simp]:
  "free (rw\<lparr>rw_pending_lock := l\<rparr>) = free rw" "free (rw\<lparr>rw_writer_tid := y\<rparr>) = free rw"
  "free (set_pend_count s c rw) = free rw" "free (set_pend_serial s c rw) = free rw"
  by (simp_all add: free_def)

lemma about_notified:
  assumes "about s ((set_pend_serial s (pend_serial s rw + 1) rw)\<lparr>rw_pending_lock := None\<rparr>) p" "\<not> crit p" "serial_ok rw p"
    "unat (pend_serial s rw) + 1 < 2 ^ 32"
  shows False
proof (cases p)
  case (Wait s' old ser)
  then have "unat (pend_serial s rw + 1) \<le> unat (pend_serial s rw)"
    using assms(1,3) by (auto simp: serial_ok_def)
  then show False
    using unat_succ [OF assms(4)] by simp
qed (use assms(1,2) in simp_all)

section \<open>Moves\<close>

lemma live_move:
  assumes "live rw (insert (th_pc t) T)" "move i rw t rw' t'" "untimed t"
    and flag: "\<And>s p. p \<in> insert (th_pc t) T \<Longrightarrow> flagged s p \<Longrightarrow> state_have_pending_readers_or_writers (rw_state rw)"
    and wflag: "state_have_pending_writers (rw_state rw) \<Longrightarrow> \<exists>p \<in> insert (th_pc t) T. flagged Wr p"
    and count: "\<And>s. pend_count s rw \<noteq> 0 \<longleftrightarrow> (\<exists>p \<in> insert (th_pc t) T. counted s p)"
    and crit: "\<And>p. crit (th_pc t) \<Longrightarrow> p \<in> T \<Longrightarrow> \<not> crit p"
    and serial: "\<And>s p. p \<in> T \<Longrightarrow> serial_ok rw p" "\<And>s. unat (pend_serial s rw) + 1 < 2 ^ 32"
    and last: "th_pc t = UnlockRead \<Longrightarrow> free rw' \<Longrightarrow> state_is_last_reader (rw_state rw)"
    and owned: "th_pc t' = StoreTid \<or> th_reads t' = th_reads t + 1 \<Longrightarrow> \<not> free rw'"
    and kept: "th_pc t \<noteq> UnlockWrite \<Longrightarrow> th_pc t \<noteq> UnlockRead \<Longrightarrow> free rw' \<Longrightarrow> free rw"
  shows "live rw' (insert (th_pc t') T)"
  using assms(2)
proof (cases rule: move.cases)
  case acquire_read
  then show ?thesis using owned by (intro live_owned) simp
next
  case acquire_write
  then show ?thesis using owned by (intro live_owned) simp
next
  case (bad_timeout s r)
  then show ?thesis using assms(3) by (simp add: untimed_def)
next
  case (wait_timeout s old ser)
  then show ?thesis using assms(3) by (simp add: untimed_def)
next
  case (wake_return s)
  then show ?thesis using assms(3) by (simp add: untimed_def)
next
  case (call_lock pc s)
  then show ?thesis by (intro live_keep [OF assms(1)]) (auto simp: wawake_def)
next
  case (try_return s c old r)
  then show ?thesis by (intro live_keep [OF assms(1)]) (auto simp: wawake_def)
next
  case (pend_or s)
  show ?thesis
  proof (cases "free rw'")
    case True
    then have f: "free rw"
      using kept pend_or by simp
    have wr: "\<not> about Wr rw' (th_pc t')"
      using f pend_or by (auto simp: free_def can_acquire_def can_acquire_write_lock_def)
    have rd: "\<exists>q \<in> insert (th_pc t') T. wloop q" if "about Rd rw' (th_pc t')"
    proof -
      have "s = Rd" "state_have_pending_writers (rw_state rw)"
        using that f pend_or
        by (auto simp: free_def can_acquire_def can_acquire_read_lock_def Let_def state_owned_by_writer_def state_owned_by_readers_or_writer_def)
      then show ?thesis
        using wflag pend_or flagged_wloop(1) by auto
    qed
    have pc: "th_pc t = PendFlag s" "th_pc t' = PendSerial s (rw_state rw)" "\<And>s p. about s rw' p = about s rw p"
      using pend_or by simp_all
    have l: "Asleep Wr \<in> T \<Longrightarrow> s = Wr \<or> (\<exists>p \<in> T. notifying p \<or> p = NotifyWake Wr \<or> wawake p)"
      "Asleep Rd \<in> T \<Longrightarrow> s = Wr \<or> (\<exists>p \<in> T. notifying p \<or> p = NotifyWake Rd \<or> wloop p)"
      "\<exists>p \<in> T. about Wr rw p \<Longrightarrow> \<exists>p \<in> T. notifying p" "\<exists>p \<in> T. about Rd rw p \<Longrightarrow> s = Wr \<or> (\<exists>p \<in> T. notifying p \<or> wloop p)"
      using assms(1) f unfolding live_def pc(1) by (auto simp: wawake_def)
    have self: "s = Wr \<Longrightarrow> wawake (th_pc t')" "s = Wr \<Longrightarrow> wloop (th_pc t')"
      using pc(2) by (simp_all add: wawake_def)
    show ?thesis
      unfolding live_def
    proof (intro impI conjI)
      show "\<exists>p \<in> insert (th_pc t') T. notifying p \<or> p = NotifyWake Wr \<or> wawake p" if "Asleep Wr \<in> insert (th_pc t') T"
        using that l(1) self(1) pc(2) by auto
      show "\<exists>p \<in> insert (th_pc t') T. notifying p \<or> p = NotifyWake Rd \<or> wloop p" if "Asleep Rd \<in> insert (th_pc t') T"
        using that l(2) self(2) pc(2) by auto
      show "\<exists>p \<in> insert (th_pc t') T. notifying p" if "\<exists>p \<in> insert (th_pc t') T. about Wr rw' p"
        using that l(3) wr pc(3) by auto
      show "\<exists>p \<in> insert (th_pc t') T. notifying p \<or> wloop p" if "\<exists>p \<in> insert (th_pc t') T. about Rd rw' p"
        using that l(4) rd pc(3) self(2) by auto
    qed
  qed (rule live_owned)
next
  case (pend_read s old)
  have ab: "about s' rw' (th_pc t') \<Longrightarrow> about s' rw (th_pc t)" for s'
    unfolding pend_read(1,2) using pend_read(3) by (cases "s' = s") simp_all
  show ?thesis
    by (rule live_keep [OF assms(1)]; (erule ab)?; simp add: pend_read wawake_def)
next
  case (wake_and s x)
  have "free rw' \<Longrightarrow> free rw"
    using kept wake_and by simp
  then show ?thesis
    using wake_and by (intro live_keep [OF assms(1)]) (simp_all add: wawake_def)
next
  case (sleep s old ser)
  then have ab: "about s rw (th_pc t)"
    by simp
  show ?thesis
  proof (cases "free rw")
    case True
    have "\<exists>p \<in> T. notifying p \<or> s = Rd \<and> wloop p"
      using assms(1) True ab sleep(3) by (cases s) (simp_all add: live_def; blast)+
    then consider "\<exists>p \<in> T. notifying p" | "s = Rd" "\<exists>p \<in> T. wloop p" by blast
    then show ?thesis
    proof cases
      case 1
      then show ?thesis by (intro live_notifying) blast
    next
      case 2
      then show ?thesis
        using assms(1) sleep by (auto simp: live_def wawake_def)
    qed
  qed (use sleep in \<open>simp add: live_owned\<close>)
next
  case release_write
  have "\<not> flagged s p" if "p \<in> insert (th_pc t) T" for s p
    using flag that release_write by blast
  then show ?thesis
    using release_write about_flagged(1) by (intro live_quiet) fastforce
next
  case release_write_notify
  then show ?thesis
    by (intro live_notifying) simp
next
  case release_read
  show ?thesis
  proof (cases "free rw'")
    case True
    have "\<not> flagged s p" if "p \<in> insert (th_pc t) T" for s p
      using flag that release_read last True by blast
    then show ?thesis
      using release_read about_flagged(1) by (intro live_quiet) fastforce
  qed (rule live_owned)
next
  case release_read_notify
  then show ?thesis
    by (intro live_notifying) simp
next
  case notify_readers
  have wr: "\<not> counted Wr p" if "p \<in> T" for p
    using count [of Wr] that notify_readers by auto
  have rd: "\<not> about Rd rw' p" if "p \<in> T" for p
    using about_notified [of Rd rw p] serial(1) [OF that] serial(2) crit [OF _ that] notify_readers(1,3) by (simp add: notify_readers(1,3)) blast
  have "Asleep Wr \<notin> T" "\<And>p. p \<in> T \<Longrightarrow> \<not> about Wr rw' p"
    using wr about_flagged(2) by fastforce+
  then show ?thesis
    using notify_readers rd by (auto simp: live_def)
next
  case notify_writer
  have "\<exists>p \<in> T. wloop p"
    using count [of Wr] notify_writer flagged_wloop(2) by auto
  moreover have "\<not> about Wr rw' p" if "p \<in> T" for p
    using about_notified [of Wr rw p] serial(1) [OF that] serial(2) crit [OF _ that] notify_writer(1,3) by (simp add: notify_writer(1,3)) blast
  ultimately show ?thesis
    using notify_writer by (auto simp: live_def)
next
  case notify_none
  have "\<not> counted s p" if "p \<in> insert (th_pc t) T" for s p
    using count [of s] that notify_none by (cases s) auto
  then show ?thesis
    using notify_none about_flagged(2) by (intro live_quiet) fastforce
qed (rule live_keep [OF assms(1)]; simp add: wawake_def)+

section \<open>Wake-ups\<close>

lemma live_notify:
  assumes "live rw T" "\<And>p. p \<in> T' \<Longrightarrow> p = Idle \<or> p \<in> T \<or> p = WakeLock sd 0"
    "\<And>p. p \<in> T \<Longrightarrow> p \<in> T' \<or> p = NotifyWake sd \<or> p = Asleep sd" "Asleep sd \<in> T \<Longrightarrow> WakeLock sd 0 \<in> T'"
    "sd = Rd \<Longrightarrow> Asleep Rd \<notin> T'"
  shows "live rw T'"
  unfolding live_def
proof (intro impI conjI)
  assume "free rw"
  then have l: "Asleep Wr \<in> T \<longrightarrow> (\<exists>p \<in> T. notifying p \<or> p = NotifyWake Wr \<or> wawake p)"
    "Asleep Rd \<in> T \<longrightarrow> (\<exists>p \<in> T. notifying p \<or> p = NotifyWake Rd \<or> wloop p)"
    "(\<exists>p \<in> T. about Wr rw p) \<longrightarrow> (\<exists>p \<in> T. notifying p)"
    "(\<exists>p \<in> T. about Rd rw p) \<longrightarrow> (\<exists>p \<in> T. notifying p \<or> wloop p)"
    using assms(1) unfolding live_def by blast+
  have woken: "sd = Wr \<Longrightarrow> Asleep sd \<in> T \<Longrightarrow> \<exists>p \<in> T'. wawake p \<and> wloop p"
    using assms(4) by (force simp: wawake_def)
  have kept: "p \<in> T'" if "p \<in> T" "notifying p \<or> wloop p" "\<not> (sd = Wr \<and> p = Asleep Wr)" for p
    using assms(3) [OF that(1)] that by (cases sd) auto
  have ab: "\<exists>p \<in> T. about s rw p" if a: "\<exists>p \<in> T'. about s rw p" for s
  proof -
    obtain p where "p \<in> T'" "about s rw p"
      using a by blast
    then show ?thesis
      using assms(2) [of p] by auto
  qed
  show "\<exists>p \<in> T'. notifying p \<or> p = NotifyWake Wr \<or> wawake p" if "Asleep Wr \<in> T'"
  proof (cases sd)
    case Rd
    have "Asleep Wr \<in> T"
      using assms(2) that by blast
    then obtain p where "p \<in> T" "notifying p \<or> p = NotifyWake Wr \<or> wawake p"
      using l(1) by blast
    then show ?thesis
      using assms(3) [of p] Rd by (auto simp: wawake_def)
  next
    case Wr
    then show ?thesis
      using woken assms(2) that by blast
  qed
  show "\<exists>p \<in> T'. notifying p \<or> p = NotifyWake Rd \<or> wloop p" if "Asleep Rd \<in> T'"
  proof -
    have Wr: "sd = Wr"
      using assms(5) that by (cases sd) auto
    have "Asleep Rd \<in> T"
      using assms(2) that by blast
    then obtain p where "p \<in> T" "notifying p \<or> p = NotifyWake Rd \<or> wloop p"
      using l(2) by blast
    then show ?thesis
      using assms(3) [of p] Wr woken by auto
  qed
  show "\<exists>p \<in> T'. notifying p" if a: "\<exists>p \<in> T'. about Wr rw p"
  proof -
    obtain p where "p \<in> T" "notifying p"
      using l(3) ab [OF a] by blast
    then show ?thesis
      using kept [of p] by (cases "p = Asleep Wr") auto
  qed
  show "\<exists>p \<in> T'. notifying p \<or> wloop p" if a: "\<exists>p \<in> T'. about Rd rw p"
  proof -
    obtain p where "p \<in> T" "notifying p \<or> wloop p"
      using l(4) ab [OF a] by blast
    then show ?thesis
      using kept [of p] woken by blast
  qed
qed

lemma notify_nth:
  assumes "notify ch sd ts = Some ts'"
  shows "length ts' = length ts"
    "k < length ts \<Longrightarrow> ts' ! k = ts ! k \<or> th_pc (ts ! k) = Asleep sd \<and> ts' ! k = (ts ! k)\<lparr>th_pc := WakeLock sd 0\<rparr>"
    "Asleep sd \<in> th_pc ` set ts \<Longrightarrow> \<exists>k < length ts. th_pc (ts ! k) = Asleep sd \<and> th_pc (ts' ! k) = WakeLock sd 0"
    "sd = Rd \<Longrightarrow> k < length ts \<Longrightarrow> th_pc (ts' ! k) \<noteq> Asleep Rd"
proof -
  show "length ts' = length ts"
    using list_all2_lengthD [OF notify_same_class [OF assms]] by simp
  show "ts' ! k = ts ! k \<or> th_pc (ts ! k) = Asleep sd \<and> ts' ! k = (ts ! k)\<lparr>th_pc := WakeLock sd 0\<rparr>" if "k < length ts"
    using assms that by (auto simp: notify_def woken_def nth_list_update split: side.splits choice.splits if_splits)
  show "\<exists>k < length ts. th_pc (ts ! k) = Asleep sd \<and> th_pc (ts' ! k) = WakeLock sd 0" if asl: "Asleep sd \<in> th_pc ` set ts"
  proof (cases sd)
    case Rd
    obtain k where "k < length ts" "th_pc (ts ! k) = Asleep sd"
      using asl by (auto simp: in_set_conv_nth)
    then show ?thesis
      using assms Rd by (intro exI [of _ k]) (auto simp: notify_def woken_def)
  next
    case Wr
    have "\<not> list_all (\<lambda>t. th_pc t \<noteq> Asleep Wr) ts"
      using asl Wr by (auto simp: list_all_iff)
    then obtain j where "j < length ts" "th_pc (ts ! j) = Asleep Wr" "ts' = ts[j := woken Wr (ts ! j)]"
      using assms Wr by (auto simp: notify_def split: choice.splits if_splits)
    then show ?thesis
      using Wr by (intro exI [of _ j]) (simp add: woken_def)
  qed
  show "th_pc (ts' ! k) \<noteq> Asleep Rd" if "sd = Rd" "k < length ts"
    using assms that by (auto simp: notify_def woken_def split: if_splits)
qed

lemma notify_pcs:
  assumes "notify ch sd ts = Some ts'" "i < length ts" "th_pc (ts ! i) = NotifyWake sd" "us = ts'[i := returns 0 (ts' ! i)]"
  shows "\<And>u. u \<in> set us \<Longrightarrow> \<exists>t \<in> set ts. u = t \<or> u = returns 0 t \<or> u = t\<lparr>th_pc := WakeLock sd 0\<rparr>"
    "\<And>p. p \<in> th_pc ` set ts \<Longrightarrow> p \<in> th_pc ` set us \<or> p = NotifyWake sd \<or> p = Asleep sd"
    "Asleep sd \<in> th_pc ` set ts \<Longrightarrow> WakeLock sd 0 \<in> th_pc ` set us" "sd = Rd \<Longrightarrow> Asleep Rd \<notin> th_pc ` set us"
proof -
  note n = notify_nth [OF assms(1)]
  have len: "length us = length ts"
    using assms(4) n(1) by simp
  have us: "us ! k = (if k = i then returns 0 (ts ! i) else ts' ! k)" if "k < length ts" for k
    using assms(2-4) n(1) n(2) [OF assms(2)] that by (auto simp: nth_list_update)
  show "\<exists>t \<in> set ts. u = t \<or> u = returns 0 t \<or> u = t\<lparr>th_pc := WakeLock sd 0\<rparr>" if a: "u \<in> set us" for u
  proof -
    obtain k where k: "k < length ts" "u = us ! k"
      using a len by (auto simp: in_set_conv_nth)
    then show ?thesis
      using us [OF k(1)] n(2) [OF k(1)] by (intro bexI [of _ "ts ! k"]) (auto split: if_splits)
  qed
  show "p \<in> th_pc ` set us \<or> p = NotifyWake sd \<or> p = Asleep sd" if a: "p \<in> th_pc ` set ts" for p
  proof -
    obtain k where k: "k < length ts" "p = th_pc (ts ! k)"
      using a by (auto simp: in_set_conv_nth)
    have "us ! k \<in> set us"
      using k len by simp
    then show ?thesis
      using us [OF k(1)] n(2) [OF k(1)] k(2) assms(3) by (cases "k = i") auto
  qed
  show "WakeLock sd 0 \<in> th_pc ` set us" if a: "Asleep sd \<in> th_pc ` set ts"
  proof -
    obtain k where k: "k < length ts" "th_pc (ts ! k) = Asleep sd" "th_pc (ts' ! k) = WakeLock sd 0"
      using n(3) a by blast
    then have "us ! k = ts' ! k"
      using us [OF k(1)] assms(3) by auto
    moreover have "us ! k \<in> set us"
      using k(1) len by (intro nth_mem) simp
    ultimately have "ts' ! k \<in> set us"
      by simp
    then show ?thesis
      using k(3) by force
  qed
  show "Asleep Rd \<notin> th_pc ` set us" if "sd = Rd"
    using us n(4) that len by (auto simp: in_set_conv_nth returns_def split: if_splits) (metis returns_def)
qed

section \<open>Runs without timeouts\<close>

fun untimed_choice :: "choice \<Rightarrow> bool" where
  "untimed_choice (Call (CallTimedRdLock x)) = (x = None)"
| "untimed_choice (Call (CallTimedWrLock x)) = (x = None)"
| "untimed_choice _ = True"

inductive rw_reach_untimed :: "bool \<Rightarrow> nat \<Rightarrow> nat \<Rightarrow> rw_sys \<Rightarrow> bool" for wp n where
  init: "rw_reach_untimed wp n 0 (init_sys wp n)"
| step: "rw_reach_untimed wp n k s \<Longrightarrow> untimed_choice ch \<Longrightarrow> sys_step i ch s = Some s' \<Longrightarrow> rw_reach_untimed wp n (Suc k) s'"

lemma untimed_reach: "rw_reach_untimed wp n k s \<Longrightarrow> rw_reach wp n k s"
  by (induction rule: rw_reach_untimed.induct) (auto intro: rw_reach.intros)

lemma untimed_step:
  assumes "thread_step i ch rw t = Some (rw', t')" "untimed t" "untimed_choice ch"
  shows "untimed t'"
proof -
  have "th_timeout t' = None"
  proof (cases "th_pc t = Idle")
    case True
    then show ?thesis
      using assms(1,3) by (auto simp: thread_step_def start_call_def split: choice.splits rw_call.splits if_splits)
  next
    case False
    show ?thesis
      using thread_step_move [OF assms(1)] False assms(2) by (cases rule: move.cases) (auto simp: untimed_def)
  qed
  moreover have "\<not> woke_by_timeout (th_pc t')"
    using thread_step_move [OF assms(1)] assms(2) by (cases rule: move.cases) (auto simp: untimed_def errno_defs)
  ultimately show ?thesis
    by (simp add: untimed_def)
qed

lemma serial_move:
  assumes "move i rw t rw' t'" "unat (pend_serial s rw) + 1 < 2 ^ 32"
  shows "unat (pend_serial s rw) \<le> unat (pend_serial s rw')" "unat (pend_serial s rw') \<le> unat (pend_serial s rw) + 1"
proof -
  have "pend_serial s rw' = pend_serial s rw \<or> pend_serial s rw' = pend_serial s rw + 1"
    using assms(1) by (cases rule: move.cases) auto
  then show "unat (pend_serial s rw) \<le> unat (pend_serial s rw')" "unat (pend_serial s rw') \<le> unat (pend_serial s rw) + 1"
    using unat_succ [OF assms(2)] by auto
qed

lemma serial_ok_move:
  assumes "move i rw t rw' t'" "serial_ok rw (th_pc t)" "\<And>s. unat (pend_serial s rw) \<le> unat (pend_serial s rw')"
  shows "serial_ok rw' (th_pc t')"
  using assms by (cases rule: move.cases) (auto simp: serial_ok_def)

definition live_inv :: "nat \<Rightarrow> rw_sys \<Rightarrow> bool" where
  "live_inv k s \<longleftrightarrow> live (sys_lock s) (th_pc ` set (sys_threads s)) \<and>
     (\<forall>t \<in> set (sys_threads s). untimed t \<and> serial_ok (sys_lock s) (th_pc t)) \<and>
     (\<forall>sd. unat (pend_serial sd (sys_lock s)) \<le> k)"

lemma move_holds:
  assumes "move i rw t rw' t'" "th_pc t \<noteq> UnlockWrite" "th_pc t \<noteq> UnlockRead"
  shows "th_reads t \<le> th_reads t'" "th_writes t \<Longrightarrow> th_writes t'"
  using assms by (cases rule: move.cases; simp)+

lemma live_inv_move:
  assumes "live_inv k s" "rw_inv (sys_lock s) (sys_threads s)" "i < length (sys_threads s)" "untimed_choice ch" "k + 1 < 2 ^ 32"
    "thread_step i ch (sys_lock s) (sys_threads s ! i) = Some (rw', t')"
  shows "live_inv (Suc k) (s\<lparr>sys_lock := rw', sys_threads := (sys_threads s)[i := t']\<rparr>)"
proof -
  let ?rw = "sys_lock s" and ?ts = "sys_threads s" and ?t = "sys_threads s ! i"
  let ?os = "others i ?ts"
  note mv = thread_step_move [OF assms(6)]
  have ts: "set ?ts = insert ?t (set ?os)"
    using set_update_others [OF assms(3), of ?t] by simp
  have st: "state_at ?rw ?t ?os" "count_at ?rw ?t ?os"
    using assms(2) state_inv_at [OF assms(3), of ?rw ?t] count_inv_at [OF assms(3), of ?rw ?t] by (simp_all add: rw_inv_def)
  have inv': "rw_inv rw' (?ts[i := t'])"
    by (rule rw_inv_move [OF assms(2,3) mv])
  then have st': "state_at rw' t' ?os" and ok': "holds_ok t'"
    using state_inv_at [OF assms(3), of rw' t'] assms(3) by (auto simp: rw_inv_def tid_inv_def nth_list_update)
  have ok: "holds_ok ?t"
    using assms(2,3) by (simp add: rw_inv_def tid_inv_def)
  note e = state_at_enc [OF st(1)]
  have fl: "(flagged sd (th_pc ?t) \<or> 0 < pcnt (flagged sd) ?os) \<longleftrightarrow> (\<exists>p \<in> insert (th_pc ?t) (th_pc ` set ?os). flagged sd p)" for sd
    using cnt_pos [of "\<lambda>t. flagged sd (th_pc t)" ?os] by auto
  have co: "pend_count sd ?rw \<noteq> 0 \<longleftrightarrow> (\<exists>p \<in> insert (th_pc ?t) (th_pc ` set ?os). counted sd p)" for sd
  proof -
    have "unat (pend_count sd ?rw) = of_bool (counted sd (th_pc ?t)) + pcnt (counted sd) ?os"
      using st(2) by (cases sd) (simp_all add: count_at_def pend_count_def)
    moreover have "pend_count sd ?rw \<noteq> 0 \<longleftrightarrow> unat (pend_count sd ?rw) \<noteq> 0"
      by (simp add: unat_eq_zero)
    ultimately show ?thesis
      using cnt_pos [of "\<lambda>t. counted sd (th_pc t)" ?os] by auto
  qed
  have serial: "unat (pend_serial sd ?rw) + 1 < 2 ^ 32" for sd
    using assms(1,5) unfolding live_inv_def by (meson add_le_mono1 le_less_trans)
  note mono = serial_move [OF mv serial]
  have fr: "free rw' \<longleftrightarrow> \<not> th_writes t' \<and> writers ?os = 0 \<and> th_reads t' + reads ?os = 0"
    "free ?rw \<longleftrightarrow> \<not> th_writes ?t \<and> writers ?os = 0 \<and> th_reads ?t + reads ?os = 0"
    using state_at_tests(3) [OF st'] state_at_tests(3) [OF st(1)] by (auto simp: free_def)
  have "live rw' (insert (th_pc t') (th_pc ` set ?os))"
  proof (rule live_move [OF _ mv])
    show "live ?rw (insert (th_pc ?t) (th_pc ` set ?os))" "untimed ?t" "\<And>s p. p \<in> th_pc ` set ?os \<Longrightarrow> serial_ok ?rw p"
      using assms(1) ts by (auto simp: live_inv_def)
    show "state_have_pending_readers_or_writers (rw_state ?rw)"
      if "p \<in> insert (th_pc ?t) (th_pc ` set ?os)" "flagged sd p" for sd p
      unfolding e(1) enc_pending(2) [OF e(2)] fl using that by (cases sd) blast+
    show "\<exists>p \<in> insert (th_pc ?t) (th_pc ` set ?os). flagged Wr p" if "state_have_pending_writers (rw_state ?rw)"
      using that unfolding e(1) enc_pending(1) [OF e(2)] fl .
    show "pend_count sd ?rw \<noteq> 0 \<longleftrightarrow> (\<exists>p \<in> insert (th_pc ?t) (th_pc ` set ?os). counted sd p)" for sd
      by (rule co)
    show "\<not> crit p" if "crit (th_pc ?t)" "p \<in> th_pc ` set ?os" for p
      using lock_others [of ?rw ?ts i] assms(2,3) that cnt_pos [of "\<lambda>t. crit (th_pc t)" ?os] by (auto simp: rw_inv_def)
    show "unat (pend_serial sd ?rw) + 1 < 2 ^ 32" for sd
      by (rule serial)
    show "state_is_last_reader (rw_state ?rw)" if "th_pc ?t = UnlockRead" "free rw'"
    proof -
      have "th_reads t' = th_reads ?t - 1" "th_reads ?t \<noteq> 0"
        using mv that(1) ok by (cases rule: move.cases; simp add: holds_ok_def)+
      then have "th_reads ?t + reads ?os = 1" "\<not> th_writes ?t" "writers ?os = 0"
        using that(2) fr(1) st(1) by (auto simp: state_at_def)
      then show ?thesis
        unfolding e(1) enc_tests(4) [OF e(2)] by simp
    qed
    show "\<not> free rw'" if "th_pc t' = StoreTid \<or> th_reads t' = th_reads ?t + 1"
      using that ok' fr(1) by (auto simp: holds_ok_def)
    show "free ?rw" if "th_pc ?t \<noteq> UnlockWrite" "th_pc ?t \<noteq> UnlockRead" "free rw'"
      using move_holds [OF mv that(1,2)] that(3) fr by auto
  qed
  moreover have "untimed t'"
    using untimed_step [OF assms(6) _ assms(4)] assms(1) ts by (simp add: live_inv_def)
  moreover have "serial_ok rw' (th_pc t')"
    using serial_ok_move [OF mv _ mono(1)] assms(1) ts by (simp add: live_inv_def)
  moreover have "untimed u \<and> serial_ok rw' (th_pc u)" if "u \<in> set ?os" for u
    using assms(1) ts that mono(1) unfolding live_inv_def serial_ok_def by (metis insertCI le_trans)
  moreover have "unat (pend_serial sd rw') \<le> Suc k" for sd
    using mono(2) [of sd] assms(1) unfolding live_inv_def by (metis Suc_eq_plus1 add_le_mono1 le_trans)
  ultimately show ?thesis
    using set_update_others [OF assms(3), of t'] by (simp add: live_inv_def)
qed

end
