(* ===== verification/Rwlock_Spec.thy ===== *)
theory Rwlock_Spec
  imports Rwlock_Live
begin

text \<open>
  What a read-write lock guarantees: mutual exclusion, that a thread sleeping on a free lock is always
  going to be woken as long as nobody uses a timeout, and how a timeout breaks this.
\<close>

section \<open>Runs without timeouts\<close>

lemma live_inv_step:
  assumes "live_inv k s" "rw_inv (sys_lock s) (sys_threads s)" "untimed_choice ch" "k + 1 < 2 ^ 32" "sys_step i ch s = Some s'"
  shows "live_inv (Suc k) s'"
  using assms(5)
proof (cases rule: sys_stepE)
  case (moved rw' t')
  then show ?thesis
    using live_inv_move [OF assms(1,2) _ assms(3,4)] by blast
next
  case (notified sd ts)
  let ?us = "ts[i := returns 0 (ts ! i)]"
  note n = notify_pcs [OF notified(3,1,2) refl]
  have "live (sys_lock s) (th_pc ` set ?us)"
  proof (rule live_notify [where sd = sd])
    show "live (sys_lock s) (th_pc ` set (sys_threads s))"
      using assms(1) by (simp add: live_inv_def)
    show "p = Idle \<or> p \<in> th_pc ` set (sys_threads s) \<or> p = WakeLock sd 0" if "p \<in> th_pc ` set ?us" for p
      using that n(1) by (fastforce simp: returns_def)
  qed (use n(2-4) in blast)+
  moreover have "untimed u \<and> serial_ok (sys_lock s) (th_pc u)" if "u \<in> set ?us" for u
    using n(1) [OF that] assms(1)
    by (auto simp: live_inv_def untimed_def serial_ok_def returns_def errno_defs)
  ultimately show ?thesis
    using assms(1) notified(4) by (auto simp: live_inv_def le_SucI)
qed

lemma untimed_live:
  assumes "rw_reach_untimed wp n k s" "n < 2 ^ 32"
  shows "k < 2 ^ 32 \<longrightarrow> live_inv k s"
  using assms(1)
proof (induction rule: rw_reach_untimed.induct)
  case init
  show ?case
    by (auto simp: live_inv_def live_def init_sys_def zero_rwlock_def idle_thread_def untimed_def serial_ok_def pend_serial_def
        split: side.split)
next
  case (step k s ch i s')
  show ?case
  proof
    assume k: "Suc k < 2 ^ 32"
    then have "live_inv k s"
      using step.IH by simp
    then show "live_inv (Suc k) s'"
      using live_inv_step [OF _ rw_reach_inv(1) [OF untimed_reach [OF step.hyps(1)] assms(2)] step.hyps(2) _ step.hyps(3)] k by simp
  qed
qed

lemma live_awake:
  assumes "live rw T" "free rw" "Asleep sd \<in> T"
  shows "\<exists>p \<in> T. notifying p \<or> (\<exists>x. p = NotifyWake x) \<or> wawake p"
proof -
  have wr: ?thesis if "Asleep Wr \<in> T"
    using assms(1,2) that unfolding live_def by blast
  show ?thesis
  proof (cases sd)
    case Rd
    then obtain p where "p \<in> T" "notifying p \<or> p = NotifyWake Rd \<or> wloop p"
      using assms unfolding live_def by blast
    then show ?thesis
      using wr by (cases "p = Asleep Wr") (auto simp: wawake_def)
  next
    case Wr
    then show ?thesis using assms(3) wr by simp
  qed
qed

section \<open>Progress\<close>

definition active :: "rw_pc \<Rightarrow> bool" where
  "active p \<longleftrightarrow> p \<noteq> Idle \<and> (\<forall>s. p \<noteq> Asleep s)"

lemma check_timespec_Ok: "\<exists>r. check_timespec x True = Ok r"
  by (simp add: check_timespec_def split: option.split)

lemma notify_total: "\<exists>ch ts'. notify ch sd ts = Some ts'"
proof (cases "sd = Wr \<and> \<not> list_all (\<lambda>t. th_pc t \<noteq> Asleep Wr) ts")
  case True
  then obtain j where "j < length ts" "th_pc (ts ! j) = Asleep Wr"
    by (auto simp: list_all_length)
  then have "notify (Pick j) sd ts = Some (ts[j := woken Wr (ts ! j)])"
    using True by (simp add: notify_def)
  then show ?thesis
    by blast
next
  case False
  then show ?thesis
    by (cases sd) (auto simp: notify_def)
qed

text \<open>A thread in a call can take its next step unless it waits for the pending lock.\<close>

lemma thread_can_step:
  assumes "active (th_pc t)" "\<And>s. th_pc t \<noteq> NotifyWake s"
    "rw_pending_lock rw = None \<or> \<not> (th_pc t = NotifyLock \<or> (\<exists>s x. th_pc t = PendLock s \<or> th_pc t = WakeLock s x))"
  shows "\<exists>rw' t'. thread_step i Go rw t = Some (rw', t')"
proof (cases "\<exists>s. th_pc t = CheckTimeout s")
  case True
  then obtain s where s: "th_pc t = CheckTimeout s" by blast
  obtain r where "check_timespec (th_timeout t) True = Ok r"
    using check_timespec_Ok by blast
  then show ?thesis
    using s by (cases s) (simp_all add: thread_step_def)
next
  case False
  then show ?thesis
    using assms by (cases "th_pc t")
      (auto simp: thread_step_def active_def futex_wait_step_def Let_def tryrdlock_loop_def trywrlock_loop_def split: side.splits)
qed

lemma progress:
  assumes "rw_inv (sys_lock s) (sys_threads s)" "i < length (sys_threads s)" "active (th_pc (sys_threads s ! i))"
  shows "\<exists>j < length (sys_threads s). active (th_pc (sys_threads s ! j)) \<and> (\<exists>ch s'. sys_step j ch s = Some s')"
proof -
  let ?can = "\<lambda>j. \<exists>ch s'. sys_step j ch s = Some s'"
  have step: "?can j" if j: "j < length (sys_threads s)" "active (th_pc (sys_threads s ! j))"
    "rw_pending_lock (sys_lock s) = None \<or> crit (th_pc (sys_threads s ! j)) \<or>
      \<not> (th_pc (sys_threads s ! j) = NotifyLock \<or>
         (\<exists>sd x. th_pc (sys_threads s ! j) = PendLock sd \<or> th_pc (sys_threads s ! j) = WakeLock sd x))" for j
  proof (cases "\<exists>sd. th_pc (sys_threads s ! j) = NotifyWake sd")
    case True
    then show ?thesis
      using j(1) notify_total [of _ "sys_threads s"] by (fastforce simp: sys_step_def)
  next
    case False
    have free: "rw_pending_lock (sys_lock s) = None \<or> \<not> (th_pc (sys_threads s ! j) = NotifyLock \<or>
        (\<exists>sd x. th_pc (sys_threads s ! j) = PendLock sd \<or> th_pc (sys_threads s ! j) = WakeLock sd x))"
      using j(3) by auto
    obtain rw' t' where t: "thread_step j Go (sys_lock s) (sys_threads s ! j) = Some (rw', t')"
      using thread_can_step [OF j(2) _ free] False by blast
    have "sys_step j Go s = map_option (\<lambda>(rw, t). s\<lparr>sys_lock := rw, sys_threads := (sys_threads s)[j := t]\<rparr>)
        (thread_step j Go (sys_lock s) (sys_threads s ! j))"
      using False j(1) by (auto simp: sys_step_def split: rw_pc.splits)
    then show ?thesis
      using t by auto
  qed
  show ?thesis
  proof (cases "rw_pending_lock (sys_lock s)")
    case None
    then show ?thesis
      using step [OF assms(2,3)] assms(2,3) by blast
  next
    case (Some j)
    then have "j < length (sys_threads s)" "crit (th_pc (sys_threads s ! j))"
      using assms(1) by (auto simp: rw_inv_def lock_inv_def)
    moreover have "active p" if "crit p" for p
      using that by (cases p) (auto simp: active_def)
    ultimately show ?thesis
      using step [of j] by blast
  qed
qed

section \<open>Examples of runs\<close>

text \<open>A run, as the sequence of the threads that step.\<close>

lemma sys_run_reach: "sys_run xs s = Some s' \<Longrightarrow> rw_reach wp n k s \<Longrightarrow> rw_reach wp n (length xs + k) s'"
proof (induction xs arbitrary: s k)
  case (Cons x xs)
  obtain i ch where x: "x = (i, ch)" by (cases x)
  then obtain s1 where "sys_step i ch s = Some s1" "sys_run xs s1 = Some s'"
    using Cons.prems(1) by (auto split: option.splits)
  then show ?case
    using Cons.IH [of s1 "Suc k"] rw_reach.step [OF Cons.prems(2)] by simp
qed simp

lemma sys_run_reach_untimed:
  "sys_run xs s = Some s' \<Longrightarrow> list_all (\<lambda>x. untimed_choice (snd x)) xs \<Longrightarrow> rw_reach_untimed wp n k s \<Longrightarrow>
   rw_reach_untimed wp n (length xs + k) s'"
proof (induction xs arbitrary: s k)
  case (Cons x xs)
  obtain i ch where x: "x = (i, ch)" by (cases x)
  then obtain s1 where "sys_step i ch s = Some s1" "sys_run xs s1 = Some s'"
    using Cons.prems(1) by (auto split: option.splits)
  then show ?case
    using Cons.IH [of s1 "Suc k"] rw_reach_untimed.step [OF Cons.prems(3), of ch i s1] Cons.prems(2) x by simp
qed simp

text \<open>A writer has released the lock while another one sleeps, but has not yet woken it.\<close>

definition handover_run :: "(nat \<times> choice) list" where
  "handover_run =
     (0, Call CallWrLock) # replicate 3 (0, Go) @ (1, Call CallWrLock) # replicate 12 (1, Go) @ (0, Call CallUnlock) # replicate 4 (0, Go)"

text \<open>
  Thread 0 holds the write lock; thread 1 waits for it with a timeout, thread 2 for a read lock without
  one. Thread 1 times out; before it takes itself off the pending writers, thread 0 releases the lock and
  sends its only wake-up to the writers.
\<close>

definition lost_wakeup_run :: "(nat \<times> choice) list" where
  "lost_wakeup_run =
     [(0, Call CallWrLock), (0, Go), (0, Go), (0, Go),
      (1, Call (CallTimedWrLock (Some \<lparr>tv_sec = 1, tv_nsec = 0\<rparr>))), (1, Go), (1, Go), (1, Go), (1, Go), (1, Go), (1, Go), (1, Go), (1, Go), (1, Go), (1, Go),
      (2, Call CallRdLock), (2, Go), (2, Go), (2, Go), (2, Go), (2, Go), (2, Go), (2, Go), (2, Go), (2, Go), (2, Go), (2, Go), (2, Go),
      (1, TimedOut), (0, Call CallUnlock), (0, Go), (0, Go), (0, Go), (0, Go), (0, Go), (0, Go), (0, Go),
      (1, Go), (1, Go), (1, Go), (1, Go)]"

section \<open>Properties\<close>

text \<open>
  C14: A read-write lock excludes writers from readers and from each other under every interleaving of
  its threads, with timeouts, interrupted waits and spurious failures of the compare-exchange. The state
  word always holds the writer and the number of read locks exactly, a thread that is not in a call has
  its id stored exactly if it holds the write lock, and a lock that is not held and that no thread is
  using can be destroyed.
\<close>

theorem rwlock_exclusion:
  assumes "rw_reach wp n k s" "n < 2 ^ 32"
  shows "(writers (sys_threads s) = 0 \<or> writers (sys_threads s) = 1 \<and> reads (sys_threads s) = 0) \<and>
    (state_owned_by_writer (rw_state (sys_lock s)) \<longleftrightarrow> writers (sys_threads s) = 1) \<and>
    unat (rw_state (sys_lock s)) div 4 mod 2 ^ 29 = reads (sys_threads s) \<and>
    (\<forall>i < n. th_pc (sys_threads s ! i) = Idle \<longrightarrow> (th_writes (sys_threads s ! i) \<longleftrightarrow> rw_writer_tid (sys_lock s) = i + 1)) \<and>
    ((\<forall>i < n. th_pc (sys_threads s ! i) = Idle \<and> \<not> th_writes (sys_threads s ! i) \<and> th_reads (sys_threads s ! i) = 0) \<longrightarrow>
       pthread_rwlock_destroy (sys_lock s) = 0)"
proof -
  let ?ts = "sys_threads s" and ?rw = "sys_lock s"
  have inv: "state_inv ?rw ?ts" "tid_inv ?rw ?ts" and len: "length ?ts = n"
    using rw_reach_inv [OF assms] by (simp_all add: rw_inv_def)
  have st: "rw_state ?rw = enc (0 < writers ?ts) (reads ?ts) (0 < pcnt (flagged Wr) ?ts) (0 < pcnt (flagged Rd) ?ts)"
    "reads ?ts < 2 ^ 29" "writers ?ts = 0 \<or> writers ?ts = 1 \<and> reads ?ts = 0"
    using inv(1) by (simp_all add: state_inv_def)
  have "state_owned_by_writer (rw_state ?rw) \<longleftrightarrow> writers ?ts = 1"
    unfolding st(1) enc_tests(1) [OF st(2)] using st(3) by auto
  moreover have "unat (rw_state ?rw) div 4 mod 2 ^ 29 = reads ?ts"
    unfolding st(1) unat_enc [OF st(2)] using st(2) by (cases "0 < writers ?ts") auto
  moreover have "th_writes (?ts ! i) \<longleftrightarrow> rw_writer_tid ?rw = i + 1" if "i < n" "th_pc (?ts ! i) = Idle" for i
  proof -
    have "tid_set (?ts ! i) \<longleftrightarrow> rw_writer_tid ?rw = i + 1"
      using inv(2) len that(1) by (simp add: tid_inv_def)
    then show ?thesis
      using that(2) by (simp add: tid_set_def)
  qed
  moreover have "pthread_rwlock_destroy ?rw = 0"
    if idle: "\<forall>i < n. th_pc (?ts ! i) = Idle \<and> \<not> th_writes (?ts ! i) \<and> th_reads (?ts ! i) = 0"
  proof -
    have all: "th_pc t = Idle" "\<not> th_writes t" "th_reads t = 0" if "t \<in> set ?ts" for t
      using idle that len by (auto simp: in_set_conv_nth)
    then have "cnt P ?ts = 0" if "\<And>t. th_pc t = Idle \<Longrightarrow> \<not> th_writes t \<Longrightarrow> \<not> P t" for P
      using cnt_pos [of P ?ts] that by auto
    then have "writers ?ts = 0" "pcnt (flagged sd) ?ts = 0" for sd
      by (simp_all add: writers_def)
    moreover have "reads ?ts = 0"
      using all(3) by (simp add: reads_def sum_list_eq_0_iff)
    ultimately have "rw_state ?rw = 0"
      using st(1) by (simp add: enc_def)
    then show ?thesis
      by (simp add: pthread_rwlock_destroy_def)
  qed
  ultimately show ?thesis
    using st(3) by blast
qed

theorem rwlock_exclusion_witness:
  "\<exists>s. sys_run handover_run (init_sys False 2) = Some s \<and> writers (sys_threads s) = 0 \<and>
    unat (rw_state (sys_lock s)) div 4 mod 2 ^ 29 = reads (sys_threads s)"
proof -
  have "case sys_run handover_run (init_sys False 2) of None \<Rightarrow> False | Some s \<Rightarrow> \<not> state_owned_by_writer (rw_state (sys_lock s))"
    by code_simp
  then obtain s where s: "sys_run handover_run (init_sys False 2) = Some s" "\<not> state_owned_by_writer (rw_state (sys_lock s))"
    by (auto split: option.splits)
  have "rw_reach False 2 (length handover_run + 0) s"
    by (rule sys_run_reach [OF s(1) rw_reach.init])
  from rwlock_exclusion [OF this] show ?thesis
    using s by auto
qed

text \<open>
  C15: No wake-up is lost if no call has a timeout. Whenever the lock is free and a thread sleeps on it,
  some thread is in the middle of a call and can take a step; so a thread never sleeps on a free lock
  that nobody else is using. The bound on the number of steps keeps the 32-bit wake-up serials from
  wrapping around.
\<close>

theorem rwlock_no_lost_wakeup:
  assumes "rw_reach_untimed wp n k s" "n < 2 ^ 32" "k < 2 ^ 32"
    "\<not> state_owned_by_readers_or_writer (rw_state (sys_lock s))" "i < n" "th_pc (sys_threads s ! i) = Asleep sd"
  shows "\<exists>j < n. active (th_pc (sys_threads s ! j)) \<and> (\<exists>ch s'. sys_step j ch s = Some s')"
proof -
  note inv = rw_reach_inv [OF untimed_reach [OF assms(1)] assms(2)]
  have "live (sys_lock s) (th_pc ` set (sys_threads s))" "free (sys_lock s)"
    using untimed_live [OF assms(1,2)] assms(3,4) by (simp_all add: live_inv_def free_def)
  moreover have "Asleep sd \<in> th_pc ` set (sys_threads s)"
    using assms(5,6) inv(2) by (metis image_eqI nth_mem)
  ultimately obtain p where "p \<in> th_pc ` set (sys_threads s)" "notifying p \<or> (\<exists>x. p = NotifyWake x) \<or> wawake p"
    using live_awake by blast
  then obtain j where j: "j < length (sys_threads s)" "p = th_pc (sys_threads s ! j)"
    by (auto simp: in_set_conv_nth)
  have "active p"
    using \<open>notifying p \<or> (\<exists>x. p = NotifyWake x) \<or> wawake p\<close> by (cases p) (auto simp: active_def wawake_def)
  then show ?thesis
    using progress [OF inv(1) j(1)] j(2) inv(2) by blast
qed

theorem rwlock_no_lost_wakeup_witness:
  "\<exists>s. sys_run handover_run (init_sys False 2) = Some s \<and> th_pc (sys_threads s ! 1) = Asleep Wr \<and>
    (\<exists>j < 2. active (th_pc (sys_threads s ! j)) \<and> (\<exists>ch s'. sys_step j ch s = Some s'))"
proof -
  have "case sys_run handover_run (init_sys False 2) of None \<Rightarrow> False
      | Some s \<Rightarrow> \<not> state_owned_by_readers_or_writer (rw_state (sys_lock s)) \<and> th_pc (sys_threads s ! 1) = Asleep Wr"
    by code_simp
  then obtain s where s: "sys_run handover_run (init_sys False 2) = Some s" "\<not> state_owned_by_readers_or_writer (rw_state (sys_lock s))"
    "th_pc (sys_threads s ! 1) = Asleep Wr"
    by (auto split: option.splits)
  have "list_all (\<lambda>x. untimed_choice (snd x)) handover_run"
    by code_simp
  then have "rw_reach_untimed False 2 (length handover_run + 0) s"
    by (rule sys_run_reach_untimed [OF s(1) _ rw_reach_untimed.init])
  from rwlock_no_lost_wakeup [OF this _ _ s(2) _ s(3)] show ?thesis
    using s by (simp add: handover_run_def)
qed

text \<open>
  C36: A timeout can lose a wake-up. In this run a writer times out just before the lock is released. The
  release counts it as a pending writer and wakes only writers; the writer gives up, and the reader that
  waits without a timeout stays asleep although the lock is free, nobody holds it and no call is in progress.
\<close>

theorem rwlock_timeout_loses_wakeup:
  "\<exists>s. rw_reach False 3 (length lost_wakeup_run) s \<and> \<not> state_owned_by_readers_or_writer (rw_state (sys_lock s)) \<and>
    map th_pc (sys_threads s) = [Idle, Idle, Asleep Rd] \<and> map th_result (sys_threads s) = [0, ETIMEDOUT, 0] \<and>
    map th_timeout (sys_threads s) ! 2 = None \<and> map th_reads (sys_threads s) = [0, 0, 0] \<and>
    map th_writes (sys_threads s) = [False, False, False]"
proof -
  have "case sys_run lost_wakeup_run (init_sys False 3) of None \<Rightarrow> False
      | Some s \<Rightarrow> \<not> state_owned_by_readers_or_writer (rw_state (sys_lock s)) \<and>
          map th_pc (sys_threads s) = [Idle, Idle, Asleep Rd] \<and> map th_result (sys_threads s) = [0, ETIMEDOUT, 0] \<and>
          map th_timeout (sys_threads s) ! 2 = None \<and> map th_reads (sys_threads s) = [0, 0, 0] \<and>
          map th_writes (sys_threads s) = [False, False, False]"
    by code_simp
  then obtain s where s: "sys_run lost_wakeup_run (init_sys False 3) = Some s"
    "\<not> state_owned_by_readers_or_writer (rw_state (sys_lock s)) \<and>
     map th_pc (sys_threads s) = [Idle, Idle, Asleep Rd] \<and> map th_result (sys_threads s) = [0, ETIMEDOUT, 0] \<and>
     map th_timeout (sys_threads s) ! 2 = None \<and> map th_reads (sys_threads s) = [0, 0, 0] \<and>
     map th_writes (sys_threads s) = [False, False, False]"
    by (auto split: option.splits)
  have "rw_reach False 3 (length lost_wakeup_run + 0) s"
    by (rule sys_run_reach [OF s(1) rw_reach.init])
  then show ?thesis
    using s(2) by (intro exI [of _ s]) simp
qed

end
