(* ===== verification/Semaphore.thy ===== *)
theory Semaphore
  imports Time_Conversions Interleaving
begin

text \<open>
  POSIX semaphores: libc/bionic/semaphore.cpp.

  Threads are interleaved at their accesses to \<open>sem->count\<close> and at the futex calls, as those of the
  read-write locks; the operations on the count are sequentially consistent in the code too. The fields
  \<open>sm_acquired\<close> and \<open>sm_posted\<close> of a thread count the waits and posts that took effect.
\<close>

section \<open>The counter\<close>

definition SEM_VALUE_MAX :: int where "SEM_VALUE_MAX = 0x3fffffff"
definition SEMCOUNT_SHARED_MASK :: u32 where "SEMCOUNT_SHARED_MASK = 0x00000001"
definition SEMCOUNT_VALUE_MASK :: u32 where "SEMCOUNT_VALUE_MASK = 0xfffffffe"

definition SEMCOUNT_FROM_VALUE :: "u32 \<Rightarrow> u32" where
  "SEMCOUNT_FROM_VALUE v = push_bit 1 v AND SEMCOUNT_VALUE_MASK"

definition SEMCOUNT_TO_VALUE :: "u32 \<Rightarrow> int" where
  "SEMCOUNT_TO_VALUE sval = sint sval div 2"

definition SEMCOUNT_ONE :: u32 where "SEMCOUNT_ONE = SEMCOUNT_FROM_VALUE 1"
definition SEMCOUNT_MINUS_ONE :: u32 where "SEMCOUNT_MINUS_ONE = SEMCOUNT_FROM_VALUE (NOT 0)"
definition SEMCOUNT_DECREMENT :: "u32 \<Rightarrow> u32" where "SEMCOUNT_DECREMENT sval = (sval - 2) AND SEMCOUNT_VALUE_MASK"
definition SEMCOUNT_INCREMENT :: "u32 \<Rightarrow> u32" where "SEMCOUNT_INCREMENT sval = (sval + 2) AND SEMCOUNT_VALUE_MASK"

definition SEM_GET_SHARED :: "u32 \<Rightarrow> u32" where
  "SEM_GET_SHARED count = count AND SEMCOUNT_SHARED_MASK"

definition EOVERFLOW :: int where "EOVERFLOW = 75"

text \<open>\<open>Inr\<close> of the initial count, or \<open>Inl\<close> of the error number.\<close>

definition sem_init :: "int \<Rightarrow> u32 \<Rightarrow> int + u32" where
  "sem_init pshared v =
     (if uint v > SEM_VALUE_MAX then Inl EINVAL
      else Inr (if pshared \<noteq> 0 then SEMCOUNT_FROM_VALUE v OR SEMCOUNT_SHARED_MASK else SEMCOUNT_FROM_VALUE v))"

definition sem_getvalue :: "u32 \<Rightarrow> int" where
  "sem_getvalue count = (let val = SEMCOUNT_TO_VALUE count in if val < 0 then 0 else val)"

section \<open>Threads\<close>

datatype sem_pc =
  SmIdle
| GetShared bool
| DecLoad bool u32
| DecLoop bool u32 u32 u32
| FutexWait bool u32
| SmAsleep bool u32
| TryDecLoad bool
| TryDecLoop bool u32 u32
| CheckTimespec
| PostShared
| IncLoad u32
| IncLoop u32 u32 u32
| WakeAll u32

text \<open>The flag of a program point tells the timed wait from the plain one; the first word is the caller's \<open>shared\<close>.\<close>

record sem_thread =
  sm_pc :: sem_pc
  sm_timeout :: "timespec option"
  sm_result :: int
  sm_errno :: int
  sm_acquired :: nat
  sm_posted :: nat

datatype sem_call = CallWait | CallTimedWait timespec | CallTryWait | CallPost

datatype sem_choice = SmGo | SmCasFails | SmTimedOut | SmInterrupted | SmCall sem_call

definition sm_return :: "int \<Rightarrow> int \<Rightarrow> sem_thread \<Rightarrow> sem_thread" where
  "sm_return r err t = t\<lparr>sm_pc := SmIdle, sm_result := r, sm_errno := err\<rparr>"

text \<open>The loop of \<open>__sem_dec\<close> with its caller: a positive old value is a wait that succeeds.\<close>

definition sem_dec_loop :: "sem_choice \<Rightarrow> bool \<Rightarrow> u32 \<Rightarrow> u32 \<Rightarrow> u32 \<Rightarrow> u32 \<Rightarrow> sem_thread \<Rightarrow> u32 \<times> sem_thread" where
  "sem_dec_loop ch timed sh old_value shared count t =
     (if SEMCOUNT_TO_VALUE old_value < 0 then (count, t\<lparr>sm_pc := FutexWait timed sh\<rparr>)
      else if count = old_value \<and> ch \<noteq> SmCasFails then
        (SEMCOUNT_DECREMENT old_value OR shared,
         if SEMCOUNT_TO_VALUE old_value > 0 then sm_return 0 (sm_errno t) (t\<lparr>sm_acquired := sm_acquired t + 1\<rparr>)
         else t\<lparr>sm_pc := FutexWait timed sh\<rparr>)
      else (count, t\<lparr>sm_pc := DecLoop timed sh count shared\<rparr>))"

definition sem_trydec_loop :: "sem_choice \<Rightarrow> bool \<Rightarrow> u32 \<Rightarrow> u32 \<Rightarrow> u32 \<Rightarrow> sem_thread \<Rightarrow> u32 \<times> sem_thread" where
  "sem_trydec_loop ch timed old_value shared count t =
     (if SEMCOUNT_TO_VALUE old_value \<le> 0
      then (count, if timed then t\<lparr>sm_pc := CheckTimespec\<rparr> else sm_return (-1) EAGAIN t)
      else if count = old_value \<and> ch \<noteq> SmCasFails
      then (SEMCOUNT_DECREMENT old_value OR shared, sm_return 0 (sm_errno t) (t\<lparr>sm_acquired := sm_acquired t + 1\<rparr>))
      else (count, t\<lparr>sm_pc := TryDecLoop timed count shared\<rparr>))"

definition sem_inc_loop :: "sem_choice \<Rightarrow> u32 \<Rightarrow> u32 \<Rightarrow> u32 \<Rightarrow> u32 \<Rightarrow> sem_thread \<Rightarrow> u32 \<times> sem_thread" where
  "sem_inc_loop ch sh old_value shared count t =
     (if SEMCOUNT_TO_VALUE old_value = SEM_VALUE_MAX then (count, sm_return (-1) EOVERFLOW t)
      else
        (let new_value = (if SEMCOUNT_TO_VALUE old_value < 0 then SEMCOUNT_ONE OR shared
                          else SEMCOUNT_INCREMENT old_value OR shared) in
         if count = old_value \<and> ch \<noteq> SmCasFails then
           (new_value,
            if SEMCOUNT_TO_VALUE old_value < 0 then t\<lparr>sm_posted := sm_posted t + 1, sm_pc := WakeAll sh\<rparr>
            else sm_return 0 (sm_errno t) (t\<lparr>sm_posted := sm_posted t + 1\<rparr>))
         else (count, t\<lparr>sm_pc := IncLoop sh count shared\<rparr>)))"

text \<open>How \<open>sem_wait\<close> and \<open>__sem_timedwait\<close> react to the result of the futex wait.\<close>

definition wait_returns :: "int \<Rightarrow> bool \<Rightarrow> u32 \<Rightarrow> int \<Rightarrow> sem_thread \<Rightarrow> sem_thread" where
  "wait_returns sdk timed sh result t =
     (if timed then
        (if result = - ETIMEDOUT \<or> result = - EINTR then sm_return (-1) (- result) t else t\<lparr>sm_pc := DecLoad timed sh\<rparr>)
      else
        (if sdk \<ge> 24 \<and> result = - EINTR then sm_return (-1) EINTR t else t\<lparr>sm_pc := DecLoad timed sh\<rparr>))"

text \<open>The futex wait sleeps only while the count is that of a contended semaphore.\<close>

definition sem_futex_wait :: "int \<Rightarrow> sem_choice \<Rightarrow> bool \<Rightarrow> u32 \<Rightarrow> u32 \<Rightarrow> sem_thread \<Rightarrow> sem_thread option" where
  "sem_futex_wait sdk ch timed sh count t =
     (if ch = SmTimedOut then (if timed then Some (wait_returns sdk timed sh (- ETIMEDOUT) t) else None)
      else if count = sh OR SEMCOUNT_MINUS_ONE then Some (t\<lparr>sm_pc := SmAsleep timed sh\<rparr>)
      else Some (wait_returns sdk timed sh (- EAGAIN) t))"

definition sem_asleep :: "int \<Rightarrow> sem_choice \<Rightarrow> bool \<Rightarrow> u32 \<Rightarrow> sem_thread \<Rightarrow> sem_thread option" where
  "sem_asleep sdk ch timed sh t =
     (case ch of
        SmTimedOut \<Rightarrow> if timed then Some (wait_returns sdk timed sh (- ETIMEDOUT) t) else None
      | SmInterrupted \<Rightarrow> Some (wait_returns sdk timed sh (- EINTR) t)
      | _ \<Rightarrow> None)"

definition sem_start :: "sem_call \<Rightarrow> sem_thread \<Rightarrow> sem_thread" where
  "sem_start c t =
     (case c of
        CallWait \<Rightarrow> t\<lparr>sm_pc := GetShared False\<rparr>
      | CallTimedWait ts \<Rightarrow> t\<lparr>sm_pc := TryDecLoad True, sm_timeout := Some ts\<rparr>
      | CallTryWait \<Rightarrow> t\<lparr>sm_pc := TryDecLoad False\<rparr>
      | CallPost \<Rightarrow> t\<lparr>sm_pc := PostShared\<rparr>)"

definition sem_clockwait :: "clockid \<Rightarrow> timespec \<Rightarrow> int + sem_call" where
  "sem_clockwait clock abs_timeout =
     (case clock of
        CLOCK_MONOTONIC \<Rightarrow> Inr (CallTimedWait abs_timeout)
      | CLOCK_REALTIME \<Rightarrow> Inr (CallTimedWait abs_timeout)
      | OtherClock _ \<Rightarrow> Inl EINVAL)"

fun sem_thread_step :: "int \<Rightarrow> sem_choice \<Rightarrow> sem_pc \<Rightarrow> u32 \<Rightarrow> sem_thread \<Rightarrow> (u32 \<times> sem_thread) option" where
  "sem_thread_step sdk ch SmIdle count t = (case ch of SmCall c \<Rightarrow> Some (count, sem_start c t) | _ \<Rightarrow> None)"
| "sem_thread_step sdk ch (GetShared timed) count t = Some (count, t\<lparr>sm_pc := DecLoad timed (SEM_GET_SHARED count)\<rparr>)"
| "sem_thread_step sdk ch (DecLoad timed sh) count t =
     Some (count, t\<lparr>sm_pc := DecLoop timed sh count (count AND SEMCOUNT_SHARED_MASK)\<rparr>)"
| "sem_thread_step sdk ch (DecLoop timed sh old shared) count t = Some (sem_dec_loop ch timed sh old shared count t)"
| "sem_thread_step sdk ch (FutexWait timed sh) count t = map_option (Pair count) (sem_futex_wait sdk ch timed sh count t)"
| "sem_thread_step sdk ch (SmAsleep timed sh) count t = map_option (Pair count) (sem_asleep sdk ch timed sh t)"
| "sem_thread_step sdk ch (TryDecLoad timed) count t =
     Some (count, t\<lparr>sm_pc := TryDecLoop timed count (count AND SEMCOUNT_SHARED_MASK)\<rparr>)"
| "sem_thread_step sdk ch (TryDecLoop timed old shared) count t = Some (sem_trydec_loop ch timed old shared count t)"
| "sem_thread_step sdk ch CheckTimespec count t =
     (case check_timespec (sm_timeout t) False of
        Ok r \<Rightarrow> Some (count, if r \<noteq> 0 then sm_return (-1) r t else t\<lparr>sm_pc := GetShared True\<rparr>)
      | _ \<Rightarrow> None)"
| "sem_thread_step sdk ch PostShared count t = Some (count, t\<lparr>sm_pc := IncLoad (SEM_GET_SHARED count)\<rparr>)"
| "sem_thread_step sdk ch (IncLoad sh) count t = Some (count, t\<lparr>sm_pc := IncLoop sh count (count AND SEMCOUNT_SHARED_MASK)\<rparr>)"
| "sem_thread_step sdk ch (IncLoop sh old shared) count t = Some (sem_inc_loop ch sh old shared count t)"
| "sem_thread_step sdk ch (WakeAll sh) count t = None"

section \<open>The system\<close>

record sem_sys =
  ss_count :: u32
  ss_threads :: "sem_thread list"

text \<open>The futex wake of \<open>sem_post\<close> wakes all waiters: their futex wait returns 0.\<close>

definition sem_woken :: "int \<Rightarrow> sem_thread \<Rightarrow> sem_thread" where
  "sem_woken sdk t = (case sm_pc t of SmAsleep timed sh \<Rightarrow> wait_returns sdk timed sh 0 t | _ \<Rightarrow> t)"

definition sem_step :: "int \<Rightarrow> nat \<Rightarrow> sem_choice \<Rightarrow> sem_sys \<Rightarrow> sem_sys option" where
  "sem_step sdk i ch s =
     (if i < length (ss_threads s) then
        (case sm_pc (ss_threads s ! i) of
           WakeAll sh \<Rightarrow>
             Some (s\<lparr>ss_threads := (map (sem_woken sdk) (ss_threads s))
                      [i := sm_return 0 (sm_errno (ss_threads s ! i)) (ss_threads s ! i)]\<rparr>)
         | _ \<Rightarrow>
             map_option (\<lambda>(c, t). s\<lparr>ss_count := c, ss_threads := (ss_threads s)[i := t]\<rparr>)
               (sem_thread_step sdk ch (sm_pc (ss_threads s ! i)) (ss_count s) (ss_threads s ! i)))
      else None)"

definition sem_idle :: sem_thread where
  "sem_idle = \<lparr>sm_pc = SmIdle, sm_timeout = None, sm_result = 0, sm_errno = 0, sm_acquired = 0, sm_posted = 0\<rparr>"

inductive sem_reach :: "int \<Rightarrow> u32 \<Rightarrow> nat \<Rightarrow> sem_sys \<Rightarrow> bool" for sdk c0 n where
  sem_init_state: "sem_reach sdk c0 n \<lparr>ss_count = c0, ss_threads = replicate n sem_idle\<rparr>"
| sem_reach_step: "sem_reach sdk c0 n s \<Longrightarrow> sem_step sdk i ch s = Some s' \<Longrightarrow> sem_reach sdk c0 n s'"

fun sem_run :: "int \<Rightarrow> (nat \<times> sem_choice) list \<Rightarrow> sem_sys \<Rightarrow> sem_sys option" where
  "sem_run sdk [] s = Some s"
| "sem_run sdk ((i, ch) # xs) s = (case sem_step sdk i ch s of None \<Rightarrow> None | Some s' \<Rightarrow> sem_run sdk xs s')"

section \<open>The encoding of the value\<close>

definition sem_enc :: "int \<Rightarrow> bool \<Rightarrow> u32" where
  "sem_enc v sh = word_of_int (2 * v + of_bool sh)"

lemma mask_int: "(2 * v + of_bool sh :: int) AND - 2 = 2 * v"
proof (rule bit_eqI)
  fix n
  have m: "bit (- 2 :: int) n \<longleftrightarrow> n \<noteq> 0"
    by (cases n) (simp_all add: bit_Suc bit_0)
  show "bit ((2 * v + of_bool sh) AND - 2) n \<longleftrightarrow> bit (2 * v) n"
    unfolding bit_and_iff m by (cases n) (simp_all add: bit_Suc bit_0)
qed

lemma value_mask: "word_of_int (2 * v + of_bool sh) AND SEMCOUNT_VALUE_MASK = word_of_int (2 * v)"
proof -
  have "SEMCOUNT_VALUE_MASK = word_of_int (- 2)"
    by (simp add: SEMCOUNT_VALUE_MASK_def)
  then show ?thesis
    by (metis mask_int of_int_and_eq)
qed

lemma or_shared: "word_of_int (2 * v) OR (of_bool sh :: u32) = sem_enc v sh"
proof -
  have "(2 * v :: int) OR of_bool sh = 2 * v + of_bool sh"
  proof (rule bit_eqI)
    fix n
    show "bit ((2 * v) OR of_bool sh) n \<longleftrightarrow> bit (2 * v + of_bool sh) n"
      unfolding bit_or_iff by (cases n) (simp_all add: bit_Suc bit_0)
  qed
  moreover have "(of_bool sh :: u32) = word_of_int (of_bool sh)"
    by simp
  ultimately show ?thesis
    unfolding sem_enc_def by (metis of_int_or_eq)
qed

lemma sem_enc_value:
  assumes "- 1 \<le> v" "v \<le> SEM_VALUE_MAX"
  shows "SEMCOUNT_TO_VALUE (sem_enc v sh) = v"
proof -
  have "sint (sem_enc v sh) = signed_take_bit 31 (2 * v + of_bool sh)"
    unfolding sem_enc_def signed_of_int by simp
  also have "\<dots> = 2 * v + of_bool sh"
    using assms by (intro signed_take_bit_int_eq_self) (simp_all add: SEM_VALUE_MAX_def)
  finally show ?thesis
    by (simp add: SEMCOUNT_TO_VALUE_def)
qed

lemma sem_enc_shared: "sem_enc v sh AND SEMCOUNT_SHARED_MASK = of_bool sh"
proof -
  have "(2 * v + of_bool sh :: int) AND 1 = of_bool sh"
    by (simp add: and_one_eq)
  then show ?thesis
    unfolding sem_enc_def SEMCOUNT_SHARED_MASK_def by (metis of_bool_eq(1,2) of_int_and_eq of_int_of_bool of_int_1)
qed

lemma sem_enc_dec: "SEMCOUNT_DECREMENT (sem_enc v sh) OR of_bool sh = sem_enc (v - 1) sh"
proof -
  have "sem_enc v sh - 2 = word_of_int (2 * (v - 1) + of_bool sh)"
    by (simp add: sem_enc_def algebra_simps)
  then show ?thesis
    unfolding SEMCOUNT_DECREMENT_def by (simp only: value_mask or_shared)
qed

lemma sem_enc_inc: "SEMCOUNT_INCREMENT (sem_enc v sh) OR of_bool sh = sem_enc (v + 1) sh"
proof -
  have "sem_enc v sh + 2 = word_of_int (2 * (v + 1) + of_bool sh)"
    by (simp add: sem_enc_def algebra_simps)
  then show ?thesis
    unfolding SEMCOUNT_INCREMENT_def by (simp only: value_mask or_shared)
qed

lemma sem_enc_consts: "SEMCOUNT_ONE OR of_bool sh = sem_enc 1 sh" "of_bool sh OR SEMCOUNT_MINUS_ONE = sem_enc (- 1) sh"
proof -
  have "SEMCOUNT_ONE = word_of_int (2 * 1)" "SEMCOUNT_MINUS_ONE = word_of_int (2 * (- 1))"
    by (simp_all add: SEMCOUNT_ONE_def SEMCOUNT_MINUS_ONE_def SEMCOUNT_FROM_VALUE_def SEMCOUNT_VALUE_MASK_def)
  then show "SEMCOUNT_ONE OR of_bool sh = sem_enc 1 sh" "of_bool sh OR SEMCOUNT_MINUS_ONE = sem_enc (- 1) sh"
    using or_shared [of 1 sh] or_shared [of "- 1" sh] by (simp_all add: or.commute)
qed

lemma sem_init_enc:
  assumes "uint v \<le> SEM_VALUE_MAX"
  shows "sem_init pshared v = Inr (sem_enc (uint v) (pshared \<noteq> 0))"
proof -
  have "push_bit 1 v = word_of_int (2 * uint v + of_bool False)"
    by (simp add: push_bit_eq_mult)
  then have "SEMCOUNT_FROM_VALUE v = word_of_int (2 * uint v)"
    unfolding SEMCOUNT_FROM_VALUE_def by (simp only: value_mask)
  then show ?thesis
    using assms or_shared [of "uint v" True] by (simp add: sem_init_def sem_enc_def SEMCOUNT_SHARED_MASK_def)
qed

end
