(* ===== verification/Semaphore_Spec.thy ===== *)
theory Semaphore_Spec
  imports Semaphore
begin

text \<open>
  What a semaphore guarantees: no wait succeeds that is not covered by the initial value and the posts,
  and no waiter sleeps on an available semaphore, timeouts and interrupts included.
\<close>

section \<open>One step\<close>

text \<open>The copies of the shared flag that a program point carries.\<close>

fun shared_ok :: "bool \<Rightarrow> sem_pc \<Rightarrow> bool" where
  "shared_ok b (DecLoad _ sh) = (sh = of_bool b)"
| "shared_ok b (DecLoop _ sh _ shared) = (sh = of_bool b \<and> shared = of_bool b)"
| "shared_ok b (FutexWait _ sh) = (sh = of_bool b)"
| "shared_ok b (SmAsleep _ sh) = (sh = of_bool b)"
| "shared_ok b (TryDecLoop _ _ shared) = (shared = of_bool b)"
| "shared_ok b (IncLoad sh) = (sh = of_bool b)"
| "shared_ok b (IncLoop sh _ shared) = (sh = of_bool b \<and> shared = of_bool b)"
| "shared_ok b (WakeAll sh) = (sh = of_bool b)"
| "shared_ok b _ = True"

fun is_asleep :: "sem_pc \<Rightarrow> bool" where
  "is_asleep (SmAsleep _ _) = True"
| "is_asleep _ = False"

fun is_waking :: "sem_pc \<Rightarrow> bool" where
  "is_waking (WakeAll _) = True"
| "is_waking _ = False"

lemmas sem_defs = sem_start_def sm_return_def wait_returns_def sem_futex_wait_def sem_asleep_def SEM_GET_SHARED_def

text \<open>The effect of a step on the value: what is taken and what is given, and who sleeps and wakes.\<close>

definition step_ok :: "bool \<Rightarrow> int \<Rightarrow> sem_thread \<Rightarrow> u32 \<Rightarrow> sem_thread \<Rightarrow> bool" where
  "step_ok b v t c' t' \<longleftrightarrow> (\<exists>v'. c' = sem_enc v' b \<and> - 1 \<le> v' \<and> v' \<le> SEM_VALUE_MAX \<and>
     int (sm_acquired t') + max v' 0 + int (sm_posted t) = int (sm_acquired t) + max v 0 + int (sm_posted t') \<and>
     shared_ok b (sm_pc t') \<and> (is_asleep (sm_pc t') \<longrightarrow> v' = - 1) \<and> (0 \<le> v' \<longrightarrow> v < 0 \<longrightarrow> is_waking (sm_pc t')))"

lemma step_ok_same:
  "- 1 \<le> v \<Longrightarrow> v \<le> SEM_VALUE_MAX \<Longrightarrow> sm_acquired t' = sm_acquired t \<Longrightarrow> sm_posted t' = sm_posted t \<Longrightarrow>
   shared_ok b (sm_pc t') \<Longrightarrow> (is_asleep (sm_pc t') \<Longrightarrow> v = - 1) \<Longrightarrow> step_ok b v t (sem_enc v b) t'"
  unfolding step_ok_def by (rule exI [of _ v]) simp

lemma dec_loop_ok:
  assumes "- 1 \<le> v" "v \<le> SEM_VALUE_MAX" "sem_dec_loop ch timed (of_bool b) old (of_bool b) (sem_enc v b) t = (c', t')"
  shows "step_ok b v t c' t'"
proof (cases "0 \<le> SEMCOUNT_TO_VALUE old \<and> sem_enc v b = old \<and> ch \<noteq> SmCasFails")
  case True
  then have v: "0 \<le> v" and old: "SEMCOUNT_TO_VALUE old = v"
    using sem_enc_value [OF assms(1,2), of b] by auto
  have "c' = sem_enc (v - 1) b"
    using True assms(3) sem_enc_dec [of v b] by (auto simp: sem_dec_loop_def)
  then show ?thesis
    using True assms v old unfolding step_ok_def
    by - (rule exI [of _ "v - 1"], auto simp: sem_dec_loop_def sm_return_def split: if_splits)
next
  case False
  then show ?thesis
    using assms by (auto simp: sem_dec_loop_def intro!: step_ok_same split: if_splits)
qed

lemma trydec_loop_ok:
  assumes "- 1 \<le> v" "v \<le> SEM_VALUE_MAX" "sem_trydec_loop ch timed old (of_bool b) (sem_enc v b) t = (c', t')"
  shows "step_ok b v t c' t'"
proof (cases "0 < SEMCOUNT_TO_VALUE old \<and> sem_enc v b = old \<and> ch \<noteq> SmCasFails")
  case True
  then have v: "0 < v"
    using sem_enc_value [OF assms(1,2), of b] by auto
  have "c' = sem_enc (v - 1) b"
    using True assms(3) sem_enc_dec [of v b] by (auto simp: sem_trydec_loop_def)
  then show ?thesis
    using True assms v unfolding step_ok_def
    by - (rule exI [of _ "v - 1"], auto simp: sem_trydec_loop_def sm_return_def split: if_splits)
next
  case False
  then show ?thesis
    using assms by (auto simp: sem_trydec_loop_def sm_return_def intro!: step_ok_same split: if_splits)
qed

lemma inc_loop_ok:
  assumes "- 1 \<le> v" "v \<le> SEM_VALUE_MAX" "sem_inc_loop ch (of_bool b) old (of_bool b) (sem_enc v b) t = (c', t')"
  shows "step_ok b v t c' t'"
proof (cases "SEMCOUNT_TO_VALUE old \<noteq> SEM_VALUE_MAX \<and> sem_enc v b = old \<and> ch \<noteq> SmCasFails")
  case True
  then have old: "SEMCOUNT_TO_VALUE old = v" and v: "v < SEM_VALUE_MAX"
    using sem_enc_value [OF assms(1,2), of b] assms(2) by auto
  show ?thesis
  proof (cases "v < 0")
    case neg: True
    have "c' = sem_enc 1 b" "t' = t\<lparr>sm_posted := sm_posted t + 1, sm_pc := WakeAll (of_bool b)\<rparr>"
      using True neg old assms(3) sem_enc_consts(1) [of b] by (auto simp: sem_inc_loop_def)
    then show ?thesis
      using neg unfolding step_ok_def by - (rule exI [of _ 1], simp add: SEM_VALUE_MAX_def)
  next
    case False
    have "c' = sem_enc (v + 1) b" "t' = sm_return 0 (sm_errno t) (t\<lparr>sm_posted := sm_posted t + 1\<rparr>)"
      using True False old assms(3) sem_enc_inc [of v b] by (auto simp: sem_inc_loop_def)
    then show ?thesis
      using False v unfolding step_ok_def by - (rule exI [of _ "v + 1"], simp add: sm_return_def)
  qed
next
  case False
  then show ?thesis
    using assms by (auto simp: sem_inc_loop_def sm_return_def Let_def intro!: step_ok_same split: if_splits)
qed

lemma futex_wait_keeps:
  assumes "sem_futex_wait sdk ch timed sh count t = Some u" "sh = of_bool b"
  shows "sm_acquired u = sm_acquired t" "sm_posted u = sm_posted t" "shared_ok b (sm_pc u)"
    "is_asleep (sm_pc u) \<Longrightarrow> count = sh OR SEMCOUNT_MINUS_ONE"
  using assms by (simp_all add: sem_futex_wait_def wait_returns_def sm_return_def split: if_splits)
    (auto simp: sem_futex_wait_def)

lemma contended_value:
  assumes "- 1 \<le> v" "v \<le> SEM_VALUE_MAX" "sem_enc v b = of_bool b OR SEMCOUNT_MINUS_ONE"
  shows "v = - 1"
proof -
  have "SEMCOUNT_TO_VALUE (sem_enc (- 1) b) = - 1"
    by (rule sem_enc_value) (simp_all add: SEM_VALUE_MAX_def)
  then show ?thesis
    using sem_enc_value [OF assms(1,2), of b] assms(3) unfolding sem_enc_consts by simp
qed

lemma sem_thread_step_ok:
  assumes "- 1 \<le> v" "v \<le> SEM_VALUE_MAX" "shared_ok b (sm_pc t)"
    "sem_thread_step sdk ch (sm_pc t) (sem_enc v b) t = Some (c', t')"
  shows "step_ok b v t c' t'"
proof (cases "sm_pc t")
  case (DecLoop timed sh old shared)
  then show ?thesis using assms dec_loop_ok by simp
next
  case (TryDecLoop timed old shared)
  then show ?thesis using assms trydec_loop_ok by simp
next
  case (IncLoop sh old shared)
  then show ?thesis using assms inc_loop_ok by simp
next
  case (FutexWait timed sh)
  have sh: "sh = of_bool b"
    using assms(3) unfolding FutexWait by simp
  have "map_option (Pair (sem_enc v b)) (sem_futex_wait sdk ch timed sh (sem_enc v b) t) = Some (c', t')"
    using assms(4) unfolding FutexWait by (simp only: sem_thread_step.simps)
  then have c: "c' = sem_enc v b" and u: "sem_futex_wait sdk ch timed sh (sem_enc v b) t = Some t'"
    by (cases "sem_futex_wait sdk ch timed sh (sem_enc v b) t"; simp)+
  show ?thesis
    unfolding c by (rule step_ok_same [OF assms(1,2) futex_wait_keeps(1-3) [OF u sh] contended_value [OF assms(1,2)]])
      (use futex_wait_keeps(4) [OF u sh] sh in simp)
next
  case (SmAsleep timed sh)
  then show ?thesis
    using assms by (auto simp: sem_defs errno_defs intro!: step_ok_same split: if_splits sem_choice.splits)
next
  case SmIdle
  then show ?thesis
    using assms by (auto simp: sem_defs intro!: step_ok_same split: if_splits sem_choice.splits sem_call.splits)
next
  case CheckTimespec
  then show ?thesis
    using assms by (auto simp: sem_defs intro!: step_ok_same split: if_splits res.splits)
qed (use assms in \<open>auto simp: sem_defs sem_enc_shared intro!: step_ok_same\<close>)

section \<open>The invariant\<close>

definition acquired :: "sem_thread list \<Rightarrow> nat" where "acquired ts = sum_list (map sm_acquired ts)"
definition posted :: "sem_thread list \<Rightarrow> nat" where "posted ts = sum_list (map sm_posted ts)"

definition sem_inv :: "bool \<Rightarrow> int \<Rightarrow> sem_sys \<Rightarrow> bool" where
  "sem_inv b v0 s \<longleftrightarrow> (\<exists>v. ss_count s = sem_enc v b \<and> - 1 \<le> v \<and> v \<le> SEM_VALUE_MAX \<and>
     int (acquired (ss_threads s)) + max v 0 = v0 + int (posted (ss_threads s)) \<and>
     (\<forall>t \<in> set (ss_threads s). shared_ok b (sm_pc t)) \<and>
     (0 \<le> v \<longrightarrow> (\<exists>t \<in> set (ss_threads s). is_asleep (sm_pc t)) \<longrightarrow> (\<exists>t \<in> set (ss_threads s). is_waking (sm_pc t))))"

lemma sem_init_inv:
  assumes "0 \<le> v" "v \<le> SEM_VALUE_MAX"
  shows "sem_inv b v \<lparr>ss_count = sem_enc v b, ss_threads = replicate n sem_idle\<rparr>"
  using assms unfolding sem_inv_def
  by - (rule exI [of _ v], auto simp: acquired_def posted_def sem_idle_def sum_list_replicate)

lemma woken_keeps:
  "sm_acquired (sem_woken sdk t) = sm_acquired t" "sm_posted (sem_woken sdk t) = sm_posted t"
  "shared_ok b (sm_pc t) \<Longrightarrow> shared_ok b (sm_pc (sem_woken sdk t))" "\<not> is_asleep (sm_pc (sem_woken sdk t))"
  by (cases "sm_pc t"; simp add: sem_woken_def wait_returns_def errno_defs)+

lemma sem_stepE:
  assumes "sem_step sdk i ch s = Some s'"
  obtains (moved) c t where "i < length (ss_threads s)" "\<not> is_waking (sm_pc (ss_threads s ! i))"
      "sem_thread_step sdk ch (sm_pc (ss_threads s ! i)) (ss_count s) (ss_threads s ! i) = Some (c, t)"
      "s' = s\<lparr>ss_count := c, ss_threads := (ss_threads s)[i := t]\<rparr>"
  | (woke) sh where "i < length (ss_threads s)" "sm_pc (ss_threads s ! i) = WakeAll sh"
      "s' = s\<lparr>ss_threads := (map (sem_woken sdk) (ss_threads s))[i := sm_return 0 (sm_errno (ss_threads s ! i)) (ss_threads s ! i)]\<rparr>"
  using assms by (cases "sm_pc (ss_threads s ! i)") (auto simp: sem_step_def split: if_splits prod.splits)

lemma sem_inv_step:
  assumes "sem_inv b v0 s" "sem_step sdk i ch s = Some s'"
  shows "sem_inv b v0 s'"
proof -
  let ?ts = "ss_threads s"
  obtain v where v: "ss_count s = sem_enc v b" "- 1 \<le> v" "v \<le> SEM_VALUE_MAX"
    "int (acquired ?ts) + max v 0 = v0 + int (posted ?ts)" "\<forall>t \<in> set ?ts. shared_ok b (sm_pc t)"
    "0 \<le> v \<longrightarrow> (\<exists>t \<in> set ?ts. is_asleep (sm_pc t)) \<longrightarrow> (\<exists>t \<in> set ?ts. is_waking (sm_pc t))"
    using assms(1) unfolding sem_inv_def by blast
  from assms(2) show ?thesis
  proof (cases rule: sem_stepE)
    case (moved c t)
    let ?t = "?ts ! i" and ?os = "others i ?ts"
    have ts: "set ?ts = insert ?t (set ?os)" "set (?ts[i := t]) = insert t (set ?os)"
      using set_update_others [OF moved(1), of ?t] set_update_others [OF moved(1), of t] by simp_all
    have sums: "acquired ?ts = sm_acquired ?t + acquired ?os" "posted ?ts = sm_posted ?t + posted ?os"
      "acquired (?ts[i := t]) = sm_acquired t + acquired ?os" "posted (?ts[i := t]) = sm_posted t + posted ?os"
      using sum_split [of i ?ts] sum_split [of i "?ts[i := t]"] moved(1) by (simp_all add: acquired_def posted_def)
    have "step_ok b v ?t c t"
      using sem_thread_step_ok [OF v(2,3) _ moved(3) [unfolded v(1)]] v(5) moved(1) by simp
    then obtain v' where v': "c = sem_enc v' b" "- 1 \<le> v'" "v' \<le> SEM_VALUE_MAX"
      "int (sm_acquired t) + max v' 0 + int (sm_posted ?t) = int (sm_acquired ?t) + max v 0 + int (sm_posted t)"
      "shared_ok b (sm_pc t)" "is_asleep (sm_pc t) \<longrightarrow> v' = - 1" "0 \<le> v' \<longrightarrow> v < 0 \<longrightarrow> is_waking (sm_pc t)"
      unfolding step_ok_def by blast
    have "int (acquired (?ts[i := t])) + max v' 0 = v0 + int (posted (?ts[i := t]))"
      using v(4) v'(4) sums by linarith
    moreover have "\<exists>u \<in> insert t (set ?os). is_waking (sm_pc u)" if "0 \<le> v'" "\<exists>u \<in> insert t (set ?os). is_asleep (sm_pc u)"
    proof (cases "v < 0")
      case True
      then show ?thesis using v'(7) that(1) by blast
    next
      case False
      have "\<exists>u \<in> set ?os. is_asleep (sm_pc u)"
        using that v'(6) by auto
      then have "\<exists>u \<in> insert ?t (set ?os). is_waking (sm_pc u)"
        using v(6) False ts(1) by auto
      then show ?thesis using moved(2) by blast
    qed
    ultimately show ?thesis
      using v' v(5) ts moved(4) unfolding sem_inv_def by - (rule exI [of _ v'], simp)
  next
    case (woke sh)
    let ?us = "(map (sem_woken sdk) ?ts)[i := sm_return 0 (sm_errno (?ts ! i)) (?ts ! i)]"
    have os: "others i (map (sem_woken sdk) ?ts) = map (sem_woken sdk) (others i ?ts)"
      by (simp add: others_def take_map drop_map)
    have us: "set ?us = insert (sm_return 0 (sm_errno (?ts ! i)) (?ts ! i)) (sem_woken sdk ` set (others i ?ts))"
      using set_update_others [of i "map (sem_woken sdk) ?ts"] woke(1) os by simp
    have "acquired ?us = acquired ?ts" "posted ?us = posted ?ts"
      using sum_split [of i ?us] sum_split [of i ?ts] woke(1) os
      by (simp_all add: acquired_def posted_def sm_return_def woken_keeps o_def)
    moreover have "\<not> is_asleep (sm_pc u) \<and> shared_ok b (sm_pc u)" if "u \<in> set ?us" for u
    proof -
      have "set ?ts = insert (?ts ! i) (set (others i ?ts))"
        using set_update_others [OF woke(1), of "?ts ! i"] by simp
      then show ?thesis
        using that v(5) unfolding us by (auto simp: sm_return_def woken_keeps)
    qed
    ultimately show ?thesis
      using v woke(3) unfolding sem_inv_def by - (rule exI [of _ v], auto)
  qed
qed

lemma sem_reach_inv: "sem_reach sdk (sem_enc v0 b) n s \<Longrightarrow> 0 \<le> v0 \<Longrightarrow> v0 \<le> SEM_VALUE_MAX \<Longrightarrow> sem_inv b v0 s"
  by (induction rule: sem_reach.induct) (auto intro: sem_init_inv sem_inv_step)

lemma sem_run_reach: "sem_run sdk xs s = Some s' \<Longrightarrow> sem_reach sdk c0 n s \<Longrightarrow> sem_reach sdk c0 n s'"
  by (induction sdk xs s rule: sem_run.induct) (auto intro: sem_reach_step split: option.splits)

lemma sem_init_range: "sem_init pshared v = Inr c0 \<Longrightarrow> uint v \<le> SEM_VALUE_MAX"
  by (auto simp: sem_init_def split: if_splits)

lemma sem_init_reach_inv:
  assumes "sem_init pshared v = Inr c0" "sem_reach sdk c0 n s"
  shows "sem_inv (pshared \<noteq> 0) (uint v) s"
  using sem_reach_inv [of sdk "uint v" "pshared \<noteq> 0" n s] sem_init_enc [OF sem_init_range [OF assms(1)], of pshared]
    sem_init_range [OF assms(1)] assms by simp

section \<open>Properties\<close>

text \<open>A wait that goes to sleep, and a post that has not yet woken it.\<close>

definition post_run :: "(nat \<times> sem_choice) list" where
  "post_run = (0, SmCall CallWait) # replicate 4 (0, SmGo) @ (1, SmCall CallPost) # replicate 3 (1, SmGo)"

text \<open>
  C16: A semaphore never gives out more than it has. From \<open>sem_init\<close> with an initial value, under every
  interleaving of waits, timed waits, tries and posts, the number of waits that succeeded and the value
  that \<open>sem_getvalue\<close> reports always add up to the initial value and the number of posts that succeeded.
\<close>

theorem semaphore_conserves:
  assumes "sem_init pshared v = Inr c0" "sem_reach sdk c0 n s"
  shows "int (acquired (ss_threads s)) + sem_getvalue (ss_count s) = uint v + int (posted (ss_threads s))"
proof -
  obtain w where w: "ss_count s = sem_enc w (pshared \<noteq> 0)" "- 1 \<le> w" "w \<le> SEM_VALUE_MAX"
    "int (acquired (ss_threads s)) + max w 0 = uint v + int (posted (ss_threads s))"
    using sem_init_reach_inv [OF assms(1,2)] unfolding sem_inv_def by auto
  have "sem_getvalue (ss_count s) = max w 0"
    using sem_enc_value [OF w(2,3)] w(1) by (simp add: sem_getvalue_def Let_def)
  then show ?thesis
    using w(4) by simp
qed

theorem semaphore_conserves_witness:
  "\<exists>s. sem_run 35 post_run \<lparr>ss_count = 0, ss_threads = replicate 2 sem_idle\<rparr> = Some s \<and>
    int (acquired (ss_threads s)) + sem_getvalue (ss_count s) = int (posted (ss_threads s)) \<and> posted (ss_threads s) = 1"
proof -
  have "case sem_run 35 post_run \<lparr>ss_count = 0, ss_threads = replicate 2 sem_idle\<rparr> of None \<Rightarrow> False
      | Some s \<Rightarrow> posted (ss_threads s) = 1"
    by code_simp
  then obtain s where s: "sem_run 35 post_run \<lparr>ss_count = 0, ss_threads = replicate 2 sem_idle\<rparr> = Some s" "posted (ss_threads s) = 1"
    by (auto split: option.splits)
  have "sem_init 0 0 = Inr 0"
    by code_simp
  then show ?thesis
    using semaphore_conserves [OF _ sem_run_reach [OF s(1) sem_init_state], of 0 0] s by auto
qed

text \<open>
  C18: The count of a semaphore stays a valid encoding: under every interleaving its value is between -1 and
  \<open>SEM_VALUE_MAX\<close>, it has neither wrapped nor gone below the mark of contention, and its lowest bit is the
  sharing that \<open>sem_init\<close> set.
\<close>

theorem semaphore_count_valid:
  assumes "sem_init pshared v = Inr c0" "sem_reach sdk c0 n s"
  shows "- 1 \<le> SEMCOUNT_TO_VALUE (ss_count s) \<and> SEMCOUNT_TO_VALUE (ss_count s) \<le> SEM_VALUE_MAX \<and>
    SEM_GET_SHARED (ss_count s) = of_bool (pshared \<noteq> 0)"
proof -
  obtain w where "ss_count s = sem_enc w (pshared \<noteq> 0)" "- 1 \<le> w" "w \<le> SEM_VALUE_MAX"
    using sem_init_reach_inv [OF assms] unfolding sem_inv_def by auto
  then show ?thesis
    using sem_enc_value [of w] sem_enc_shared by (simp add: SEM_GET_SHARED_def)
qed

theorem semaphore_count_valid_witness:
  "\<exists>s. sem_run 35 post_run \<lparr>ss_count = 0, ss_threads = replicate 2 sem_idle\<rparr> = Some s \<and>
    SEMCOUNT_TO_VALUE (ss_count s) \<le> SEM_VALUE_MAX \<and> SEM_GET_SHARED (ss_count s) = 0"
proof -
  have "sem_run 35 post_run \<lparr>ss_count = 0, ss_threads = replicate 2 sem_idle\<rparr> \<noteq> None"
    by code_simp
  then obtain s where s: "sem_run 35 post_run \<lparr>ss_count = 0, ss_threads = replicate 2 sem_idle\<rparr> = Some s"
    by auto
  have "sem_init 0 0 = Inr 0"
    by code_simp
  then show ?thesis
    using semaphore_count_valid [OF _ sem_run_reach [OF s sem_init_state], of 0 0] s by auto
qed

text \<open>
  C17: No wake-up of a semaphore is lost, whatever timeouts and interrupts happen: if a thread sleeps while
  the semaphore is not contended, in particular while it is available, some thread is about to wake all
  sleepers, and its next step does so.
\<close>

theorem semaphore_no_lost_wakeup:
  assumes "sem_init pshared v = Inr c0" "sem_reach sdk c0 n s" "0 \<le> SEMCOUNT_TO_VALUE (ss_count s)"
    "t \<in> set (ss_threads s)" "is_asleep (sm_pc t)"
  shows "\<exists>i s'. sem_step sdk i SmGo s = Some s' \<and> (\<forall>u \<in> set (ss_threads s'). \<not> is_asleep (sm_pc u))"
proof -
  obtain w where w: "ss_count s = sem_enc w (pshared \<noteq> 0)" "- 1 \<le> w" "w \<le> SEM_VALUE_MAX"
    "0 \<le> w \<longrightarrow> (\<exists>t \<in> set (ss_threads s). is_asleep (sm_pc t)) \<longrightarrow> (\<exists>t \<in> set (ss_threads s). is_waking (sm_pc t))"
    using sem_init_reach_inv [OF assms(1,2)] unfolding sem_inv_def by auto
  have "0 \<le> w"
    using sem_enc_value [OF w(2,3), of "pshared \<noteq> 0"] assms(3) w(1) by simp
  then obtain u where "u \<in> set (ss_threads s)" "is_waking (sm_pc u)"
    using w(4) assms(4,5) by blast
  then obtain i sh where i: "i < length (ss_threads s)" "sm_pc (ss_threads s ! i) = WakeAll sh"
    by (auto simp: in_set_conv_nth elim: is_waking.elims)
  let ?us = "(map (sem_woken sdk) (ss_threads s))[i := sm_return 0 (sm_errno (ss_threads s ! i)) (ss_threads s ! i)]"
  have "sem_step sdk i SmGo s = Some (s\<lparr>ss_threads := ?us\<rparr>)"
    using i by (simp add: sem_step_def)
  moreover have "\<not> is_asleep (sm_pc u)" if "u \<in> set ?us" for u
    using that by (auto simp: sm_return_def woken_keeps dest!: subsetD [OF set_update_subset_insert])
  ultimately show ?thesis
    by (intro exI [of _ i] exI [of _ "s\<lparr>ss_threads := ?us\<rparr>"]) simp
qed

theorem semaphore_no_lost_wakeup_witness:
  "\<exists>s. sem_run 35 post_run \<lparr>ss_count = 0, ss_threads = replicate 2 sem_idle\<rparr> = Some s \<and> is_asleep (sm_pc (ss_threads s ! 0)) \<and>
    (\<exists>i s'. sem_step 35 i SmGo s = Some s' \<and> (\<forall>u \<in> set (ss_threads s'). \<not> is_asleep (sm_pc u)))"
proof -
  have "case sem_run 35 post_run \<lparr>ss_count = 0, ss_threads = replicate 2 sem_idle\<rparr> of None \<Rightarrow> False
      | Some s \<Rightarrow> 0 \<le> SEMCOUNT_TO_VALUE (ss_count s) \<and> is_asleep (sm_pc (ss_threads s ! 0)) \<and> length (ss_threads s) = 2"
    by code_simp
  then obtain s where s: "sem_run 35 post_run \<lparr>ss_count = 0, ss_threads = replicate 2 sem_idle\<rparr> = Some s"
    "0 \<le> SEMCOUNT_TO_VALUE (ss_count s)" "is_asleep (sm_pc (ss_threads s ! 0))" "length (ss_threads s) = 2"
    by (auto split: option.splits)
  have "sem_init 0 0 = Inr 0"
    by code_simp
  then show ?thesis
    using semaphore_no_lost_wakeup [OF _ sem_run_reach [OF s(1) sem_init_state] s(2) _ s(3), of 0 0] s by auto
qed

end
