(* ===== verification/Linker_Leb128.thy ===== *)
theory Linker_Leb128
  imports Bionic_Prelude
begin

text \<open>
  LEB128 integers and the relocation tables that use them: linker/linker_sleb128.h. Integers of type
  \<open>size_t\<close> have 64 bits, as on every LP64 target.

  A decoder is the list of the bytes from \<open>current_\<close> to \<open>end_\<close>. Running out of bytes is fatal. The code
  shifts by a growing count that it does not bound; a shift by 64 or more is undefined.
\<close>

section \<open>Decoding\<close>

fun leb128_loop :: "u8 list \<Rightarrow> u64 \<Rightarrow> nat \<Rightarrow> (u64 \<times> nat \<times> u8 \<times> u8 list) res" where
  "leb128_loop [] v shift = Abort"
| "leb128_loop (byte # current) v shift =
     (if 64 \<le> shift then Undef
      else let v' = v OR push_bit shift (ucast (byte AND 127)) in
        if byte AND 128 \<noteq> 0 then leb128_loop current v' (shift + 7) else Ok (v', shift + 7, byte, current))"

definition sleb128_pop_front :: "u8 list \<Rightarrow> (u64 \<times> u8 list) res" where
  "sleb128_pop_front current =
     res_bind (leb128_loop current 0 0) (\<lambda>(v, shift, byte, current').
       Ok (if shift < 64 \<and> byte AND 64 \<noteq> 0 then v OR - push_bit shift 1 else v, current'))"

definition uleb128_pop_front :: "u8 list \<Rightarrow> (u64 \<times> u8 list) res" where
  "uleb128_pop_front current = res_bind (leb128_loop current 0 0) (\<lambda>(v, shift, byte, current'). Ok (v, current'))"

section \<open>Encoding\<close>

text \<open>The encoding of the DWARF standard, least significant group of seven bits first.\<close>

function sleb128 :: "int \<Rightarrow> u8 list" where
  "sleb128 i =
     (let b = i mod 128; r = i div 128 in
      if (r = 0 \<and> b < 64) \<or> (r = - 1 \<and> 64 \<le> b) then [word_of_int b] else word_of_int (b + 128) # sleb128 r)"
  by auto
termination
proof (relation "measure (\<lambda>i. nat \<bar>i\<bar>)")
  fix i b r :: int
  assume "b = i mod 128" "r = i div 128" "\<not> ((r = 0 \<and> b < 64) \<or> (r = - 1 \<and> 64 \<le> b))"
  moreover have "i = 128 * r + b" "0 \<le> b" "b < 128"
    using calculation by simp_all
  ultimately have "\<bar>r\<bar> < \<bar>i\<bar>"
    by arith
  then show "(r, i) \<in> measure (\<lambda>i. nat \<bar>i\<bar>)"
    by simp
qed simp

declare sleb128.simps [simp del]

fun uleb128 :: "nat \<Rightarrow> u8 list" where
  "uleb128 n = (if n < 128 then [of_nat n] else of_nat (n mod 128 + 128) # uleb128 (n div 128))"

declare uleb128.simps [simp del]

section \<open>Round trips\<close>

text \<open>A group of seven bits, put above the bits read so far.\<close>

lemma byte_bits:
  assumes "0 \<le> b" "b < 128"
  shows "(word_of_int b :: u8) AND 127 = word_of_int b" "(word_of_int (b + 128) :: u8) AND 127 = word_of_int b"
    "(word_of_int b :: u8) AND 128 = 0" "(word_of_int (b + 128) :: u8) AND 128 \<noteq> 0"
    "(word_of_int b :: u8) AND 64 \<noteq> 0 \<longleftrightarrow> 64 \<le> b"
proof -
  have "\<forall>b \<in> {0..<128::int}. (word_of_int b :: u8) AND 127 = word_of_int b \<and> (word_of_int (b + 128) :: u8) AND 127 = word_of_int b \<and>
    (word_of_int b :: u8) AND 128 = 0 \<and> (word_of_int (b + 128) :: u8) AND 128 \<noteq> 0 \<and> ((word_of_int b :: u8) AND 64 \<noteq> 0 \<longleftrightarrow> 64 \<le> b)"
    by code_simp
  then show "(word_of_int b :: u8) AND 127 = word_of_int b" "(word_of_int (b + 128) :: u8) AND 127 = word_of_int b"
    "(word_of_int b :: u8) AND 128 = 0" "(word_of_int (b + 128) :: u8) AND 128 \<noteq> 0"
    "(word_of_int b :: u8) AND 64 \<noteq> 0 \<longleftrightarrow> 64 \<le> b"
    using assms by simp_all
qed

lemma or_disjoint_add:
  fixes v w :: "'a::len word"
  assumes "take_bit s v = v"
  shows "v OR push_bit s w = v + push_bit s w"
proof -
  have "v AND push_bit s w = 0"
    by (rule bit_word_eqI) (metis (no_types, lifting) assms bit_and_iff bit_push_bit_iff bit_take_bit_iff bit_0_eq bot_apply not_less bot_bool_def)
  then show ?thesis
    by (simp add: disjunctive_add_eq_or)
qed

lemma leb_group:
  fixes v :: u64
  assumes "take_bit s v = v" "0 \<le> b" "b < 128"
  shows "v OR push_bit s (ucast (word_of_int b :: u8)) = v + word_of_int (2 ^ s * b)" (is "?l = ?r")
proof -
  have "ucast (word_of_int b :: u8) = (word_of_int b :: u64)"
  proof -
    have "uint (word_of_int b :: u8) = b"
      using assms(2,3) by (simp add: uint_word_of_int)
    then show ?thesis
      by (metis of_int_uint)
  qed
  moreover have "push_bit s (word_of_int b :: u64) = word_of_int (2 ^ s * b)"
    by (simp add: push_bit_eq_mult mult.commute)
  ultimately show ?thesis
    using or_disjoint_add [OF assms(1), of "ucast (word_of_int b :: u8)"] by (simp only:)
qed

lemma leb_group_range:
  assumes "take_bit s v = v" "0 \<le> b" "b < 128" "s + 7 < 64"
  shows "take_bit (s + 7) (v + word_of_int (2 ^ s * b)) = (v + word_of_int (2 ^ s * b) :: u64)"
proof -
  have u: "uint v < 2 ^ s"
    using assms(1,4) by (metis take_bit_int_less_exp unsigned_take_bit_eq)
  moreover have "2 ^ s * b \<le> 2 ^ s * 127"
    using assms(3) by simp
  moreover have "(2::int) ^ (s + 7) = 2 ^ s * 128"
    by (simp add: power_add)
  ultimately have sum: "uint v + 2 ^ s * b < 2 ^ (s + 7)"
    by linarith
  have "(2::int) ^ (s + 7) \<le> 2 ^ 64"
    using assms(4) by (intro power_increasing) auto
  moreover have "uint (word_of_int (uint v + 2 ^ s * b) :: u64) = (uint v + 2 ^ s * b) mod 2 ^ 64"
    by (simp only: uint_word_of_int) simp
  moreover have "v + word_of_int (2 ^ s * b) = word_of_int (uint v + 2 ^ s * b)"
    by simp
  ultimately have "uint (v + word_of_int (2 ^ s * b)) = uint v + 2 ^ s * b"
    using sum assms(2) by (metis mod_pos_pos_trivial order_less_le_trans add_nonneg_nonneg mult_nonneg_nonneg uint_ge_0 zero_le_numeral zero_le_power)
  then show ?thesis
    using sum assms(2) unfolding word_uint_eq_iff by (simp add: unsigned_take_bit_eq take_bit_int_eq_self)
qed

definition sign_extend :: "u64 \<times> nat \<times> u8 \<times> u8 list \<Rightarrow> (u64 \<times> u8 list) res" where
  "sign_extend = (\<lambda>(v, shift, byte, current'). Ok (if shift < 64 \<and> byte AND 64 \<noteq> 0 then v OR - push_bit shift 1 else v, current'))"

lemma neg_push: "- push_bit s 1 = push_bit s (- 1 :: u64)"
  by (simp add: push_bit_eq_mult)

lemma sleb128_loop:
  assumes "take_bit s v = v" "s < 64" "- (2 ^ (63 - s)) \<le> i" "i < 2 ^ (63 - s)"
  shows "res_bind (leb128_loop (sleb128 i @ rest) v s) sign_extend = Ok (v + word_of_int (2 ^ s * i), rest)"
  using assms
proof (induction i arbitrary: v s rule: sleb128.induct)
  case (1 i)
  define b r where br: "b = i mod 128" "r = i div 128"
  have b: "0 \<le> b" "b < 128" and i: "i = 128 * r + b"
    by (simp_all add: br)
  note bits = byte_bits [OF b] leb_group [OF 1(2) b] 
  show ?case
  proof (cases "(r = 0 \<and> b < 64) \<or> (r = - 1 \<and> 64 \<le> b)")
    case True
    then have e: "sleb128 i = [word_of_int b]"
      by (subst sleb128.simps) (simp add: br Let_def)
    show ?thesis
    proof (cases "r = 0")
      case True
      with \<open>(r = 0 \<and> b < 64) \<or> _\<close> show ?thesis
        using 1(3) bits i unfolding e by (simp add: sign_extend_def)
    next
      case False
      with True have r: "r = - 1" "64 \<le> b" by auto
      have "v + word_of_int (2 ^ s * i) = v + word_of_int (2 ^ s * b) - word_of_int (2 ^ (s + 7))"
        by (simp add: i r power_add algebra_simps)
      moreover have "(word_of_int (2 ^ (s + 7)) :: u64) = 0" if "64 \<le> s + 7"
        using that by simp
      moreover have "v + word_of_int (2 ^ s * b) OR - push_bit (s + 7) 1 = v + word_of_int (2 ^ s * b) - word_of_int (2 ^ (s + 7))" if "s + 7 < 64"
        unfolding neg_push or_disjoint_add [OF leb_group_range [OF 1(2) b that]] by (simp add: push_bit_eq_mult)
      ultimately show ?thesis
        using 1(3) bits r unfolding e by (simp add: sign_extend_def)
    qed
  next
    case False
    then have e: "sleb128 i = word_of_int (b + 128) # sleb128 r"
      by (subst sleb128.simps) (simp add: br Let_def)
    have s7: "s + 7 < 64"
    proof (rule ccontr)
      assume "\<not> ?thesis"
      then have "(2::int) ^ (63 - s) \<le> 2 ^ 6"
        by (intro power_increasing) auto
      then show False
        using False 1(4,5) i b by simp
    qed
    then have p: "(2::int) ^ (63 - s) = 128 * 2 ^ (63 - (s + 7))"
      by (simp flip: power_add [of "2::int" 7, simplified])
    have "- (2 ^ (63 - (s + 7))) \<le> r" "r < 2 ^ (63 - (s + 7))"
      using 1(4,5) i b unfolding p by linarith+
    then have "res_bind (leb128_loop (sleb128 r @ rest) (v + word_of_int (2 ^ s * b)) (s + 7)) sign_extend =
        Ok (v + word_of_int (2 ^ s * b) + word_of_int (2 ^ (s + 7) * r), rest)"
      using 1(1) [OF br(1) br(2) False] leb_group_range [OF 1(2) b s7] s7 by simp
    moreover have "v + word_of_int (2 ^ s * i) = v + word_of_int (2 ^ s * b) + word_of_int (2 ^ (s + 7) * r)"
      by (simp add: i power_add algebra_simps)
    ultimately show ?thesis
      using 1(3) bits unfolding e by simp
  qed
qed

lemma sleb128_roundtrip:
  assumes "- (2 ^ 63) \<le> i" "i < 2 ^ 63"
  shows "sleb128_pop_front (sleb128 i @ rest) = Ok (word_of_int i, rest)"
  using sleb128_loop [of 0 0 i rest] assms by (simp add: sleb128_pop_front_def sign_extend_def)


lemma uleb128_loop:
  assumes "take_bit s v = v" "s < 64" "n < 2 ^ (64 - s)"
  shows "res_bind (leb128_loop (uleb128 n @ rest) v s) (\<lambda>(v, shift, byte, current'). Ok (v, current')) =
    Ok (v + word_of_int (2 ^ s * int n), rest)"
  using assms
proof (induction n arbitrary: v s rule: uleb128.induct)
  case (1 n)
  define b where b: "b = int (n mod 128)"
  have r: "0 \<le> b" "b < 128" and n: "int n = 128 * int (n div 128) + b"
    by (simp_all add: b zdiv_int zmod_int)
  note bits = byte_bits [OF r] leb_group [OF 1(2) r]
  show ?case
  proof (cases "n < 128")
    case True
    then have "uleb128 n = [word_of_int b]" "int n = b"
      by (subst uleb128.simps, simp_all add: b)
    then show ?thesis
      using 1(3) bits by simp
  next
    case False
    then have e: "uleb128 n = word_of_int (b + 128) # uleb128 (n div 128)"
      by (subst uleb128.simps) (simp add: b)
    have s7: "s + 7 < 64"
    proof (rule ccontr)
      assume "\<not> ?thesis"
      then have "(2::nat) ^ (64 - s) \<le> 2 ^ 7"
        by (intro power_increasing) auto
      then show False
        using False 1(4) by simp
    qed
    then have "(2::nat) ^ (64 - s) = 128 * 2 ^ (64 - (s + 7))"
      by (simp flip: power_add [of "2::nat" 7, simplified])
    then have "n div 128 < 2 ^ (64 - (s + 7))"
      using 1(4) by (simp add: less_mult_imp_div_less mult.commute)
    then have "res_bind (leb128_loop (uleb128 (n div 128) @ rest) (v + word_of_int (2 ^ s * b)) (s + 7)) (\<lambda>(v, shift, byte, current'). Ok (v, current')) =
        Ok (v + word_of_int (2 ^ s * b) + word_of_int (2 ^ (s + 7) * int (n div 128)), rest)"
      using 1(1) [OF False] leb_group_range [OF 1(2) r s7] s7 by simp
    moreover have "v + word_of_int (2 ^ s * int n) = v + word_of_int (2 ^ s * b) + word_of_int (2 ^ (s + 7) * int (n div 128))"
      unfolding n by (simp add: power_add algebra_simps)
    ultimately show ?thesis
      using 1(3) bits unfolding e by simp
  qed
qed

lemma uleb128_roundtrip: "n < 2 ^ 64 \<Longrightarrow> uleb128_pop_front (uleb128 n @ rest) = Ok (of_nat n, rest)"
  using uleb128_loop [of 0 0 n rest] by (simp add: uleb128_pop_front_def)

text \<open>A word as a decoder reads it back.\<close>

definition sleb_word :: "u64 \<Rightarrow> u8 list" where
  "sleb_word w = sleb128 (sint w)"

lemma sleb_word_pop [simp]: "sleb128_pop_front (sleb_word w @ rest) = Ok (w, rest)"
proof -
  have "- (2 ^ 63) \<le> sint w" "sint w < 2 ^ 63"
    using sint_greater_eq [of w] sint_less [of w] by simp_all
  then show ?thesis
    using sleb128_roundtrip [of "sint w" rest] by (simp add: sleb_word_def)
qed

text \<open>Each integer takes at least one byte.\<close>

lemma leb128_loop_shorter: "leb128_loop bs v s = Ok (v', s', b, bs') \<Longrightarrow> length bs' < length bs"
  by (induction bs v s rule: leb128_loop.induct) (auto simp: Let_def split: if_splits)

lemma sleb128_pop_front_shorter: "sleb128_pop_front bs = Ok (v, bs') \<Longrightarrow> length bs' < length bs"
  by (cases "leb128_loop bs 0 0") (auto simp: sleb128_pop_front_def dest: leb128_loop_shorter)

end
