(* ===== verification/Linker_Packed_Relocs.thy ===== *)
theory Linker_Packed_Relocs
  imports Linker_Leb128
begin

text \<open>
  Packed relocation tables: linker/linker_reloc_iterators.h, and the bitmap encoding of relative
  relocations, \<open>relocate_relr\<close> of linker/linker.cpp, for targets with explicit addends (\<open>USE_RELA\<close>).
\<close>

section \<open>Packed relocations\<close>

definition RELOCATION_GROUPED_BY_INFO_FLAG :: u64 where "RELOCATION_GROUPED_BY_INFO_FLAG = 1"
definition RELOCATION_GROUPED_BY_OFFSET_DELTA_FLAG :: u64 where "RELOCATION_GROUPED_BY_OFFSET_DELTA_FLAG = 2"
definition RELOCATION_GROUPED_BY_ADDEND_FLAG :: u64 where "RELOCATION_GROUPED_BY_ADDEND_FLAG = 4"
definition RELOCATION_GROUP_HAS_ADDEND_FLAG :: u64 where "RELOCATION_GROUP_HAS_ADDEND_FLAG = 8"

lemmas group_flag_defs = RELOCATION_GROUPED_BY_INFO_FLAG_def RELOCATION_GROUPED_BY_OFFSET_DELTA_FLAG_def
  RELOCATION_GROUPED_BY_ADDEND_FLAG_def RELOCATION_GROUP_HAS_ADDEND_FLAG_def

text \<open>The addend is signed in the ELF structure; the code only adds \<open>size_t\<close> values to it.\<close>

record rela =
  r_offset :: u64
  r_info :: u64
  r_addend :: u64

definition pop_if :: "bool \<Rightarrow> u64 \<Rightarrow> u8 list \<Rightarrow> (u64 \<times> u8 list) res" where
  "pop_if c v bs = (if c then sleb128_pop_front bs else Ok (v, bs))"

definition group_flags_reloc :: "u64 \<Rightarrow> u64" where
  "group_flags_reloc flags = flags AND (RELOCATION_GROUP_HAS_ADDEND_FLAG OR RELOCATION_GROUPED_BY_ADDEND_FLAG)"

text \<open>The head of a group: its size, flags and offset delta, and the fields of \<open>reloc\<close> that the group fixes.\<close>

definition group_header :: "rela \<Rightarrow> u8 list \<Rightarrow> (u64 \<times> u64 \<times> u64 \<times> rela \<times> u8 list) res" where
  "group_header reloc bs =
     res_bind (sleb128_pop_front bs) (\<lambda>(group_size, bs).
     res_bind (sleb128_pop_front bs) (\<lambda>(flags, bs).
     res_bind (pop_if (flags AND RELOCATION_GROUPED_BY_OFFSET_DELTA_FLAG \<noteq> 0) 0 bs) (\<lambda>(delta, bs).
     res_bind (pop_if (flags AND RELOCATION_GROUPED_BY_INFO_FLAG \<noteq> 0) (r_info reloc) bs) (\<lambda>(info, bs).
       if group_flags_reloc flags = RELOCATION_GROUP_HAS_ADDEND_FLAG then
         Ok (group_size, flags, delta, reloc\<lparr>r_info := info\<rparr>, bs)
       else if group_flags_reloc flags = RELOCATION_GROUP_HAS_ADDEND_FLAG OR RELOCATION_GROUPED_BY_ADDEND_FLAG then
         res_bind (sleb128_pop_front bs) (\<lambda>(addend, bs).
           Ok (group_size, flags, delta, reloc\<lparr>r_info := info, r_addend := r_addend reloc + addend\<rparr>, bs))
       else Ok (group_size, flags, delta, reloc\<lparr>r_info := info, r_addend := 0\<rparr>, bs)))))"

text \<open>The next relocation of a group.\<close>

definition group_next :: "u64 \<Rightarrow> u64 \<Rightarrow> rela \<Rightarrow> u8 list \<Rightarrow> (rela \<times> u8 list) res" where
  "group_next flags delta reloc bs =
     res_bind (pop_if (flags AND RELOCATION_GROUPED_BY_OFFSET_DELTA_FLAG = 0) delta bs) (\<lambda>(d, bs).
     res_bind (pop_if (flags AND RELOCATION_GROUPED_BY_INFO_FLAG = 0) (r_info reloc) bs) (\<lambda>(info, bs).
     res_bind (pop_if (group_flags_reloc flags = RELOCATION_GROUP_HAS_ADDEND_FLAG) 0 bs) (\<lambda>(addend, bs).
       Ok (\<lparr>r_offset = r_offset reloc + d, r_info = info, r_addend = r_addend reloc + addend\<rparr>, bs))))"

text \<open>The loop over a group, with the number of iterations left. The callback has a state and may fail.\<close>

fun group_loop :: "('s \<Rightarrow> rela \<Rightarrow> bool \<times> 's) \<Rightarrow> nat \<Rightarrow> u64 \<Rightarrow> u64 \<Rightarrow> rela \<Rightarrow> u8 list \<Rightarrow> 's \<Rightarrow> (bool \<times> rela \<times> u8 list \<times> 's) res" where
  "group_loop callback 0 flags delta reloc bs st = Ok (True, reloc, bs, st)"
| "group_loop callback (Suc n) flags delta reloc bs st =
     res_bind (group_next flags delta reloc bs) (\<lambda>(reloc, bs).
       case callback st reloc of (ok, st) \<Rightarrow>
         if ok then group_loop callback n flags delta reloc bs st else Ok (False, reloc, bs, st))"

lemma pop_if_shorter: "pop_if c v bs = Ok (w, bs') \<Longrightarrow> length bs' \<le> length bs"
  by (auto simp: pop_if_def split: if_splits dest: sleb128_pop_front_shorter)

lemma group_header_shorter: "group_header reloc bs = Ok (n, f, d, r, bs') \<Longrightarrow> length bs' < length bs"
  by (auto simp: group_header_def res_bind_Ok split: if_splits dest!: sleb128_pop_front_shorter pop_if_shorter)

lemma group_next_shorter: "group_next flags delta reloc bs = Ok (r, bs') \<Longrightarrow> length bs' \<le> length bs"
  by (auto simp: group_next_def res_bind_Ok dest!: pop_if_shorter)

lemma group_loop_shorter: "group_loop callback n flags delta reloc bs st = Ok (ok, r, bs', st') \<Longrightarrow> length bs' \<le> length bs"
proof (induction n arbitrary: reloc bs st)
  case (Suc n)
  then obtain r2 bs2 where n: "group_next flags delta reloc bs = Ok (r2, bs2)"
    by (auto simp: res_bind_Ok)
  then show ?case
    using Suc group_next_shorter [OF n] by (fastforce split: if_splits prod.splits)
qed simp

lemma group_shorter:
  "group_loop callback n flags delta r bs1 st = Ok (ok, r', bs2, st') \<Longrightarrow> group_header reloc bs = Ok (n1, f1, d1, r1, bs1) \<Longrightarrow> length bs2 < length bs"
  by (drule group_loop_shorter, drule group_header_shorter, rule order_le_less_trans)

text \<open>The loop over the groups ends because each of them takes at least two integers from the decoder.\<close>

function packed_groups :: "('s \<Rightarrow> rela \<Rightarrow> bool \<times> 's) \<Rightarrow> u64 \<Rightarrow> u64 \<Rightarrow> rela \<Rightarrow> u8 list \<Rightarrow> 's \<Rightarrow> (bool \<times> 's) res" where
  "packed_groups callback num_relocs idx reloc bs st =
     (if idx < num_relocs then
        res_bind (group_header reloc bs) (\<lambda>(group_size, flags, delta, reloc, bs).
        res_bind (group_loop callback (unat group_size) flags delta reloc bs st) (\<lambda>(ok, reloc, bs, st).
          if ok then packed_groups callback num_relocs (idx + group_size) reloc bs st else Ok (False, st)))
      else Ok (True, st))"
  by auto
termination
  by (relation "measure (\<lambda>(callback, num_relocs, idx, reloc, bs, st). length bs)")
    (auto intro: group_shorter)

declare packed_groups.simps [simp del]

definition for_all_packed_relocs :: "u8 list \<Rightarrow> ('s \<Rightarrow> rela \<Rightarrow> bool \<times> 's) \<Rightarrow> 's \<Rightarrow> (bool \<times> 's) res" where
  "for_all_packed_relocs bs callback st =
     res_bind (sleb128_pop_front bs) (\<lambda>(num_relocs, bs).
     res_bind (sleb128_pop_front bs) (\<lambda>(offset, bs).
       packed_groups callback num_relocs 0 \<lparr>r_offset = offset, r_info = 0, r_addend = 0\<rparr> bs st))"

section \<open>The encoding\<close>

text \<open>
  A packed table is a sequence of groups. A group may share the distance between its offsets and the info,
  and it has no addends, one addend, or an addend for each relocation.
\<close>

datatype addends = NoAddend | OneAddend | EachAddend

record group =
  g_by_delta :: bool
  g_by_info :: bool
  g_addends :: addends
  g_relocs :: "rela list"

definition group_flags :: "group \<Rightarrow> u64" where
  "group_flags g =
     (if g_by_info g then RELOCATION_GROUPED_BY_INFO_FLAG else 0) OR
     (if g_by_delta g then RELOCATION_GROUPED_BY_OFFSET_DELTA_FLAG else 0) OR
     (case g_addends g of NoAddend \<Rightarrow> 0
      | OneAddend \<Rightarrow> RELOCATION_GROUP_HAS_ADDEND_FLAG OR RELOCATION_GROUPED_BY_ADDEND_FLAG
      | EachAddend \<Rightarrow> RELOCATION_GROUP_HAS_ADDEND_FLAG)"

fun encode_entries :: "group \<Rightarrow> rela \<Rightarrow> rela list \<Rightarrow> u8 list" where
  "encode_entries g p [] = []"
| "encode_entries g p (r # rs) =
     (if g_by_delta g then [] else sleb_word (r_offset r - r_offset p)) @
     (if g_by_info g then [] else sleb_word (r_info r)) @
     (if g_addends g = EachAddend then sleb_word (r_addend r - r_addend p) else []) @ encode_entries g r rs"

definition encode_group :: "rela \<Rightarrow> group \<Rightarrow> u8 list" where
  "encode_group p g =
     (let r = hd (g_relocs g) in
      sleb_word (of_nat (length (g_relocs g))) @ sleb_word (group_flags g) @
      (if g_by_delta g then sleb_word (r_offset r - r_offset p) else []) @
      (if g_by_info g then sleb_word (r_info r) else []) @
      (if g_addends g = OneAddend then sleb_word (r_addend r - r_addend p) else []) @
      encode_entries g p (g_relocs g))"

text \<open>What the members of a group have in common.\<close>

fun entries_ok :: "group \<Rightarrow> u64 \<Rightarrow> rela \<Rightarrow> rela \<Rightarrow> rela list \<Rightarrow> bool" where
  "entries_ok g delta f p [] = True"
| "entries_ok g delta f p (r # rs) =
     ((g_by_delta g \<longrightarrow> r_offset r = r_offset p + delta) \<and> (g_by_info g \<longrightarrow> r_info r = r_info f) \<and>
      (g_addends g = NoAddend \<longrightarrow> r_addend r = 0) \<and> (g_addends g = OneAddend \<longrightarrow> r_addend r = r_addend f) \<and>
      entries_ok g delta f r rs)"

definition group_ok :: "rela \<Rightarrow> group \<Rightarrow> bool" where
  "group_ok p g \<longleftrightarrow> g_relocs g \<noteq> [] \<and>
     entries_ok g (r_offset (hd (g_relocs g)) - r_offset p) (hd (g_relocs g)) p (g_relocs g)"

fun groups_ok :: "rela \<Rightarrow> group list \<Rightarrow> bool" where
  "groups_ok p [] = True"
| "groups_ok p (g # gs) = (group_ok p g \<and> groups_ok (last (g_relocs g)) gs)"

fun encode_groups :: "rela \<Rightarrow> group list \<Rightarrow> u8 list" where
  "encode_groups p [] = []"
| "encode_groups p (g # gs) = encode_group p g @ encode_groups (last (g_relocs g)) gs"

definition encode_table :: "u64 \<Rightarrow> group list \<Rightarrow> u8 list" where
  "encode_table offset gs =
     sleb_word (of_nat (length (concat (map g_relocs gs)))) @ sleb_word offset @
     encode_groups \<lparr>r_offset = offset, r_info = 0, r_addend = 0\<rparr> gs"

text \<open>The callback is called for one relocation after the other until it fails.\<close>

fun call_all :: "('s \<Rightarrow> rela \<Rightarrow> bool \<times> 's) \<Rightarrow> rela list \<Rightarrow> 's \<Rightarrow> bool \<times> 's" where
  "call_all callback [] st = (True, st)"
| "call_all callback (r # rs) st = (case callback st r of (ok, st) \<Rightarrow> if ok then call_all callback rs st else (False, st))"

lemma call_all_append:
  "call_all callback (rs @ qs) st = (case call_all callback rs st of (ok, st) \<Rightarrow> if ok then call_all callback qs st else (False, st))"
  by (induction callback rs st rule: call_all.induct) (auto split: prod.splits)

section \<open>Round trip\<close>

lemma group_flags_tests:
  "group_flags g AND RELOCATION_GROUPED_BY_OFFSET_DELTA_FLAG \<noteq> 0 \<longleftrightarrow> g_by_delta g"
  "group_flags g AND RELOCATION_GROUPED_BY_INFO_FLAG \<noteq> 0 \<longleftrightarrow> g_by_info g"
  "group_flags_reloc (group_flags g) = RELOCATION_GROUP_HAS_ADDEND_FLAG \<longleftrightarrow> g_addends g = EachAddend"
  "group_flags_reloc (group_flags g) = RELOCATION_GROUP_HAS_ADDEND_FLAG OR RELOCATION_GROUPED_BY_ADDEND_FLAG \<longleftrightarrow> g_addends g = OneAddend"
  by (cases "g_addends g"; simp add: group_flags_def group_flags_reloc_def group_flag_defs)+

lemma pop_if_simps [simp]:
  "pop_if True v (sleb_word w @ bs) = Ok (w, bs)" "pop_if False v bs = Ok (v, bs)"
  by (simp_all add: pop_if_def)

lemma pop_if_encoded [simp]:
  "pop_if c v ((if c then sleb_word w else []) @ bs) = Ok (if c then w else v, bs)"
  "pop_if (\<not> c) v ((if c then [] else sleb_word w) @ bs) = Ok (if c then v else w, bs)"
  by (cases c; simp)+

text \<open>The fields of \<open>reloc\<close> that a group has fixed, before its next relocation.\<close>

definition between :: "group \<Rightarrow> rela \<Rightarrow> rela \<Rightarrow> rela \<Rightarrow> bool" where
  "between g f p q \<longleftrightarrow> r_offset q = r_offset p \<and> (g_by_info g \<longrightarrow> r_info q = r_info f) \<and>
     r_addend q = (case g_addends g of NoAddend \<Rightarrow> 0 | OneAddend \<Rightarrow> r_addend f | EachAddend \<Rightarrow> r_addend p)"

lemma group_next_encoded:
  assumes "entries_ok g delta f p (r # rs)" "between g f p q"
  shows "group_next (group_flags g) delta q (encode_entries g p (r # rs) @ bs) = Ok (r, encode_entries g r rs @ bs)"
    "between g f r r"
  using assms group_flags_tests [of g] unfolding group_next_def
  by (auto simp: between_def split: addends.splits)

lemma group_loop_encoded:
  assumes "entries_ok g delta f p rs" "between g f p q" "call_all callback rs st = (ok, st')"
  shows "\<exists>r b. group_loop callback (length rs) (group_flags g) delta q (encode_entries g p rs @ bs) st = Ok (ok, r, b, st') \<and>
    (ok \<longrightarrow> r = last (q # rs) \<and> b = bs)"
  using assms
proof (induction rs arbitrary: p q st)
  case (Cons r rs)
  obtain ok1 st1 where c: "callback st r = (ok1, st1)"
    by fastforce
  show ?case
  proof (cases ok1)
    case True
    then obtain r' b where "group_loop callback (length rs) (group_flags g) delta r (encode_entries g r rs @ bs) st1 = Ok (ok, r', b, st')"
      "ok \<longrightarrow> r' = last (r # rs) \<and> b = bs"
      using Cons(1) [of r r st1] Cons(2-4) group_next_encoded(2) [OF Cons(2,3)] c by auto
    then show ?thesis
      using group_next_encoded(1) [OF Cons(2,3), of bs] c True by (simp del: encode_entries.simps)
  next
    case False
    then show ?thesis
      using group_next_encoded(1) [OF Cons(2,3), of bs] c Cons(4) by (simp del: encode_entries.simps)
  qed
qed auto

lemma group_header_encoded:
  assumes "group_ok p g"
  obtains q where "group_header p (encode_group p g @ bs) =
      Ok (of_nat (length (g_relocs g)), group_flags g, if g_by_delta g then r_offset (hd (g_relocs g)) - r_offset p else 0, q,
        encode_entries g p (g_relocs g) @ bs)" "between g (hd (g_relocs g)) p q"
proof -
  let ?f = "hd (g_relocs g)"
  let ?q = "p\<lparr>r_info := if g_by_info g then r_info ?f else r_info p,
      r_addend := case g_addends g of NoAddend \<Rightarrow> 0 | OneAddend \<Rightarrow> r_addend ?f | EachAddend \<Rightarrow> r_addend p\<rparr>"
  have "group_header p (encode_group p g @ bs) =
      Ok (of_nat (length (g_relocs g)), group_flags g, if g_by_delta g then r_offset ?f - r_offset p else 0, ?q,
        encode_entries g p (g_relocs g) @ bs)"
    using group_flags_tests [of g]
    by (cases "g_addends g") (simp_all add: group_header_def encode_group_def Let_def)
  moreover have "between g ?f p ?q"
    by (simp add: between_def)
  ultimately show ?thesis
    using that by blast
qed

lemma entries_ok_delta: "\<not> g_by_delta g \<Longrightarrow> entries_ok g d f p rs = entries_ok g d' f p rs"
  by (induction g d f p rs rule: entries_ok.induct) auto

lemma of_nat_less_u64: "a < b \<Longrightarrow> b < 2 ^ 64 \<Longrightarrow> (of_nat a :: u64) < of_nat b"
  by (simp add: word_less_nat_alt unat_of_nat)

lemma packed_groups_encoded:
  assumes "groups_ok p gs" "m + length (concat (map g_relocs gs)) < 2 ^ 64"
  shows "packed_groups callback (of_nat (m + length (concat (map g_relocs gs)))) (of_nat m) p (encode_groups p gs @ bs) st =
    Ok (call_all callback (concat (map g_relocs gs)) st)"
  using assms
proof (induction gs arbitrary: p m st)
  case Nil
  then show ?case by (subst packed_groups.simps) simp
next
  case (Cons g gs)
  let ?n = "length (g_relocs g)" and ?d = "if g_by_delta g then r_offset (hd (g_relocs g)) - r_offset p else 0"
  let ?t = "m + length (concat (map g_relocs (g # gs)))"
  have g: "group_ok p g" "g_relocs g \<noteq> []"
    using Cons(2) by (auto simp: group_ok_def)
  obtain q where q: "group_header p (encode_group p g @ encode_groups (last (g_relocs g)) gs @ bs) =
      Ok (of_nat ?n, group_flags g, ?d, q, encode_entries g p (g_relocs g) @ encode_groups (last (g_relocs g)) gs @ bs)"
    "between g (hd (g_relocs g)) p q"
    by (rule group_header_encoded [OF g(1)])
  have "entries_ok g ?d (hd (g_relocs g)) p (g_relocs g)"
    using g(1) entries_ok_delta [of g 0 "hd (g_relocs g)" p "g_relocs g" "r_offset (hd (g_relocs g)) - r_offset p"]
    unfolding group_ok_def by auto
  obtain ok st1 where c: "call_all callback (g_relocs g) st = (ok, st1)"
    by fastforce
  obtain r b where l: "group_loop callback ?n (group_flags g) ?d q
      (encode_entries g p (g_relocs g) @ encode_groups (last (g_relocs g)) gs @ bs) st = Ok (ok, r, b, st1)"
    "ok \<longrightarrow> r = last (q # g_relocs g) \<and> b = encode_groups (last (g_relocs g)) gs @ bs"
    using group_loop_encoded [OF \<open>entries_ok g ?d _ _ _\<close> q(2) c] by blast
  have n: "0 < ?n" "?n < 2 ^ 64" "m < ?t" "?t < 2 ^ 64"
    using g(2) Cons(3) by auto
  then have lt: "(of_nat m :: u64) < of_nat ?t" and sz: "unat (of_nat ?n :: u64) = ?n"
    by (intro of_nat_less_u64, simp_all only:) (simp add: unat_of_nat)
  have "packed_groups callback (of_nat ?t) (of_nat (m + ?n)) (last (g_relocs g)) (encode_groups (last (g_relocs g)) gs @ bs) st1 =
      Ok (call_all callback (concat (map g_relocs gs)) st1)"
    using Cons(1) [of "last (g_relocs g)" "m + ?n" st1] Cons(2,3) by (simp add: add.assoc)
  then have "(if ok then packed_groups callback (of_nat ?t) (of_nat m + of_nat ?n) r b st1 else Ok (False, st1)) =
      Ok (call_all callback (g_relocs g @ concat (map g_relocs gs)) st)"
    using l(2) g(2) c by (simp add: call_all_append)
  then show ?case
    using lt sz q(1) l(1) by (subst packed_groups.simps) (simp only: if_True res_bind.simps split encode_groups.simps append_assoc list.map concat.simps)
qed


text \<open>
  C12: A packed relocation table is read back exactly. For every sequence of groups that satisfies the
  constraints of its flags, \<open>for_all_packed_relocs\<close> on the encoded table calls the callback for each of the
  relocations, in order and with its offset, info and addend, until the callback fails, and returns the
  callback's verdict.
\<close>

theorem packed_relocs_roundtrip:
  assumes "groups_ok \<lparr>r_offset = offset, r_info = 0, r_addend = 0\<rparr> gs" "length (concat (map g_relocs gs)) < 2 ^ 64"
  shows "for_all_packed_relocs (encode_table offset gs @ bs) callback st = Ok (call_all callback (concat (map g_relocs gs)) st)"
  using packed_groups_encoded [OF assms(1), of 0 callback bs st] assms(2)
  unfolding for_all_packed_relocs_def encode_table_def by simp

definition sample_groups :: "group list" where
  "sample_groups =
     [\<lparr>g_by_delta = True, g_by_info = True, g_addends = NoAddend,
       g_relocs = [\<lparr>r_offset = 0x1008, r_info = 0x403, r_addend = 0\<rparr>, \<lparr>r_offset = 0x1010, r_info = 0x403, r_addend = 0\<rparr>]\<rparr>,
      \<lparr>g_by_delta = False, g_by_info = False, g_addends = EachAddend,
       g_relocs = [\<lparr>r_offset = 0x2000, r_info = 7, r_addend = - 16\<rparr>, \<lparr>r_offset = 0x1ff0, r_info = 8, r_addend = 3\<rparr>]\<rparr>]"

theorem packed_relocs_roundtrip_witness:
  "for_all_packed_relocs (encode_table 0x1000 sample_groups) (\<lambda>rs r. (True, rs @ [r])) [] =
     Ok (True, concat (map g_relocs sample_groups)) \<and> length (concat (map g_relocs sample_groups)) = 4"
proof -
  have "groups_ok \<lparr>r_offset = 0x1000, r_info = 0, r_addend = 0\<rparr> sample_groups"
    by (simp add: sample_groups_def group_ok_def)
  then show ?thesis
    using packed_relocs_roundtrip [of "0x1000" sample_groups "[]" "\<lambda>rs r. (True, rs @ [r])" "[]"]
    by (simp add: sample_groups_def)
qed

section \<open>Relative relocations\<close>

text \<open>
  The memory of the process as the words at its addresses. The relocated words do not overlap. The tag of
  an address is that of the MTE hardware, a parameter.
\<close>

type_synonym memory = "u64 \<Rightarrow> u64"

definition apply_relr_reloc :: "(u64 \<Rightarrow> u64) \<Rightarrow> u64 \<Rightarrow> bool \<Rightarrow> u64 \<Rightarrow> memory \<Rightarrow> memory" where
  "apply_relr_reloc get_tagged_address load_bias has_memtag_globals offset m =
     (let destination = offset + load_bias in
      if \<not> has_memtag_globals then m(destination := m destination + load_bias)
      else m(destination := get_tagged_address (m destination + load_bias)))"

function relr_bitmap :: "(u64 \<Rightarrow> memory \<Rightarrow> memory) \<Rightarrow> u64 \<Rightarrow> u64 \<Rightarrow> memory \<Rightarrow> memory" where
  "relr_bitmap reloc entry offset m =
     (if entry \<noteq> 0 then
        let entry = drop_bit 1 entry in
        relr_bitmap reloc entry (offset + 8) (if entry AND 1 \<noteq> 0 then reloc offset m else m)
      else m)"
  by auto
termination
proof (relation "measure (\<lambda>(reloc, entry, offset, m). unat entry)")
  fix reloc :: "u64 \<Rightarrow> memory \<Rightarrow> memory" and entry x offset :: u64 and m
  assume "entry \<noteq> 0" "x = drop_bit 1 entry"
  then have "unat x < unat entry"
    by (simp add: unat_drop_bit unat_gt_0)
  then show "((reloc, x, offset + 8, if x AND 1 \<noteq> 0 then reloc offset m else m), reloc, entry, offset, m)
      \<in> measure (\<lambda>(reloc, entry, offset, m). unat entry)"
    by simp
qed simp

declare relr_bitmap.simps [simp del]

fun relr_loop :: "(u64 \<Rightarrow> memory \<Rightarrow> memory) \<Rightarrow> u64 list \<Rightarrow> u64 \<Rightarrow> memory \<Rightarrow> memory" where
  "relr_loop reloc [] base m = m"
| "relr_loop reloc (entry # current) base m =
     (if entry AND 1 = 0 then relr_loop reloc current (entry + 8) (reloc entry m)
      else relr_loop reloc current (base + (8 * 8 - 1) * 8) (relr_bitmap reloc entry base m))"

definition relocate_relr :: "(u64 \<Rightarrow> u64) \<Rightarrow> u64 list \<Rightarrow> u64 \<Rightarrow> bool \<Rightarrow> memory \<Rightarrow> memory" where
  "relocate_relr get_tagged_address entries load_bias has_memtag_globals m =
     relr_loop (apply_relr_reloc get_tagged_address load_bias has_memtag_globals) entries 0 m"

text \<open>
  The encoder of the generic ABI: an address, followed by bitmaps, each for the 63 words after the ones
  already described.
\<close>

definition relr_covers :: "nat \<Rightarrow> nat \<Rightarrow> bool" where
  "relr_covers base off \<longleftrightarrow> base \<le> off \<and> off - base < 63 * 8 \<and> (off - base) mod 8 = 0"

definition relr_bits :: "nat \<Rightarrow> nat list \<Rightarrow> u64" where
  "relr_bits base offs = push_bit 1 (foldr (\<lambda>off b. set_bit ((off - base) div 8) b) offs 0) OR 1"

lemma dropWhile_shorter [termination_simp]: "length (dropWhile P xs) < Suc (length xs)"
  by (simp add: length_dropWhile_le le_imp_less_Suc)

fun encode_relr :: "nat option \<Rightarrow> nat list \<Rightarrow> u64 list" where
  "encode_relr b [] = []"
| "encode_relr None (off # offs) = of_nat off # encode_relr (Some (off + 8)) offs"
| "encode_relr (Some base) (off # offs) =
     (if relr_covers base off then
        relr_bits base (off # takeWhile (relr_covers base) offs) #
        encode_relr (Some (base + 63 * 8)) (dropWhile (relr_covers base) offs)
      else of_nat off # encode_relr (Some (off + 8)) offs)"

lemma and_one_odd: "(x :: u64) AND 1 = of_bool (odd x)"
  by (simp add: and_one_eq mod2_eq_if)

lemma drop_bit_odd: "drop_bit 1 e AND 1 \<noteq> (0 :: u64) \<longleftrightarrow> bit e 1"
  by (simp only: and_one_odd bit_iff_odd_drop_bit of_bool_eq_0_iff not_not)

lemma relr_bitmap_bits:
  assumes "\<forall>k > j. \<not> bit e k"
  shows "relr_bitmap reloc e off m = fold (\<lambda>k. reloc (off + 8 * of_nat k)) (filter (\<lambda>k. bit e (Suc k)) [0..<j]) m"
  using assms
proof (induction j arbitrary: e off m)
  case 0
  have "drop_bit 1 e = 0"
    using 0 by (intro bit_word_eqI) (simp add: bit_drop_bit_eq)
  then show ?case
    by (simp add: relr_bitmap.simps)
next
  case (Suc j)
  have e: "\<forall>k > j. \<not> bit (drop_bit 1 e) k"
    using Suc(2) by (simp add: bit_drop_bit_eq)
  have up: "[0..<Suc j] = 0 # map Suc [0..<j]"
    by (simp only: upt_conv_Cons [OF zero_less_Suc] map_Suc_upt)
  show ?case
  proof (cases "e = 0")
    case True
    then show ?thesis by (simp add: relr_bitmap.simps)
  next
    case False
    let ?m = "if bit e 1 then reloc off m else m"
    have "relr_bitmap reloc e off m = relr_bitmap reloc (drop_bit 1 e) (off + 8) ?m"
      using False by (subst relr_bitmap.simps) (simp only: drop_bit_odd Let_def if_True not_False_eq_True)
    also have "\<dots> = fold (\<lambda>k. reloc (off + 8 + 8 * of_nat k)) (filter (\<lambda>k. bit e (Suc (Suc k))) [0..<j]) ?m"
      unfolding Suc(1) [OF e] by (simp add: bit_drop_bit_eq)
    also have "\<dots> = fold (\<lambda>k. reloc (off + 8 * of_nat k)) (filter (\<lambda>k. bit e (Suc k)) [0..<Suc j]) m"
      unfolding up by (simp add: filter_map fold_map o_def algebra_simps)
    finally show ?thesis .
  qed
qed

lemma bit_relr_bits: "bit (relr_bits base offs) (Suc k) \<longleftrightarrow> k < 63 \<and> k \<in> (\<lambda>off. (off - base) div 8) ` set offs"
proof -
  have "bit (foldr (\<lambda>off b. set_bit ((off - base) div 8) b) offs (0::u64)) k \<longleftrightarrow> k < 64 \<and> k \<in> (\<lambda>off. (off - base) div 8) ` set offs" for k
    by (induction offs) (auto simp: bit_set_bit_iff dest: bit_imp_le_length)
  note this [of k]
  moreover have "bit (push_bit 1 (w::u64) OR 1) (Suc k) \<longleftrightarrow> k < 63 \<and> bit w k" for w
    unfolding bit_or_iff bit_push_bit_iff bit_1_iff by simp
  ultimately show ?thesis
    unfolding relr_bits_def by auto
qed

lemma relr_bits_odd: "relr_bits base offs AND 1 \<noteq> 0"
  unfolding relr_bits_def and_one_odd by (simp add: even_or_iff)

lemma relr_bits_apply:
  assumes "sorted_wrt (<) offs" "\<forall>off \<in> set offs. relr_covers base off"
  shows "relr_bitmap reloc (relr_bits base offs) (of_nat base) m = fold (\<lambda>off. reloc (of_nat off)) offs m"
proof -
  let ?d = "\<lambda>off. (off - base) div 8"
  have d: "off = base + 8 * ?d off" "?d off < 63" if "off \<in> set offs" for off
    using that assms(2) by (auto simp: relr_covers_def)
  have "sorted_wrt (<) (map ?d offs)"
    unfolding sorted_wrt_map using assms(1)
    by (rule sorted_wrt_mono_rel [rotated]) (metis d(1) add_less_cancel_left nat_mult_less_cancel_disj)
  then have "filter (\<lambda>k. bit (relr_bits base offs) (Suc k)) [0..<63] = map ?d offs"
    using d(2) by (intro sorted_distinct_set_unique)
      (auto simp: bit_relr_bits strict_sorted_iff sorted_wrt_filter)
  moreover have "\<forall>k > 63. \<not> bit (relr_bits base offs) k"
    by (auto dest: bit_imp_le_length)
  ultimately have "relr_bitmap reloc (relr_bits base offs) (of_nat base) m = fold (\<lambda>k. reloc (of_nat base + 8 * of_nat k)) (map ?d offs) m"
    by (simp add: relr_bitmap_bits)
  also have "\<dots> = fold (\<lambda>off. reloc (of_nat off)) offs m"
    unfolding fold_map o_def
  proof (rule fold_cong)
    fix off assume "off \<in> set offs"
    then have "(of_nat off :: u64) = of_nat (base + 8 * ?d off)"
      using d(1) by metis
    then show "reloc (of_nat base + 8 * of_nat (?d off)) = reloc (of_nat off)"
      by (simp only: of_nat_add of_nat_mult of_nat_numeral)
  qed simp_all
  finally show ?thesis .
qed

lemma relr_even: "even off \<Longrightarrow> (of_nat off :: u64) AND 1 = 0"
  by (simp add: and_one_odd)

lemma relr_loop_encoded:
  assumes "sorted_wrt (<) offs" "\<forall>off \<in> set offs. even off" "\<forall>n. b = Some n \<longrightarrow> base = of_nat n"
  shows "relr_loop reloc (encode_relr b offs) base m = fold (\<lambda>off. reloc (of_nat off)) offs m"
  using assms
proof (induction b offs arbitrary: base m rule: encode_relr.induct)
  case (3 bn off offs)
  show ?case
  proof (cases "relr_covers bn off")
    case True
    let ?now = "off # takeWhile (relr_covers bn) offs" and ?later = "dropWhile (relr_covers bn) offs"
    have split: "off # offs = ?now @ ?later"
      by simp
    have "sorted_wrt (<) ?now" "sorted_wrt (<) ?later" "\<forall>o' \<in> set ?later. even o'"
      using 3(3,4) unfolding split sorted_wrt_append by (auto dest: set_dropWhileD)
    moreover have "\<forall>o' \<in> set ?now. relr_covers bn o'"
      using True by (auto dest: set_takeWhileD)
    ultimately have "relr_loop reloc (encode_relr (Some (bn + 63 * 8)) ?later) (of_nat (bn + 63 * 8)) m' = fold (\<lambda>off. reloc (of_nat off)) ?later m'"
        "relr_bitmap reloc (relr_bits bn ?now) (of_nat bn) m = fold (\<lambda>off. reloc (of_nat off)) ?now m" for m'
      using 3(1) [OF True, of "of_nat (bn + 63 * 8)" m'] relr_bits_apply [of ?now bn reloc m] by simp_all
    then show ?thesis
      using 3(5) True relr_bits_odd [of bn ?now] unfolding split fold_append by simp
  next
    case False
    then show ?thesis
      using 3(2) [OF False, of "of_nat (off + 8)"] 3(3-5) by (simp add: relr_even)
  qed
next
  case (2 off offs)
  then show ?case by (simp add: relr_even)
qed simp

text \<open>
  C13: The bitmap encoding of relative relocations is read back exactly. For every increasing list of even
  offsets, encoded as the generic ABI prescribes, \<open>relocate_relr\<close> relocates each of these offsets once, in
  order, and nothing else.
\<close>

theorem relr_roundtrip:
  assumes "sorted_wrt (<) offs" "\<forall>off \<in> set offs. even off"
  shows "relocate_relr tag (encode_relr None offs) load_bias memtag m =
    fold (\<lambda>off. apply_relr_reloc tag load_bias memtag (of_nat off)) offs m"
  using relr_loop_encoded [OF assms, of None] by (simp add: relocate_relr_def)

theorem relr_roundtrip_witness:
  "relocate_relr (\<lambda>a. a) (encode_relr None [0x1000, 0x1008, 0x1010, 0x1200, 0x2000]) 0x10000 False (\<lambda>_. 5) 0x11200 = 0x10005 \<and>
   length (encode_relr None [0x1000, 0x1008, 0x1010, 0x1200, 0x2000]) = 4"
proof -
  have "length (encode_relr None [0x1000, 0x1008, 0x1010, 0x1200, 0x2000]) = 4"
    by (simp add: relr_covers_def)
  then show ?thesis
    using relr_roundtrip [of "[0x1000, 0x1008, 0x1010, 0x1200, 0x2000]" "\<lambda>a. a" "0x10000" False "\<lambda>_. 5"]
    by (simp add: apply_relr_reloc_def del: encode_relr.simps)
qed

end
