(* ===== verification/Linker_Memtag.thy ===== *)
theory Linker_Memtag
  imports Linker_Leb128
begin

text \<open>
  Tagging of global variables for MTE: \<open>soinfo::tag_globals\<close> of linker/linker.cpp. The descriptor stream
  gives, for each variable, its distance from the end of the previous one and its size in granules of 16
  bytes. \<open>set_memory_tag\<close> stores the tag of an address, bits 56 to 59, for the granule at that address; the
  model lists the addresses it is called with. \<open>insert_random_tag\<close> is the instruction that chooses a tag: a
  parameter that also depends on the number of variables before.
\<close>

definition FLAG_LINKED :: u32 where "FLAG_LINKED = 0x00000001"
definition FLAG_GLOBALS_TAGGED :: u32 where "FLAG_GLOBALS_TAGGED = 0x00000800"
definition kTagGranuleSize :: nat where "kTagGranuleSize = 16"
definition kDistanceReservedBits :: nat where "kDistanceReservedBits = 3"

record tag_state =
  tg_addr :: u64
  tg_last_tag_mask :: u64
  tg_last_tag :: u64
  tg_count :: nat
  tg_granules :: "u64 list"

text \<open>The tagged address of the next variable.\<close>

definition next_tagged_addr :: "(nat \<Rightarrow> u64 \<Rightarrow> u64 \<Rightarrow> u64) \<Rightarrow> bool \<Rightarrow> tag_state \<Rightarrow> u64 \<times> tag_state" where
  "next_tagged_addr insert_random_tag dlext_use_relro s =
     (if dlext_use_relro then
        let last_tag = tg_last_tag s + 1 in
        (tg_addr s OR push_bit 56 (tg_last_tag s),
         s\<lparr>tg_last_tag := if last_tag > push_bit kTagGranuleSize 1 then 1 else last_tag, tg_count := tg_count s + 1\<rparr>)
      else
        let tagged_addr = insert_random_tag (tg_count s) (tg_addr s) (tg_last_tag_mask s) in
        (tagged_addr,
         s\<lparr>tg_last_tag_mask := 1 OR push_bit (unat (drop_bit 56 tagged_addr AND 0x0f)) 1, tg_count := tg_count s + 1\<rparr>))"

definition tag_variable :: "(nat \<Rightarrow> u64 \<Rightarrow> u64 \<Rightarrow> u64) \<Rightarrow> bool \<Rightarrow> u64 \<Rightarrow> u64 \<Rightarrow> tag_state \<Rightarrow> tag_state" where
  "tag_variable insert_random_tag dlext_use_relro distance ngranules s =
     (case next_tagged_addr insert_random_tag dlext_use_relro (s\<lparr>tg_addr := tg_addr s + distance\<rparr>) of (tagged_addr, s) \<Rightarrow>
        s\<lparr>tg_granules := tg_granules s @ map (\<lambda>k. tagged_addr + of_nat (k * kTagGranuleSize)) [0..<unat ngranules],
          tg_addr := tg_addr s + ngranules * of_nat kTagGranuleSize\<rparr>)"

definition pop_descriptor :: "u8 list \<Rightarrow> (u64 \<times> u64 \<times> u8 list) res" where
  "pop_descriptor decoder =
     res_bind (uleb128_pop_front decoder) (\<lambda>(v, decoder).
       let distance = drop_bit kDistanceReservedBits v * of_nat kTagGranuleSize; ngranules = v AND mask kDistanceReservedBits in
       if ngranules = 0 then res_bind (uleb128_pop_front decoder) (\<lambda>(n, decoder). Ok (distance, n + 1, decoder))
       else Ok (distance, ngranules, decoder))"

lemma uleb128_pop_front_shorter: "uleb128_pop_front bs = Ok (v, bs') \<Longrightarrow> length bs' < length bs"
  by (cases "leb128_loop bs 0 0") (auto simp: uleb128_pop_front_def dest: leb128_loop_shorter)

lemma pop_descriptor_shorter:
  assumes "pop_descriptor bs = Ok (d, n, bs')"
  shows "length bs' < length bs"
proof -
  obtain v bs1 where v: "uleb128_pop_front bs = Ok (v, bs1)"
    using assms by (cases "uleb128_pop_front bs") (auto simp: pop_descriptor_def)
  then show ?thesis
    using assms uleb128_pop_front_shorter [OF v] uleb128_pop_front_shorter [of bs1]
    by (cases "uleb128_pop_front bs1") (auto simp: pop_descriptor_def Let_def split: if_splits)
qed

function tag_loop :: "(nat \<Rightarrow> u64 \<Rightarrow> u64 \<Rightarrow> u64) \<Rightarrow> bool \<Rightarrow> u8 list \<Rightarrow> tag_state \<Rightarrow> tag_state res" where
  "tag_loop insert_random_tag dlext_use_relro decoder s =
     (if decoder \<noteq> [] then
        case pop_descriptor decoder of
          Ok (distance, ngranules, decoder') \<Rightarrow>
            tag_loop insert_random_tag dlext_use_relro decoder' (tag_variable insert_random_tag dlext_use_relro distance ngranules s)
        | Abort \<Rightarrow> Abort
        | Undef \<Rightarrow> Undef
      else Ok s)"
  by auto
termination
  by (relation "measure (\<lambda>(r, d, decoder, s). length decoder)") (auto dest: pop_descriptor_shorter)

declare tag_loop.simps [simp del]

text \<open>The new flags of the library and the addresses for which the tags are set.\<close>

definition tag_globals :: "(nat \<Rightarrow> u64 \<Rightarrow> u64 \<Rightarrow> u64) \<Rightarrow> u32 \<Rightarrow> u64 \<Rightarrow> u8 list \<Rightarrow> bool \<Rightarrow> (u32 \<times> u64 list) res" where
  "tag_globals insert_random_tag flags load_bias descriptor_stream dlext_use_relro =
     (if flags AND FLAG_LINKED \<noteq> 0 then Ok (flags, [])
      else if flags AND FLAG_GLOBALS_TAGGED \<noteq> 0 then Ok (flags, [])
      else res_bind (tag_loop insert_random_tag dlext_use_relro descriptor_stream
               \<lparr>tg_addr = load_bias, tg_last_tag_mask = 1, tg_last_tag = 1, tg_count = 0, tg_granules = []\<rparr>)
             (\<lambda>s. Ok (flags OR FLAG_GLOBALS_TAGGED, tg_granules s)))"

section \<open>The tags with a shared RELRO\<close>

text \<open>
  A variable is given by the granules between it and the variable before it, and by its size in granules. Its
  descriptor, as the static linker writes it: sizes up to seven share a number with the distance.
\<close>

definition encode_variable :: "nat \<times> nat \<Rightarrow> u8 list" where
  "encode_variable v = (case v of (d, n) \<Rightarrow> if n < 8 then uleb128 (8 * d + n) else uleb128 (8 * d) @ uleb128 (n - 1))"

text \<open>The granules of the variables from the \<open>i\<close>-th on, each with its tag.\<close>

fun tagged_granules :: "nat \<Rightarrow> nat \<Rightarrow> (nat \<times> nat) list \<Rightarrow> (nat \<times> nat) list" where
  "tagged_granules i start [] = []"
| "tagged_granules i start ((d, n) # vs) =
     map (\<lambda>k. (start + 16 * d + 16 * k, (i + 1) mod 16)) [0..<n] @ tagged_granules (i + 1) (start + 16 * d + 16 * n) vs"

definition granule_tag :: "u64 \<Rightarrow> nat \<times> nat" where
  "granule_tag a = (unat (take_bit 56 a), unat (drop_bit 56 a AND 0x0f))"

lemma unat64_of_nat: "i < 2 ^ 64 \<Longrightarrow> unat (of_nat i :: u64) = i"
  by (simp add: unat_of_nat)

lemma descriptor_parts:
  assumes "m < 8" "8 * d + m < 2 ^ 64"
  shows "drop_bit 3 (of_nat (8 * d + m) :: u64) = of_nat d" "(of_nat (8 * d + m) :: u64) AND mask 3 = of_nat m"
proof -
  have u: "unat (of_nat (8 * d + m) :: u64) = 8 * d + m" "unat (of_nat d :: u64) = d" "unat (of_nat m :: u64) = m"
    using assms unat64_of_nat [of "8 * d + m"] unat64_of_nat [of d] unat64_of_nat [of m]
    by (simp_all del: of_nat_add of_nat_mult)
  have "(8 * d + m) div 8 = d" "(8 * d + m) mod 8 = m"
    using assms(1) by simp_all
  then show "drop_bit 3 (of_nat (8 * d + m) :: u64) = of_nat d"
    unfolding word_unat_eq_iff unsigned_drop_bit_eq u using assms by (simp add: drop_bit_eq_div take_bit_nat_eq_self)
  have "take_bit 3 (of_nat (8 * d + m) :: u64) = of_nat (take_bit 3 (8 * d + m))"
    by (simp only: take_bit_of_nat)
  also have "take_bit 3 (8 * d + m) = m"
    using assms(1) by (simp add: take_bit_eq_mod)
  finally show "(of_nat (8 * d + m) :: u64) AND mask 3 = of_nat m"
    by (simp only: take_bit_eq_mask)
qed

lemma pop_encoded:
  assumes "0 < n" "8 * d + 7 < 2 ^ 64" "n < 2 ^ 64"
  shows "pop_descriptor (encode_variable (d, n) @ rest) = Ok (of_nat (16 * d), of_nat n, rest)"
proof (cases "n < 8")
  case True
  have "(of_nat n :: u64) \<noteq> 0"
    using True assms(1) by (simp add: word_unat_eq_iff unat_of_nat)
  then show ?thesis
    using True assms uleb128_roundtrip [of "8 * d + n" rest] descriptor_parts [of n d]
    by (simp add: pop_descriptor_def encode_variable_def kDistanceReservedBits_def kTagGranuleSize_def Let_def del: of_nat_add of_nat_mult)
      (simp add: mult.commute)
next
  case False
  have n: "(of_nat (n - 1) :: u64) + 1 = of_nat n"
    using assms(1) by (metis Suc_diff_1 of_nat_Suc add.commute)
  show ?thesis
    using False assms uleb128_roundtrip [of "8 * d" "uleb128 (n - 1) @ rest"] uleb128_roundtrip [of "n - 1" rest] descriptor_parts [of 0 d] n
    by (simp add: pop_descriptor_def encode_variable_def kDistanceReservedBits_def kTagGranuleSize_def Let_def del: of_nat_mult of_nat_diff)
      (simp add: mult.commute)
qed

lemma granule_tag_tagged:
  assumes "A + j < 2 ^ 56"
  shows "granule_tag ((of_nat A OR push_bit 56 t) + of_nat j) = (A + j, unat t mod 16)"
proof -
  have low: "take_bit 56 (of_nat i :: u64) = of_nat i" if "i < 2 ^ 56" for i
  proof -
    have "unat (of_nat i :: u64) = i" using that by (simp add: unat_of_nat)
    then show ?thesis using that by (simp add: word_unat_eq_iff unsigned_take_bit_eq take_bit_nat_eq_self)
  qed
  let ?w = "of_nat (A + j) :: u64"
  have w: "take_bit 56 ?w = ?w" "unat ?w = A + j"
    using low [OF assms] assms unat64_of_nat [of "A + j"] by (simp_all del: of_nat_add)
  have "(of_nat A OR push_bit 56 t) + of_nat j = ?w + push_bit 56 t"
    using or_disjoint_add [OF low [of A], of t] assms by simp
  also have "\<dots> = ?w OR push_bit 56 t"
    using or_disjoint_add [OF w(1)] by simp
  finally have a: "(of_nat A OR push_bit 56 t) + of_nat j = ?w OR push_bit 56 t" .
  have "drop_bit 56 ?w = 0"
    using w(1) by (metis drop_bit_take_bit diff_self_eq_0 take_bit_0)
  moreover have "drop_bit 56 (push_bit 56 t) = take_bit 8 t"
    by (rule bit_word_eqI) (auto simp: bit_simps)
  moreover have "x AND 0x0f = take_bit 4 x" for x :: u64
    by (simp add: take_bit_eq_mask mask_eq_exp_minus_1)
  ultimately have "drop_bit 56 (?w OR push_bit 56 t) AND 0x0f = take_bit 4 t"
    by simp
  moreover have "take_bit 56 (?w OR push_bit 56 t) = ?w"
    unfolding take_bit_or w(1) by (simp add: take_bit_push_bit)
  moreover have "unat (take_bit 4 t) = unat t mod 16"
    by (simp add: unsigned_take_bit_eq) (simp add: take_bit_eq_mod)
  ultimately show ?thesis
    unfolding granule_tag_def a using w(2) by (simp only:)
qed

text \<open>The counter of the tags and the address, before the \<open>i\<close>-th variable.\<close>

definition tag_state_at :: "nat \<Rightarrow> nat \<Rightarrow> tag_state \<Rightarrow> bool" where
  "tag_state_at i start s \<longleftrightarrow> tg_addr s = of_nat start \<and> tg_last_tag s \<noteq> 0 \<and> tg_last_tag s \<le> 65536 \<and>
     unat (tg_last_tag s) mod 16 = (i + 1) mod 16"

lemma next_tag:
  fixes t :: u64
  assumes "t \<noteq> 0" "t \<le> 65536" "unat t mod 16 = (i + 1) mod 16"
  shows "(if t + 1 > 65536 then 1 else t + 1) \<noteq> 0 \<and> (if t + 1 > 65536 then 1 else t + 1) \<le> 65536 \<and>
    unat (if t + 1 > 65536 then 1 else t + 1) mod 16 = (i + 2) mod 16"
proof -
  have "unat t \<le> 65536" using assms(2) by (simp add: word_le_nat_alt)
  then have u: "unat (t + 1) = unat t + 1" using unat64_of_nat [of "unat t + 1"] by (simp add: add.commute)
  show ?thesis
  proof (cases "unat t = 65536")
    case True
    then have "(i + 2) mod 16 = 1" using mod_add_cong [OF assms(3) refl, of 1] by simp
    moreover have "t + 1 > 65536" using True u by (simp add: word_less_nat_alt)
    ultimately show ?thesis by simp
  next
    case False
    have "(unat t + 1) mod 16 = (i + 2) mod 16" using mod_add_cong [OF assms(3) refl, of 1] by simp
    moreover have "\<not> t + 1 > 65536" "t + 1 \<le> 65536" "t + 1 \<noteq> 0"
      using False u \<open>unat t \<le> 65536\<close> by (simp_all add: word_less_nat_alt word_le_nat_alt word_unat_eq_iff del: unat_eq_zero)
    ultimately show ?thesis using u by simp
  qed
qed

lemma tag_variable_step:
  assumes "tag_state_at i start s" "start + 16 * d + 16 * n \<le> 2 ^ 56"
  shows "tag_state_at (i + 1) (start + 16 * d + 16 * n) (tag_variable f True (of_nat (16 * d)) (of_nat n) s) \<and>
    map granule_tag (tg_granules (tag_variable f True (of_nat (16 * d)) (of_nat n) s)) =
    map granule_tag (tg_granules s) @ map (\<lambda>k. (start + 16 * d + 16 * k, (i + 1) mod 16)) [0..<n]"
proof -
  let ?t = "tg_last_tag s"
  have a: "tg_addr s + of_nat (16 * d) = of_nat (start + 16 * d)"
    using assms(1) by (simp add: tag_state_at_def)
  have n: "unat (of_nat n :: u64) = n"
    using assms(2) unat64_of_nat [of n] by simp
  have g: "granule_tag ((of_nat (start + 16 * d) OR push_bit 56 ?t) + of_nat (k * 16)) = (start + 16 * d + 16 * k, (i + 1) mod 16)"
    if "k < n" for k
    using granule_tag_tagged [of "start + 16 * d" "k * 16" ?t] that assms by (simp add: tag_state_at_def mult.commute)
  have v: "tag_variable f True (of_nat (16 * d)) (of_nat n) s =
      s\<lparr>tg_addr := of_nat (start + 16 * d) + of_nat n * 16, tg_last_tag := if ?t + 1 > 65536 then 1 else ?t + 1, tg_count := tg_count s + 1,
        tg_granules := tg_granules s @ map (\<lambda>k. (of_nat (start + 16 * d) OR push_bit 56 ?t) + of_nat (k * 16)) [0..<n]\<rparr>"
    unfolding tag_variable_def next_tagged_addr_def kTagGranuleSize_def
    by (simp add: a n Let_def del: of_nat_mult of_nat_add)
  have "tg_addr (tag_variable f True (of_nat (16 * d)) (of_nat n) s) = of_nat (start + 16 * d + 16 * n)"
    unfolding v by simp
  then show ?thesis
    using next_tag [of ?t i] assms(1) g unfolding v by (simp add: tag_state_at_def comp_def)
qed

lemma encode_variable_not_Nil: "encode_variable v \<noteq> []"
  by (cases v) (auto simp: encode_variable_def uleb128.simps [of "8 * _"] uleb128.simps [of "8 * _ + _"])

lemma tag_loop_encoded:
  assumes "tag_state_at i start s" "\<forall>v \<in> set vs. 0 < snd v" "start + 16 * (sum_list (map (\<lambda>v. fst v + snd v) vs)) \<le> 2 ^ 56"
  shows "\<exists>s'. tag_loop f True (concat (map encode_variable vs)) s = Ok s' \<and>
    map granule_tag (tg_granules s') = map granule_tag (tg_granules s) @ tagged_granules i start vs"
  using assms
proof (induction vs arbitrary: i start s)
  case Nil
  then show ?case by (subst tag_loop.simps) simp
next
  case (Cons v vs)
  obtain d n where v: "v = (d, n)" by (cases v)
  let ?s = "tag_variable f True (of_nat (16 * d)) (of_nat n) s" and ?rest = "concat (map encode_variable vs)"
  have bounds: "0 < n" "8 * d + 7 < 2 ^ 64" "n < 2 ^ 64" "start + 16 * d + 16 * n \<le> 2 ^ 56"
    using Cons.prems(2,3) by (simp_all add: v)
  have step: "tag_loop f True (concat (map encode_variable (v # vs))) s = tag_loop f True ?rest ?s"
    using pop_encoded [OF bounds(1-3), of ?rest] encode_variable_not_Nil [of v] by (subst tag_loop.simps) (simp add: v)
  note st = tag_variable_step [OF Cons.prems(1) bounds(4), of f]
  obtain s' where "tag_loop f True ?rest ?s = Ok s'"
      "map granule_tag (tg_granules s') = map granule_tag (tg_granules ?s) @ tagged_granules (i + 1) (start + 16 * d + 16 * n) vs"
    using Cons.IH [OF conjunct1 [OF st]] Cons.prems(2,3) by (auto simp: v algebra_simps)
  then show ?case
    unfolding step using st by (simp add: v)
qed

text \<open>
  C30: With a shared RELRO every granule of every described global variable is tagged, no other one is, and
  the variables get the tags 1, 2, 3, ... modulo 16 in their order: the counter runs up to
  \<open>1 << kTagGranuleSize\<close>, 65536, where a tag has four bits. So every sixteenth variable gets the tag zero, although the
  comment says that tag zero is never generated.
\<close>

theorem tag_globals_relro_tags:
  assumes "flags AND FLAG_LINKED = 0" "flags AND FLAG_GLOBALS_TAGGED = 0" "\<forall>v \<in> set vs. 0 < snd v"
    and "unat load_bias + 16 * (sum_list (map (\<lambda>v. fst v + snd v) vs)) \<le> 2 ^ 56"
  shows "\<exists>granules. tag_globals insert_random_tag flags load_bias (concat (map encode_variable vs)) True =
      Ok (flags OR FLAG_GLOBALS_TAGGED, granules) \<and>
    map granule_tag granules = tagged_granules 0 (unat load_bias) vs"
proof -
  let ?s = "\<lparr>tg_addr = load_bias, tg_last_tag_mask = 1, tg_last_tag = 1, tg_count = 0, tg_granules = []\<rparr>"
  have "tag_state_at 0 (unat load_bias) ?s"
    by (simp add: tag_state_at_def)
  then show ?thesis
    using tag_loop_encoded [of 0 "unat load_bias" ?s vs insert_random_tag] assms by (auto simp: tag_globals_def)
qed

definition sixteen_variables :: "(nat \<times> nat) list" where
  "sixteen_variables = [(0, 1), (0, 1), (0, 1), (0, 1), (0, 1), (0, 1), (0, 1), (0, 1), (0, 1), (0, 1), (0, 1), (0, 1), (0, 1), (0, 1), (0, 1), (0, 1)]"

theorem tag_globals_relro_tags_witness:
  "\<exists>granules. tag_globals (\<lambda>i a m. a) 0 0x10000 (concat (map encode_variable sixteen_variables)) True = Ok (FLAG_GLOBALS_TAGGED, granules) \<and>
     snd (granule_tag (last granules)) = 0"
proof -
  have h: "(0 :: u32) AND FLAG_LINKED = 0" "(0 :: u32) AND FLAG_GLOBALS_TAGGED = 0" "\<forall>v \<in> set sixteen_variables. 0 < snd v"
      "unat (0x10000 :: u64) + 16 * (sum_list (map (\<lambda>v. fst v + snd v) sixteen_variables)) \<le> 2 ^ 56"
    by (simp_all add: sixteen_variables_def)
  obtain granules where g: "tag_globals (\<lambda>i a m. a) 0 0x10000 (concat (map encode_variable sixteen_variables)) True =
      Ok (0 OR FLAG_GLOBALS_TAGGED, granules)" "map granule_tag granules = tagged_granules 0 (unat (0x10000 :: u64)) sixteen_variables"
    using tag_globals_relro_tags [OF h] by blast
  have t: "tagged_granules 0 (unat (0x10000 :: u64)) sixteen_variables \<noteq> []"
      "snd (last (tagged_granules 0 (unat (0x10000 :: u64)) sixteen_variables)) = 0"
    by (simp_all add: sixteen_variables_def)
  have "snd (granule_tag (last granules)) = 0"
    using t g(2) by (metis last_map map_is_Nil_conv)
  then show ?thesis using g(1) by simp
qed

end
