(* ===== verification/Linker_Symbols.thy ===== *)
theory Linker_Symbols
  imports Bionic_Prelude
begin

text \<open>
  Symbol lookup of the dynamic linker: linker/linker_soinfo.cpp, linker/linker_gnu_hash.h, the version
  definitions of linker/linker.cpp and the test of linker/linker_relocate.h, on LP64 targets.

  The tables of a library are lists of their entries. \<open>gnu_chain_\<close> is the array as the code indexes it, by
  symbol; the entries before the first hashed symbol are not part of the table and have no meaning. A
  read outside a table is undefined. Sections are shorter than $2^{32}$ entries, so the 32-bit symbol
  index does not wrap before it leaves its table.
\<close>

section \<open>Data\<close>

record elf_sym =
  st_name :: u32
  st_info :: u8
  st_shndx :: u16
  st_value :: u64
  st_size :: u64

record verdef =
  vd_version :: u16
  vd_flags :: u16
  vd_ndx :: u16
  vd_cnt :: u16
  vd_hash :: u32
  vd_aux :: nat
  vd_next :: nat

text \<open>
  The version definitions are read at byte offsets of their section; \<open>vda_name\<close> is the name of the
  auxiliary entry at an offset.
\<close>

record soinfo =
  gnu_hash_flag :: bool
  strtab :: "u8 list"
  symtab :: "elf_sym list"
  versym :: "u16 list option"
  gnu_nbucket :: nat
  gnu_bucket :: "u32 list"
  gnu_chain :: "u32 list"
  gnu_maskwords :: u32
  gnu_shift2 :: u32
  gnu_bloom_filter :: "u64 list"
  nbucket :: nat
  bucket :: "u32 list"
  chain :: "u32 list"
  verdef_at :: "(nat \<Rightarrow> verdef) option"
  vda_name_at :: "nat \<Rightarrow> u32"
  verdef_cnt :: nat
  load_bias :: u64

record version_info =
  vi_elf_hash :: u32
  vi_name :: "u8 list"

definition nth_res :: "'a list \<Rightarrow> nat \<Rightarrow> 'a res" where
  "nth_res xs i = (if i < length xs then Ok (xs ! i) else Undef)"

section \<open>Hashes\<close>

text \<open>A name is the bytes before its terminator.\<close>

fun gnu_hash_from :: "u32 \<Rightarrow> u8 list \<Rightarrow> u32" where
  "gnu_hash_from h [] = h"
| "gnu_hash_from h (c # name) = gnu_hash_from (h + (push_bit 5 h + ucast c)) name"

definition calculate_gnu_hash :: "u8 list \<Rightarrow> u32 \<times> nat" where
  "calculate_gnu_hash name = (gnu_hash_from 5381 name, length name)"

fun elf_hash_from :: "u32 \<Rightarrow> u8 list \<Rightarrow> u32" where
  "elf_hash_from h [] = h"
| "elf_hash_from h (c # name) =
     (let h = push_bit 4 h + ucast c; g = h AND 0xf0000000; h = h XOR g; h = h XOR drop_bit 24 g in elf_hash_from h name)"

definition calculate_elf_hash :: "u8 list \<Rightarrow> u32" where
  "calculate_elf_hash name = elf_hash_from 0 name"

section \<open>Strings\<close>

definition soinfo_get_string :: "soinfo \<Rightarrow> u32 \<Rightarrow> u8 list res" where
  "soinfo_get_string si index = (if unat index \<ge> length (strtab si) then Abort else Ok (drop (unat index) (strtab si)))"

text \<open>\<open>strcmp(s, name) == 0\<close> for a string inside a table and a name.\<close>

fun strcmp_eq :: "u8 list \<Rightarrow> u8 list \<Rightarrow> bool res" where
  "strcmp_eq [] name = Undef"
| "strcmp_eq (b # s) [] = Ok (b = 0)"
| "strcmp_eq (b # s) (c # name) = (if b \<noteq> c then Ok False else strcmp_eq s name)"

section \<open>Versions\<close>

definition kVersymNotNeeded :: u16 where "kVersymNotNeeded = 0"
definition kVersymGlobal :: u16 where "kVersymGlobal = 1"
definition kVersymHiddenBit :: u16 where "kVersymHiddenBit = 0x8000"
definition VER_FLG_BASE :: u16 where "VER_FLG_BASE = 1"

text \<open>The loop over the version definitions, from an offset on, and the number of them left: the functor
  may stop it. \<open>Ok\<close> of \<open>None\<close> is the error result \<open>false\<close>.\<close>

fun verdef_loop :: "soinfo \<Rightarrow> (nat \<Rightarrow> verdef) \<Rightarrow> ('s \<Rightarrow> verdef \<Rightarrow> u32 \<Rightarrow> (bool \<times> 's) res) \<Rightarrow> nat \<Rightarrow> nat \<Rightarrow> 's \<Rightarrow> 's option res" where
  "verdef_loop si at functor 0 offset s = Ok (Some s)"
| "verdef_loop si at functor (Suc n) offset s =
     (let verdef = at offset; verdaux_offset = offset + vd_aux verdef; offset = offset + vd_next verdef in
      if vd_version verdef \<noteq> 1 then Ok None
      else if vd_flags verdef AND VER_FLG_BASE \<noteq> 0 then verdef_loop si at functor n offset s
      else if vd_cnt verdef = 0 then Ok None
      else res_bind (functor s verdef (vda_name_at si verdaux_offset)) (\<lambda>(stop, s).
        if stop then Ok (Some s) else verdef_loop si at functor n offset s))"

definition for_each_verdef :: "soinfo \<Rightarrow> ('s \<Rightarrow> verdef \<Rightarrow> u32 \<Rightarrow> (bool \<times> 's) res) \<Rightarrow> 's \<Rightarrow> 's option res" where
  "for_each_verdef si functor s =
     (case verdef_at si of None \<Rightarrow> Ok (Some s) | Some at \<Rightarrow> verdef_loop si at functor (verdef_cnt si) 0 s)"

definition find_verdef_version_index :: "soinfo \<Rightarrow> version_info option \<Rightarrow> u16 res" where
  "find_verdef_version_index si vi =
     (case vi of
        None \<Rightarrow> Ok kVersymNotNeeded
      | Some vi \<Rightarrow>
          res_bind (for_each_verdef si (\<lambda>result verdef vda_name.
            if vd_hash verdef = vi_elf_hash vi then
              res_bind (soinfo_get_string si vda_name) (\<lambda>s. res_bind (strcmp_eq s (vi_name vi)) (\<lambda>eq.
                Ok (if eq then (True, vd_ndx verdef) else (False, result))))
            else Ok (False, result)) kVersymGlobal)
          (\<lambda>r. case r of None \<Rightarrow> Abort | Some result \<Rightarrow> Ok result))"

definition validate_verdef_section :: "soinfo \<Rightarrow> bool res" where
  "validate_verdef_section si =
     res_bind (for_each_verdef si (\<lambda>s verdef vda_name. Ok (False, s)) ()) (\<lambda>r. Ok (r \<noteq> None))"

definition check_symbol_version :: "u16 list option \<Rightarrow> nat \<Rightarrow> u16 \<Rightarrow> bool res" where
  "check_symbol_version ver_table sym_idx verneed =
     (case ver_table of
        None \<Rightarrow> Ok True
      | Some t \<Rightarrow> res_bind (nth_res t sym_idx) (\<lambda>verdef.
          Ok (if verneed = kVersymNotNeeded then verdef AND kVersymHiddenBit = 0
              else verneed = verdef AND NOT kVersymHiddenBit)))"

text \<open>Symbols of other bindings are ignored, with a warning unless they are local.\<close>

definition is_symbol_global_and_defined :: "elf_sym \<Rightarrow> bool" where
  "is_symbol_global_and_defined s =
     (if drop_bit 4 (st_info s) = 1 \<or> drop_bit 4 (st_info s) = 2 then st_shndx s \<noteq> 0 else False)"

section \<open>Lookup in one library\<close>

text \<open>The Bloom filter: a shift by 32 or more bits is undefined.\<close>

definition bloom_test :: "u64 list \<Rightarrow> u32 \<Rightarrow> u32 \<Rightarrow> u32 \<Rightarrow> bool res" where
  "bloom_test words maskwords shift2 hash =
     (if unat shift2 \<ge> 32 then Undef
      else res_bind (nth_res words (unat ((hash div 64) AND maskwords))) (\<lambda>bloom_word.
        let h1 = hash mod 64; h2 = drop_bit (unat shift2) hash mod 64 in
        Ok (1 AND drop_bit (unat h1) bloom_word AND drop_bit (unat h2) bloom_word = 1)))"

definition hash_bucket :: "u32 \<Rightarrow> nat \<Rightarrow> nat" where
  "hash_bucket hash n = nat (uint hash mod int n)"

definition bucket_at :: "u32 list \<Rightarrow> nat \<Rightarrow> u32 \<Rightarrow> u32 res" where
  "bucket_at buckets n hash = (if n = 0 then Undef else nth_res buckets (hash_bucket hash n))"

definition symbol_is :: "soinfo \<Rightarrow> u8 list \<Rightarrow> u16 \<Rightarrow> nat \<Rightarrow> bool res" where
  "symbol_is si name verneed n =
     res_bind (nth_res (symtab si) n) (\<lambda>s.
     res_bind (check_symbol_version (versym si) n verneed) (\<lambda>ok.
       if \<not> ok then Ok False
       else res_bind (soinfo_get_string si (st_name s)) (\<lambda>str.
         res_bind (strcmp_eq str name) (\<lambda>eq. Ok (eq \<and> is_symbol_global_and_defined s)))))"

function gnu_lookup_loop :: "soinfo \<Rightarrow> u8 list \<Rightarrow> u32 \<Rightarrow> u16 \<Rightarrow> nat \<Rightarrow> nat option res" where
  "gnu_lookup_loop si name hash verneed n =
     (if n < length (gnu_chain si) then
        res_bind (if drop_bit 1 (gnu_chain si ! n XOR hash) = 0 then symbol_is si name verneed n else Ok False) (\<lambda>found.
          if found then Ok (Some n)
          else if gnu_chain si ! n AND 1 = 0 then gnu_lookup_loop si name hash verneed (n + 1) else Ok None)
      else Undef)"
  by auto
termination
  by (relation "measure (\<lambda>(si, name, hash, verneed, n). length (gnu_chain si) - n)") auto

declare gnu_lookup_loop.simps [simp del]

definition gnu_lookup :: "soinfo \<Rightarrow> u8 list \<Rightarrow> version_info option \<Rightarrow> nat option res" where
  "gnu_lookup si name vi =
     (let hash = fst (calculate_gnu_hash name) in
      res_bind (bloom_test (gnu_bloom_filter si) (gnu_maskwords si) (gnu_shift2 si) hash) (\<lambda>ok.
        if \<not> ok then Ok None
        else res_bind (bucket_at (gnu_bucket si) (gnu_nbucket si) hash) (\<lambda>n.
          if n = 0 then Ok None
          else res_bind (find_verdef_version_index si vi) (\<lambda>verneed. gnu_lookup_loop si name hash verneed (unat n)))))"

text \<open>
  The chains of the System V table are linked. A chain with a cycle makes the loop run forever, which C++
  leaves undefined for a loop without effects: it is the case when more steps are taken than the chain
  array has entries.
\<close>

fun elf_lookup_loop :: "soinfo \<Rightarrow> u8 list \<Rightarrow> u16 \<Rightarrow> nat \<Rightarrow> u32 \<Rightarrow> nat option res" where
  "elf_lookup_loop si name verneed 0 n = (if n = 0 then Ok None else Undef)"
| "elf_lookup_loop si name verneed (Suc fuel) n =
     (if n = 0 then Ok None
      else res_bind (symbol_is si name verneed (unat n)) (\<lambda>found.
        if found then Ok (Some (unat n))
        else res_bind (nth_res (chain si) (unat n)) (\<lambda>n. elf_lookup_loop si name verneed fuel n)))"

definition elf_lookup :: "soinfo \<Rightarrow> u8 list \<Rightarrow> version_info option \<Rightarrow> nat option res" where
  "elf_lookup si name vi =
     (let hash = calculate_elf_hash name in
      res_bind (find_verdef_version_index si vi) (\<lambda>verneed.
      res_bind (bucket_at (bucket si) (nbucket si) hash) (\<lambda>n. elf_lookup_loop si name verneed (length (chain si)) n)))"

definition find_symbol_by_name :: "soinfo \<Rightarrow> u8 list \<Rightarrow> version_info option \<Rightarrow> nat option res" where
  "find_symbol_by_name si name vi = (if gnu_hash_flag si then gnu_lookup si name vi else elf_lookup si name vi)"

section \<open>Lookup by address\<close>

definition symbol_matches_soaddr :: "elf_sym \<Rightarrow> u64 \<Rightarrow> bool" where
  "symbol_matches_soaddr s soaddr \<longleftrightarrow>
     st_shndx s \<noteq> 0 \<and> st_info s AND 0xf \<noteq> 6 \<and> soaddr \<ge> st_value s \<and> soaddr < st_value s + st_size s"

function gnu_addr_chain :: "soinfo \<Rightarrow> u64 \<Rightarrow> nat \<Rightarrow> nat option res" where
  "gnu_addr_chain si soaddr n =
     (if n < length (gnu_chain si) then
        res_bind (nth_res (symtab si) n) (\<lambda>s.
          if symbol_matches_soaddr s soaddr then Ok (Some n)
          else if gnu_chain si ! n AND 1 = 0 then gnu_addr_chain si soaddr (n + 1) else Ok None)
      else Undef)"
  by auto
termination
  by (relation "measure (\<lambda>(si, soaddr, n). length (gnu_chain si) - n)") auto

declare gnu_addr_chain.simps [simp del]

fun gnu_addr_buckets :: "soinfo \<Rightarrow> u64 \<Rightarrow> u32 list \<Rightarrow> nat option res" where
  "gnu_addr_buckets si soaddr [] = Ok None"
| "gnu_addr_buckets si soaddr (n # buckets) =
     (if n = 0 then gnu_addr_buckets si soaddr buckets
      else res_bind (gnu_addr_chain si soaddr (unat n)) (\<lambda>r.
        case r of Some i \<Rightarrow> Ok (Some i) | None \<Rightarrow> gnu_addr_buckets si soaddr buckets))"

definition gnu_addr_lookup :: "soinfo \<Rightarrow> u64 \<Rightarrow> nat option res" where
  "gnu_addr_lookup si addr =
     (if length (gnu_bucket si) < gnu_nbucket si then Undef
      else gnu_addr_buckets si (addr - load_bias si) (take (gnu_nbucket si) (gnu_bucket si)))"

definition elf_addr_lookup :: "soinfo \<Rightarrow> u64 \<Rightarrow> nat option res" where
  "elf_addr_lookup si addr =
     (if length (symtab si) < length (chain si) then Undef
      else Ok (find (\<lambda>i. symbol_matches_soaddr (symtab si ! i) (addr - load_bias si)) [0..<length (chain si)]))"

definition find_symbol_by_address :: "soinfo \<Rightarrow> u64 \<Rightarrow> nat option res" where
  "find_symbol_by_address si addr = (if gnu_hash_flag si then gnu_addr_lookup si addr else elf_addr_lookup si addr)"

section \<open>Lookup in a list of libraries\<close>

record SymbolLookupLib =
  lib_maskwords :: u32
  lib_shift2 :: u32
  lib_bloom_filter :: "u64 list option"
  lib_strtab :: "u8 list"
  lib_symtab :: "elf_sym list"
  lib_versym :: "u16 list option"
  lib_chain :: "u32 list"
  lib_nbucket :: nat
  lib_bucket :: "u32 list"
  lib_si :: "soinfo option"

definition no_lib :: SymbolLookupLib where
  "no_lib = \<lparr>lib_maskwords = 0, lib_shift2 = 0, lib_bloom_filter = None, lib_strtab = [], lib_symtab = [], lib_versym = None,
     lib_chain = [], lib_nbucket = 0, lib_bucket = [], lib_si = None\<rparr>"

definition needs_sysv_lookup :: "SymbolLookupLib \<Rightarrow> bool" where
  "needs_sysv_lookup lib \<longleftrightarrow> lib_si lib \<noteq> None \<and> lib_bloom_filter lib = None"

definition get_lookup_lib :: "soinfo \<Rightarrow> SymbolLookupLib" where
  "get_lookup_lib si =
     (if \<not> gnu_hash_flag si then no_lib\<lparr>lib_si := Some si\<rparr>
      else \<lparr>lib_maskwords = gnu_maskwords si, lib_shift2 = gnu_shift2 si, lib_bloom_filter = Some (gnu_bloom_filter si),
            lib_strtab = strtab si, lib_symtab = symtab si, lib_versym = versym si,
            lib_chain = gnu_chain si, lib_nbucket = gnu_nbucket si, lib_bucket = gnu_bucket si, lib_si = Some si\<rparr>)"

text \<open>The search of a chain. The version index is computed when the first hash matches: \<open>None\<close> before that.\<close>

definition lib_symbol_is :: "SymbolLookupLib \<Rightarrow> u8 list \<Rightarrow> nat \<Rightarrow> u16 \<Rightarrow> nat \<Rightarrow> bool res" where
  "lib_symbol_is lib name name_len verneed sym_idx =
     res_bind (nth_res (lib_symtab lib) sym_idx) (\<lambda>s.
     res_bind (check_symbol_version (lib_versym lib) sym_idx verneed) (\<lambda>ok.
       Ok (ok \<and> unat (st_name s) + name_len + 1 \<le> length (lib_strtab lib) \<and>
           take (name_len + 1) (drop (unat (st_name s)) (lib_strtab lib)) = name @ [0] \<and>
           is_symbol_global_and_defined s)))"

function lib_chain_loop :: "SymbolLookupLib \<Rightarrow> soinfo \<Rightarrow> u8 list \<Rightarrow> nat \<Rightarrow> u32 \<Rightarrow> version_info option \<Rightarrow> u16 option \<Rightarrow> nat \<Rightarrow> nat option res" where
  "lib_chain_loop lib si name name_len hash vi verneed sym_idx =
     (if sym_idx < length (lib_chain lib) then
        let chain_value = lib_chain lib ! sym_idx;
            continue = (\<lambda>verneed. if chain_value AND 1 = 0 then lib_chain_loop lib si name name_len hash vi verneed (sym_idx + 1) else Ok None) in
        if drop_bit 1 chain_value = drop_bit 1 hash then
          res_bind (case verneed of Some v \<Rightarrow> Ok v | None \<Rightarrow> (if vi \<noteq> None then find_verdef_version_index si vi else Ok kVersymNotNeeded)) (\<lambda>v.
          res_bind (lib_symbol_is lib name name_len v sym_idx) (\<lambda>found.
            if found then Ok (Some sym_idx) else continue (Some v)))
        else continue verneed
      else Undef)"
  by auto
termination
  by (relation "measure (\<lambda>(lib, si, name, name_len, hash, vi, verneed, n). length (lib_chain lib) - n)") auto

declare lib_chain_loop.simps [simp del]

fun soinfo_do_lookup_impl :: "bool \<Rightarrow> u8 list \<Rightarrow> version_info option \<Rightarrow> SymbolLookupLib list \<Rightarrow> (soinfo \<times> nat) option res" where
  "soinfo_do_lookup_impl is_general name vi [] = Ok None"
| "soinfo_do_lookup_impl is_general name vi (lib # it) =
     (case lib_si lib of
        None \<Rightarrow> Undef
      | Some si \<Rightarrow>
        if is_general \<and> needs_sysv_lookup lib then
          res_bind (find_symbol_by_name si name vi) (\<lambda>r.
            case r of Some n \<Rightarrow> Ok (Some (si, n)) | None \<Rightarrow> soinfo_do_lookup_impl is_general name vi it)
        else
          (case lib_bloom_filter lib of
             None \<Rightarrow> Undef
           | Some words \<Rightarrow>
             (case calculate_gnu_hash name of (hash, name_len) \<Rightarrow>
              res_bind (bloom_test words (lib_maskwords lib) (lib_shift2 lib) hash) (\<lambda>ok.
                if \<not> ok then soinfo_do_lookup_impl is_general name vi it
                else res_bind (bucket_at (lib_bucket lib) (lib_nbucket lib) hash) (\<lambda>sym_idx.
                  if sym_idx = 0 then soinfo_do_lookup_impl is_general name vi it
                  else res_bind (lib_chain_loop lib si name name_len hash vi None (unat sym_idx)) (\<lambda>r.
                    case r of Some n \<Rightarrow> Ok (Some (si, n)) | None \<Rightarrow> soinfo_do_lookup_impl is_general name vi it))))))"

text \<open>
  A lookup list is for one library, \<open>sole_lib\<close>, or for the libraries of its vector from \<open>lookup_begin\<close> on.
\<close>

record SymbolLookupList =
  lookup_libs :: "SymbolLookupLib list"
  sole_lib :: "SymbolLookupLib option"
  lookup_begin :: nat
  slow_path_count :: u64

definition sole_lookup_list :: "bool \<Rightarrow> soinfo \<Rightarrow> SymbolLookupList" where
  "sole_lookup_list debug si =
     (let lib = get_lookup_lib si in
      \<lparr>lookup_libs = [], sole_lib = Some lib, lookup_begin = 0, slow_path_count = of_bool debug + of_bool (needs_sysv_lookup lib)\<rparr>)"

definition push_lookup_lib :: "soinfo \<Rightarrow> SymbolLookupList \<Rightarrow> SymbolLookupList" where
  "push_lookup_lib si l =
     (let lib = get_lookup_lib si in
      l\<lparr>lookup_libs := lookup_libs l @ [lib], slow_path_count := slow_path_count l + of_bool (needs_sysv_lookup lib)\<rparr>)"

definition group_lookup_list :: "bool \<Rightarrow> soinfo list \<Rightarrow> soinfo list \<Rightarrow> SymbolLookupList" where
  "group_lookup_list debug global_group local_group =
     fold push_lookup_lib local_group (fold push_lookup_lib global_group
       \<lparr>lookup_libs = [no_lib], sole_lib = None, lookup_begin = 1, slow_path_count = of_bool debug\<rparr>)"

definition set_dt_symbolic_lib :: "soinfo option \<Rightarrow> SymbolLookupList \<Rightarrow> SymbolLookupList res" where
  "set_dt_symbolic_lib lib l =
     (case lookup_libs l of
        [] \<Rightarrow> Abort
      | old # rest \<Rightarrow>
        let new = (case lib of Some si \<Rightarrow> get_lookup_lib si | None \<Rightarrow> no_lib) in
        Ok (l\<lparr>lookup_libs := new # rest, lookup_begin := if lib = None then 1 else 0,
            slow_path_count := slow_path_count l - of_bool (needs_sysv_lookup old) + of_bool (needs_sysv_lookup new)\<rparr>))"

definition needs_slow_path :: "SymbolLookupList \<Rightarrow> bool" where
  "needs_slow_path l \<longleftrightarrow> slow_path_count l > 0"

definition lookup_range :: "SymbolLookupList \<Rightarrow> SymbolLookupLib list" where
  "lookup_range l = (case sole_lib l of Some lib \<Rightarrow> [lib] | None \<Rightarrow> drop (lookup_begin l) (lookup_libs l))"

definition soinfo_do_lookup :: "u8 list \<Rightarrow> version_info option \<Rightarrow> SymbolLookupList \<Rightarrow> (soinfo \<times> nat) option res" where
  "soinfo_do_lookup name vi lookup_list =
     (if needs_slow_path lookup_list
      then soinfo_do_lookup_impl True name vi (lookup_range lookup_list)
      else soinfo_do_lookup_impl False name vi (lookup_range lookup_list))"

end
