(* ===== verification/Linker_Symbols_Spec.thy ===== *)
theory Linker_Symbols_Spec
  imports Linker_Symbols
begin

text \<open>
  What symbol lookup computes: on a well-formed GNU hash table the lookup finds the first symbol of the
  table with the name and version, and the search of a lookup list is the search of its libraries in order.
\<close>

section \<open>Well-formed tables\<close>

definition sym_name :: "soinfo \<Rightarrow> nat \<Rightarrow> u8 list" where
  "sym_name si i = takeWhile (\<lambda>c. c \<noteq> 0) (drop (unat (st_name (symtab si ! i))) (strtab si))"

definition name_ok :: "soinfo \<Rightarrow> nat \<Rightarrow> bool" where
  "name_ok si i \<longleftrightarrow> 0 \<in> set (drop (unat (st_name (symtab si ! i))) (strtab si))"

definition sym_hash :: "soinfo \<Rightarrow> nat \<Rightarrow> u32" where
  "sym_hash si i = fst (calculate_gnu_hash (sym_name si i))"

definition sym_bucket :: "soinfo \<Rightarrow> nat \<Rightarrow> nat" where
  "sym_bucket si i = hash_bucket (sym_hash si i) (gnu_nbucket si)"

definition version_ok :: "soinfo \<Rightarrow> u16 \<Rightarrow> nat \<Rightarrow> bool" where
  "version_ok si verneed i =
     (case versym si of
        None \<Rightarrow> True
      | Some t \<Rightarrow> if verneed = kVersymNotNeeded then t ! i AND kVersymHiddenBit = 0
                  else verneed = t ! i AND NOT kVersymHiddenBit)"

text \<open>The symbol has the name and the version and is a definition that other libraries may use.\<close>

definition sym_matches :: "soinfo \<Rightarrow> u8 list \<Rightarrow> u16 \<Rightarrow> nat \<Rightarrow> bool" where
  "sym_matches si name verneed i \<longleftrightarrow>
     version_ok si verneed i \<and> sym_name si i = name \<and> is_symbol_global_and_defined (symtab si ! i)"

text \<open>
  The table that a static linker writes for the symbols from \<open>symndx\<close> on: the symbols are ordered by
  bucket, a bucket holds its first symbol, a chain value is the hash with its lowest bit replaced by the
  end mark, and the filter has the bits of every symbol.
\<close>

definition gnu_sym_ok :: "soinfo \<Rightarrow> nat \<Rightarrow> bool" where
  "gnu_sym_ok si i \<longleftrightarrow>
     name_ok si i \<and> drop_bit 1 (gnu_chain si ! i) = drop_bit 1 (sym_hash si i) \<and>
     (gnu_chain si ! i AND 1 = 0 \<longleftrightarrow> i + 1 < length (symtab si) \<and> sym_bucket si (i + 1) = sym_bucket si i) \<and>
     bloom_test (gnu_bloom_filter si) (gnu_maskwords si) (gnu_shift2 si) (sym_hash si i) = Ok True"

definition gnu_bucket_ok :: "soinfo \<Rightarrow> nat \<Rightarrow> nat \<Rightarrow> bool" where
  "gnu_bucket_ok si symndx b \<longleftrightarrow>
     gnu_bucket si ! b = (case find (\<lambda>i. sym_bucket si i = b) [symndx..<length (symtab si)] of None \<Rightarrow> 0 | Some i \<Rightarrow> of_nat i)"

definition versym_ok :: "soinfo \<Rightarrow> bool" where
  "versym_ok si \<longleftrightarrow> (case versym si of None \<Rightarrow> True | Some t \<Rightarrow> length t = length (symtab si))"

definition wf_gnu :: "nat \<Rightarrow> soinfo \<Rightarrow> bool" where
  "wf_gnu symndx si \<longleftrightarrow>
     0 < symndx \<and> length (gnu_chain si) = length (symtab si) \<and> int (length (symtab si)) < 2 ^ 32 \<and>
     versym_ok si \<and>
     0 < gnu_nbucket si \<and> length (gnu_bucket si) = gnu_nbucket si \<and>
     length (gnu_bloom_filter si) = unat (gnu_maskwords si) + 1 \<and> unat (gnu_shift2 si) < 32 \<and>
     sorted (map (sym_bucket si) [symndx..<length (symtab si)]) \<and>
     (\<forall>i \<in> {symndx..<length (symtab si)}. gnu_sym_ok si i) \<and> (\<forall>b \<in> {0..<gnu_nbucket si}. gnu_bucket_ok si symndx b)"

lemma wf_gnuD:
  assumes "wf_gnu symndx si"
  shows "0 < symndx" "length (gnu_chain si) = length (symtab si)" "length (symtab si) < 2 ^ 32"
    "versym_ok si" "0 < gnu_nbucket si" "length (gnu_bucket si) = gnu_nbucket si"
    "length (gnu_bloom_filter si) = unat (gnu_maskwords si) + 1" "unat (gnu_shift2 si) < 32"
    "sorted (map (sym_bucket si) [symndx..<length (symtab si)])"
    "symndx \<le> i \<Longrightarrow> i < length (symtab si) \<Longrightarrow> gnu_sym_ok si i"
    "b < gnu_nbucket si \<Longrightarrow> gnu_bucket_ok si symndx b"
  using assms by (auto simp: wf_gnu_def)

section \<open>Comparing names\<close>

lemma strcmp_eq_takeWhile:
  "0 \<notin> set name \<Longrightarrow> 0 \<in> set s \<Longrightarrow> strcmp_eq s name = Ok (takeWhile (\<lambda>c. c \<noteq> 0) s = name)"
  by (induction s name rule: strcmp_eq.induct) auto

lemma take_eq_takeWhile:
  "0 \<notin> set name \<Longrightarrow> 0 \<in> set s \<Longrightarrow>
   length name + 1 \<le> length s \<and> take (length name + 1) s = name @ [0] \<longleftrightarrow> takeWhile (\<lambda>c. c \<noteq> (0::u8)) s = name"
proof (induction name arbitrary: s)
  case Nil
  then show ?case by (cases s) auto
next
  case (Cons c name)
  then show ?case by (cases s) auto
qed

lemma name_ok_bound: "name_ok si i \<Longrightarrow> unat (st_name (symtab si ! i)) < length (strtab si)"
  unfolding name_ok_def by (rule ccontr) simp

lemma check_version:
  assumes "versym_ok si" "i < length (symtab si)"
  shows "check_symbol_version (versym si) i verneed = Ok (version_ok si verneed i)"
  using assms
  by (auto simp: versym_ok_def check_symbol_version_def version_ok_def nth_res_def split: option.splits)

lemma symbol_is_matches:
  assumes "versym_ok si" "i < length (symtab si)" "name_ok si i" "0 \<notin> set name"
  shows "symbol_is si name verneed i = Ok (sym_matches si name verneed i)"
  using strcmp_eq_takeWhile [OF assms(4), of "drop (unat (st_name (symtab si ! i))) (strtab si)"] name_ok_bound [OF assms(3)] assms(3)
  by (auto simp: symbol_is_def nth_res_def assms(2) check_version [OF assms(1,2)] sym_matches_def sym_name_def
      soinfo_get_string_def name_ok_def)

lemma lib_symbol_is_matches:
  assumes "wf_gnu symndx si" "gnu_hash_flag si" "symndx \<le> i" "i < length (symtab si)" "0 \<notin> set name"
  shows "lib_symbol_is (get_lookup_lib si) name (length name) verneed i = Ok (sym_matches si name verneed i)"
proof -
  have ok: "name_ok si i"
    using wf_gnuD(10) [OF assms(1,3,4)] by (simp add: gnu_sym_ok_def)
  let ?s = "drop (unat (st_name (symtab si ! i))) (strtab si)"
  have "unat (st_name (symtab si ! i)) + length name + 1 \<le> length (strtab si) \<longleftrightarrow> length name + 1 \<le> length ?s"
    using name_ok_bound [OF ok] by auto
  then show ?thesis
    using take_eq_takeWhile [OF assms(5), of ?s] ok
    by (auto simp: lib_symbol_is_def get_lookup_lib_def assms(2,4) nth_res_def check_version [OF wf_gnuD(4) [OF assms(1)] assms(4)] sym_matches_def
        sym_name_def name_ok_def)
qed

section \<open>Chains\<close>

text \<open>The symbols from \<open>k\<close> on that are in the same bucket.\<close>

definition run :: "soinfo \<Rightarrow> nat \<Rightarrow> nat list" where
  "run si k = takeWhile (\<lambda>i. sym_bucket si i = sym_bucket si k) [k..<length (symtab si)]"

lemma run_step:
  assumes "wf_gnu symndx si" "symndx \<le> k" "k < length (symtab si)"
  shows "run si k = k # (if gnu_chain si ! k AND 1 = 0 then run si (k + 1) else [])"
    "gnu_chain si ! k AND 1 = 0 \<Longrightarrow> k + 1 < length (symtab si)"
proof -
  have ok: "gnu_chain si ! k AND 1 = 0 \<longleftrightarrow> k + 1 < length (symtab si) \<and> sym_bucket si (k + 1) = sym_bucket si k"
    using wf_gnuD(10) [OF assms] by (simp add: gnu_sym_ok_def)
  show "gnu_chain si ! k AND 1 = 0 \<Longrightarrow> k + 1 < length (symtab si)"
    using ok by blast
  have "[k..<length (symtab si)] = k # [k + 1..<length (symtab si)]"
    using assms(3) by (simp add: upt_conv_Cons)
  then show "run si k = k # (if gnu_chain si ! k AND 1 = 0 then run si (k + 1) else [])"
    unfolding run_def ok by (auto simp: takeWhile_eq_Nil_iff hd_upt)
qed

lemma xor_zero: "a XOR b = 0 \<longleftrightarrow> a = (b :: u32)"
proof
  assume "a XOR b = 0"
  then have "(a XOR b) XOR b = b"
    by simp
  then show "a = b"
    unfolding xor.assoc by simp
qed simp

lemma hash_test:
  assumes "wf_gnu symndx si" "symndx \<le> k" "k < length (symtab si)"
  shows "drop_bit 1 (gnu_chain si ! k XOR hash) = 0 \<longleftrightarrow> drop_bit 1 (sym_hash si k) = drop_bit 1 hash"
    "drop_bit 1 (gnu_chain si ! k) = drop_bit 1 hash \<longleftrightarrow> drop_bit 1 (sym_hash si k) = drop_bit 1 hash"
proof -
  have "drop_bit 1 (gnu_chain si ! k) = drop_bit 1 (sym_hash si k)"
    using wf_gnuD(10) [OF assms] by (simp only: gnu_sym_ok_def)
  moreover have "drop_bit 1 (x XOR hash) = 0 \<longleftrightarrow> drop_bit 1 x = drop_bit 1 hash" for x
    unfolding drop_bit_xor by (rule xor_zero)
  ultimately show "drop_bit 1 (gnu_chain si ! k XOR hash) = 0 \<longleftrightarrow> drop_bit 1 (sym_hash si k) = drop_bit 1 hash"
    "drop_bit 1 (gnu_chain si ! k) = drop_bit 1 hash \<longleftrightarrow> drop_bit 1 (sym_hash si k) = drop_bit 1 hash"
    by simp_all
qed

lemma matches_hash:
  "sym_matches si name verneed i \<Longrightarrow> sym_hash si i = fst (calculate_gnu_hash name)"
  by (simp add: sym_matches_def sym_hash_def)

lemma gnu_lookup_loop_run:
  assumes "wf_gnu symndx si" "symndx \<le> k" "k < length (symtab si)" "0 \<notin> set name"
  shows "gnu_lookup_loop si name (fst (calculate_gnu_hash name)) verneed k = Ok (find (sym_matches si name verneed) (run si k))"
  using assms(2,3)
proof (induction "length (symtab si) - k" arbitrary: k rule: less_induct)
  case less
  let ?h = "fst (calculate_gnu_hash name)"
  have "(if drop_bit 1 (gnu_chain si ! k XOR ?h) = 0 then symbol_is si name verneed k else Ok False) = Ok (sym_matches si name verneed k)"
    using symbol_is_matches [OF wf_gnuD(4) [OF assms(1)] less(3) _ assms(4), of verneed] wf_gnuD(10) [OF assms(1) less(2,3)]
      matches_hash [of si name verneed k] unfolding hash_test(1) [OF assms(1) less(2,3)] by (auto simp: gnu_sym_ok_def)
  moreover have "gnu_lookup_loop si name ?h verneed (k + 1) = Ok (find (sym_matches si name verneed) (run si (k + 1)))"
    if "gnu_chain si ! k AND 1 = 0"
    using less(1) [of "k + 1"] less(2,3) run_step(2) [OF assms(1) less(2,3) that] by simp
  ultimately show ?case
    using less(3) wf_gnuD(2) [OF assms(1)] run_step(1) [OF assms(1) less(2,3)] by (subst gnu_lookup_loop.simps) simp
qed

lemma lib_chain_loop_run:
  assumes "wf_gnu symndx si" "gnu_hash_flag si" "0 \<notin> set name" "find_verdef_version_index si vi = Ok v"
    "symndx \<le> k" "k < length (symtab si)" "vn = None \<or> vn = Some v"
  shows "lib_chain_loop (get_lookup_lib si) si name (length name) (fst (calculate_gnu_hash name)) vi vn k =
    Ok (find (sym_matches si name v) (run si k))"
  using assms(5-7)
proof (induction "length (symtab si) - k" arbitrary: k vn rule: less_induct)
  case less
  let ?h = "fst (calculate_gnu_hash name)" and ?l = "get_lookup_lib si"
  have c: "lib_chain ?l = gnu_chain si"
    using assms(2) by (simp add: get_lookup_lib_def)
  have vn: "(case vn of Some v \<Rightarrow> Ok v | None \<Rightarrow> (if vi \<noteq> None then find_verdef_version_index si vi else Ok kVersymNotNeeded)) = Ok v"
    using less(4) assms(4) by (auto simp: find_verdef_version_index_def)
  have cont: "lib_chain_loop ?l si name (length name) ?h vi u (k + 1) = Ok (find (sym_matches si name v) (run si (k + 1)))"
    if "gnu_chain si ! k AND 1 = 0" "u = None \<or> u = Some v" for u
    using less(1) [of "k + 1" u] less(2,3) run_step(2) [OF assms(1) less(2,3) that(1)] that(2) by simp
  have "(if drop_bit 1 (sym_hash si k) = drop_bit 1 ?h then lib_symbol_is ?l name (length name) v k else Ok False) = Ok (sym_matches si name v k)"
    unfolding lib_symbol_is_matches [OF assms(1,2) less(2,3) assms(3)] using matches_hash [of si name v k] by auto
  then show ?case
    using less(3,4) wf_gnuD(2) [OF assms(1)] run_step(1) [OF assms(1) less(2,3)] cont
    by (subst lib_chain_loop.simps)
      (auto simp: c Let_def vn hash_test(2) [OF assms(1) less(2,3), unfolded One_nat_def] split: if_splits)
qed


section \<open>Buckets\<close>

lemma filter_takeWhile:
  fixes f :: "'a \<Rightarrow> nat"
  assumes "sorted (map f xs)" "\<forall>x \<in> set xs. b \<le> f x"
  shows "filter (\<lambda>x. f x = b) xs = takeWhile (\<lambda>x. f x = b) xs"
  using assms
proof (induction xs)
  case (Cons x xs)
  show ?case
  proof (cases "f x = b")
    case False
    then have "\<forall>y \<in> set xs. f y \<noteq> b"
      using Cons(2,3) by fastforce
    then show ?thesis
      using False by (simp add: filter_empty_conv)
  qed (use Cons in simp)
qed simp

lemma find_filter: "(\<And>x. P x \<Longrightarrow> Q x) \<Longrightarrow> find P xs = find P (filter Q xs)"
  by (induction xs) auto

lemma find_SomeD:
  assumes "find P [a..<n] = Some k"
  shows "a \<le> k" "k < n" "P k" "\<And>i. a \<le> i \<Longrightarrow> i < k \<Longrightarrow> \<not> P i"
proof -
  obtain i where i: "i < length [a..<n]" "P ([a..<n] ! i)" "k = [a..<n] ! i" "\<forall>j < i. \<not> P ([a..<n] ! j)"
    using assms unfolding find_Some_iff by blast
  then have k: "k = a + i"
    by simp
  then show "a \<le> k" "k < n" "P k"
    using i by auto
  fix j assume "a \<le> j" "j < k"
  then show "\<not> P j"
    using i(1,4) k by (auto dest: spec [of _ "j - a"])
qed

lemma find_bucket_run:
  assumes "wf_gnu symndx si" "\<And>i. P i \<Longrightarrow> sym_bucket si i = b"
  shows "find P [symndx..<length (symtab si)] =
    (case find (\<lambda>i. sym_bucket si i = b) [symndx..<length (symtab si)] of None \<Rightarrow> None | Some k \<Rightarrow> find P (run si k))"
proof (cases "find (\<lambda>i. sym_bucket si i = b) [symndx..<length (symtab si)]")
  case None
  then have "find P [symndx..<length (symtab si)] = None"
    using assms(2) by (auto simp: find_None_iff)
  with None show ?thesis by simp
next
  case (Some k)
  note k = find_SomeD [OF Some]
  let ?n = "length (symtab si)"
  have up: "[symndx..<?n] = [symndx..<k] @ [k..<?n]"
    using k(1,2) by (metis le_add_diff_inverse upt_add_eq_append less_imp_le)
  have "sorted (map (sym_bucket si) [k..<?n])"
    using wf_gnuD(9) [OF assms(1)] unfolding up by (simp add: sorted_append)
  moreover have "\<forall>i \<in> set [k..<?n]. b \<le> sym_bucket si i"
    using calculation k(2,3) unfolding upt_conv_Cons [OF k(2)] by auto
  ultimately have "filter (\<lambda>i. sym_bucket si i = b) [k..<?n] = run si k"
    using filter_takeWhile [of "sym_bucket si" "[k..<?n]" b] k(3) by (simp add: run_def)
  moreover have "filter (\<lambda>i. sym_bucket si i = b) [symndx..<k] = []"
    using k(4) by (auto simp: filter_empty_conv)
  ultimately show ?thesis
    using find_filter [of P "\<lambda>i. sym_bucket si i = b" "[symndx..<?n]", OF assms(2)] Some unfolding up by simp
qed

lemma hash_bucket_less: "0 < n \<Longrightarrow> hash_bucket hash n < n"
  by (simp add: hash_bucket_def nat_less_iff)

lemma bucket_start:
  assumes "wf_gnu symndx si"
  shows "bucket_at (gnu_bucket si) (gnu_nbucket si) hash =
    Ok (case find (\<lambda>i. sym_bucket si i = hash_bucket hash (gnu_nbucket si)) [symndx..<length (symtab si)] of None \<Rightarrow> 0 | Some i \<Rightarrow> of_nat i)"
  using wf_gnuD(5,6) [OF assms] wf_gnuD(11) [OF assms, of "hash_bucket hash (gnu_nbucket si)"] hash_bucket_less [of "gnu_nbucket si" hash]
  by (simp add: bucket_at_def nth_res_def gnu_bucket_ok_def)

lemma start_nonzero:
  assumes "wf_gnu symndx si" "find P [symndx..<length (symtab si)] = Some k"
  shows "(of_nat k :: u32) \<noteq> 0" "unat (of_nat k :: u32) = k"
proof -
  have "0 < k" "k < 2 ^ 32"
    using find_SomeD(1,2) [OF assms(2)] wf_gnuD(1,3) [OF assms(1)] by auto
  then show "unat (of_nat k :: u32) = k"
    by (simp add: unat_of_nat)
  then show "(of_nat k :: u32) \<noteq> 0"
    using \<open>0 < k\<close> by (metis unat_0 less_irrefl)
qed

lemma bloom_total:
  assumes "wf_gnu symndx si"
  obtains ok where "bloom_test (gnu_bloom_filter si) (gnu_maskwords si) (gnu_shift2 si) hash = Ok ok"
proof -
  have "unat (x AND m) \<le> unat m" for x m :: u32
    unfolding unsigned_and_eq by (simp add: and_nat_def nat_le_iff) 
  then show ?thesis
    using that wf_gnuD(7,8) [OF assms] by (simp add: bloom_test_def nth_res_def Let_def le_imp_less_Suc)
qed

lemma bloom_rejects:
  assumes "wf_gnu symndx si"
    "bloom_test (gnu_bloom_filter si) (gnu_maskwords si) (gnu_shift2 si) (fst (calculate_gnu_hash name)) = Ok False"
  shows "find (sym_matches si name v) [symndx..<length (symtab si)] = None"
  using wf_gnuD(10) [OF assms(1)] assms(2) matches_hash [of si name v]
  by (fastforce simp: find_None_iff gnu_sym_ok_def)

lemma matches_bucket:
  "sym_matches si name verneed i \<Longrightarrow> sym_bucket si i = hash_bucket (fst (calculate_gnu_hash name)) (gnu_nbucket si)"
  using matches_hash by (simp add: sym_bucket_def)

lemma gnu_lookup_eq_find:
  assumes "wf_gnu symndx si" "0 \<notin> set name" "find_verdef_version_index si vi = Ok v"
  shows "gnu_lookup si name vi = Ok (find (sym_matches si name v) [symndx..<length (symtab si)])"
proof -
  let ?h = "fst (calculate_gnu_hash name)"
  obtain ok where ok: "bloom_test (gnu_bloom_filter si) (gnu_maskwords si) (gnu_shift2 si) ?h = Ok ok"
    by (rule bloom_total [OF assms(1)])
  show ?thesis
  proof (cases ok)
    case False
    then show ?thesis
      using ok bloom_rejects [OF assms(1)] by (simp add: gnu_lookup_def Let_def)
  next
    case True
    show ?thesis
    proof (cases "find (\<lambda>i. sym_bucket si i = hash_bucket ?h (gnu_nbucket si)) [symndx..<length (symtab si)]")
      case None
      then show ?thesis
        using ok True find_bucket_run [OF assms(1) matches_bucket] bucket_start [OF assms(1), of ?h]
        by (simp add: gnu_lookup_def Let_def)
    next
      case (Some k)
      then show ?thesis
        using ok True find_bucket_run [OF assms(1) matches_bucket] bucket_start [OF assms(1), of ?h] start_nonzero [OF assms(1) Some]
          gnu_lookup_loop_run [OF assms(1) find_SomeD(1,2) [OF Some] assms(2), of v]
        by (simp add: gnu_lookup_def Let_def assms(3))
    qed
  qed
qed


section \<open>Lookup lists\<close>

text \<open>The libraries searched one after the other, each with its own lookup.\<close>

fun search_libs :: "u8 list \<Rightarrow> version_info option \<Rightarrow> soinfo list \<Rightarrow> (soinfo \<times> nat) option res" where
  "search_libs name vi [] = Ok None"
| "search_libs name vi (si # sis) =
     res_bind (find_symbol_by_name si name vi) (\<lambda>r.
       case r of Some n \<Rightarrow> Ok (Some (si, n)) | None \<Rightarrow> search_libs name vi sis)"

definition lib_ok :: "version_info option \<Rightarrow> soinfo \<Rightarrow> bool" where
  "lib_ok vi si \<longleftrightarrow> (gnu_hash_flag si \<longrightarrow> (\<exists>symndx v. wf_gnu symndx si \<and> find_verdef_version_index si vi = Ok v))"

lemma needs_sysv: "needs_sysv_lookup (get_lookup_lib si) \<longleftrightarrow> \<not> gnu_hash_flag si" "\<not> needs_sysv_lookup no_lib"
  by (simp_all add: needs_sysv_lookup_def get_lookup_lib_def no_lib_def)

lemma impl_gnu_lib:
  assumes "wf_gnu symndx si" "gnu_hash_flag si" "0 \<notin> set name" "find_verdef_version_index si vi = Ok v"
  shows "soinfo_do_lookup_impl g name vi (get_lookup_lib si # it) =
    (case find (sym_matches si name v) [symndx..<length (symtab si)] of
       Some n \<Rightarrow> Ok (Some (si, n)) | None \<Rightarrow> soinfo_do_lookup_impl g name vi it)"
proof -
  let ?h = "fst (calculate_gnu_hash name)" and ?l = "get_lookup_lib si"
  have l: "lib_si ?l = Some si" "lib_bloom_filter ?l = Some (gnu_bloom_filter si)" "lib_maskwords ?l = gnu_maskwords si"
    "lib_shift2 ?l = gnu_shift2 si" "lib_bucket ?l = gnu_bucket si" "lib_nbucket ?l = gnu_nbucket si"
    "\<not> needs_sysv_lookup ?l"
    using assms(2) by (simp_all add: get_lookup_lib_def needs_sysv_lookup_def)
  obtain ok where ok: "bloom_test (gnu_bloom_filter si) (gnu_maskwords si) (gnu_shift2 si) ?h = Ok ok"
    by (rule bloom_total [OF assms(1)])
  show ?thesis
  proof (cases ok)
    case False
    then show ?thesis
      using ok bloom_rejects [OF assms(1)] l by (simp add: calculate_gnu_hash_def)
  next
    case True
    show ?thesis
    proof (cases "find (\<lambda>i. sym_bucket si i = hash_bucket ?h (gnu_nbucket si)) [symndx..<length (symtab si)]")
      case None
      then show ?thesis
        using ok True find_bucket_run [OF assms(1) matches_bucket] bucket_start [OF assms(1), of ?h] l
        by (simp add: calculate_gnu_hash_def)
    next
      case (Some k)
      have "lib_chain_loop ?l si name (length name) ?h vi None k = Ok (find (sym_matches si name v) (run si k))"
        using lib_chain_loop_run [OF assms find_SomeD(1,2) [OF Some]] by simp
      then show ?thesis
        using ok True Some find_bucket_run [OF assms(1) matches_bucket] bucket_start [OF assms(1), of ?h]
          start_nonzero [OF assms(1) Some] l
        by (simp add: calculate_gnu_hash_def)
    qed
  qed
qed

lemma impl_search:
  assumes "0 \<notin> set name" "\<forall>si \<in> set sis. lib_ok vi si" "g \<or> (\<forall>si \<in> set sis. gnu_hash_flag si)"
  shows "soinfo_do_lookup_impl g name vi (map get_lookup_lib sis) = search_libs name vi sis"
  using assms(2,3)
proof (induction sis)
  case (Cons si sis)
  show ?case
  proof (cases "gnu_hash_flag si")
    case True
    then obtain symndx v where "wf_gnu symndx si" "find_verdef_version_index si vi = Ok v"
      using Cons(2) by (auto simp: lib_ok_def)
    then show ?thesis
      using impl_gnu_lib [of symndx si name vi v g "map get_lookup_lib sis"] gnu_lookup_eq_find [of symndx si name vi v] True assms(1) Cons
      by (simp add: find_symbol_by_name_def del: soinfo_do_lookup_impl.simps split: option.splits)
  next
    case False
    then show ?thesis
      using Cons by (auto simp: needs_sysv get_lookup_lib_def [of si] no_lib_def needs_sysv_lookup_def cong: option.case_cong)
  qed
qed simp

text \<open>What a lookup list holds: the DT_SYMBOLIC library in front, and the number of libraries without GNU hash.\<close>

definition sysv_count :: "soinfo list \<Rightarrow> nat" where
  "sysv_count sis = length (filter (\<lambda>si. \<not> gnu_hash_flag si) sis)"

definition list_holds :: "bool \<Rightarrow> soinfo option \<Rightarrow> soinfo list \<Rightarrow> SymbolLookupList \<Rightarrow> bool" where
  "list_holds debug first sis l \<longleftrightarrow>
     lookup_libs l = (case first of None \<Rightarrow> no_lib | Some si \<Rightarrow> get_lookup_lib si) # map get_lookup_lib sis \<and>
     sole_lib l = None \<and> lookup_begin l = (if first = None then 1 else 0) \<and>
     slow_path_count l = of_nat (of_bool debug + sysv_count ((case first of None \<Rightarrow> [] | Some si \<Rightarrow> [si]) @ sis))"

lemma push_holds: "list_holds debug first sis l \<Longrightarrow> list_holds debug first (sis @ [si]) (push_lookup_lib si l)"
  by (auto simp: list_holds_def push_lookup_lib_def Let_def sysv_count_def needs_sysv split: option.splits)

lemma push_all_holds: "list_holds debug first sis l \<Longrightarrow> list_holds debug first (sis @ xs) (fold push_lookup_lib xs l)"
proof (induction xs arbitrary: sis l)
  case (Cons x xs)
  then show ?case
    using Cons(1) [OF push_holds [OF Cons(2)], of x] by simp
qed simp

lemma group_holds: "list_holds debug None (gs @ ls) (group_lookup_list debug gs ls)"
proof -
  have "list_holds debug None [] \<lparr>lookup_libs = [no_lib], sole_lib = None, lookup_begin = 1, slow_path_count = of_bool debug\<rparr>"
    by (simp add: list_holds_def sysv_count_def)
  then show ?thesis
    using push_all_holds [OF push_all_holds, of debug None "[]" _ gs ls] by (simp add: group_lookup_list_def)
qed

lemma set_holds:
  assumes "list_holds debug first sis l"
  shows "\<exists>l'. set_dt_symbolic_lib s l = Ok l' \<and> list_holds debug s sis l'"
  using assms by (cases first; cases s) (auto simp: list_holds_def set_dt_symbolic_lib_def Let_def sysv_count_def needs_sysv)

fun set_each :: "soinfo option list \<Rightarrow> SymbolLookupList \<Rightarrow> SymbolLookupList res" where
  "set_each [] l = Ok l"
| "set_each (s # ss) l = res_bind (set_dt_symbolic_lib s l) (set_each ss)"

lemma set_each_holds:
  "list_holds debug first sis l \<Longrightarrow> \<exists>l'. set_each (ss @ [s]) l = Ok l' \<and> list_holds debug s sis l'"
proof (induction ss arbitrary: first l)
  case Nil
  then show ?case
    using set_holds [OF Nil, of s] by (auto simp: res_bind_Ok)
next
  case (Cons x ss)
  then show ?case
    using set_holds [OF Cons(2), of x] by (auto simp: res_bind_Ok)
qed

lemma of_nat_eq_0_u64: "k < 2 ^ 64 \<Longrightarrow> (of_nat k :: u64) = 0 \<longleftrightarrow> k = 0"
  by (simp add: word_unat_eq_iff unat_of_nat)

lemma holds_lookup:
  assumes "list_holds debug s sis l" "length sis + 2 < 2 ^ 64" "0 \<notin> set name"
    "\<forall>si \<in> set (case s of None \<Rightarrow> [] | Some si \<Rightarrow> [si]) \<union> set sis. lib_ok vi si"
  shows "soinfo_do_lookup name vi l = search_libs name vi ((case s of None \<Rightarrow> [] | Some si \<Rightarrow> [si]) @ sis)"
proof -
  let ?all = "(case s of None \<Rightarrow> [] | Some si \<Rightarrow> [si]) @ sis"
  have range: "lookup_range l = map get_lookup_lib ?all"
    using assms(1) by (auto simp: list_holds_def lookup_range_def split: option.splits)
  have "sysv_count ?all \<le> length ?all"
    by (simp only: sysv_count_def length_filter_le)
  also have "\<dots> \<le> length sis + 1"
    by (simp split: option.splits)
  finally have "of_bool debug + sysv_count ?all < 2 ^ 64"
    using assms(2) by (simp split: option.splits)
  then have "needs_slow_path l \<longleftrightarrow> of_bool debug + sysv_count ?all \<noteq> 0"
    using assms(1) unfolding needs_slow_path_def list_holds_def
    by (simp add: word_gt_0 of_nat_eq_0_u64 del: of_nat_add of_nat_of_bool)
  then have "\<not> needs_slow_path l \<Longrightarrow> \<forall>si \<in> set ?all. gnu_hash_flag si"
    by (auto simp: sysv_count_def filter_empty_conv)
  then show ?thesis
    using impl_search [OF assms(3), of ?all vi] assms(4) unfolding soinfo_do_lookup_def range by auto
qed


section \<open>System V tables\<close>

fun sysv_chain :: "soinfo \<Rightarrow> nat \<Rightarrow> u32 \<Rightarrow> nat list option" where
  "sysv_chain si 0 n = (if n = 0 then Some [] else None)"
| "sysv_chain si (Suc fuel) n =
     (if n = 0 then Some []
      else if unat n < length (chain si) then map_option (Cons (unat n)) (sysv_chain si fuel (chain si ! unat n)) else None)"

definition sysv_bucket :: "soinfo \<Rightarrow> nat \<Rightarrow> nat" where
  "sysv_bucket si i = hash_bucket (calculate_elf_hash (sym_name si i)) (nbucket si)"

text \<open>Every chain ends, and the chain of a bucket holds the symbols with that hash; symbol 0 is reserved.\<close>

definition wf_sysv :: "soinfo \<Rightarrow> bool" where
  "wf_sysv si \<longleftrightarrow> versym_ok si \<and> length (chain si) = length (symtab si) \<and> 0 < nbucket si \<and> length (bucket si) = nbucket si \<and>
     (\<forall>i \<in> {1..<length (symtab si)}. name_ok si i) \<and>
     (\<forall>b \<in> {0..<nbucket si}. case sysv_chain si (length (chain si)) (bucket si ! b) of
        None \<Rightarrow> False
      | Some xs \<Rightarrow> \<forall>i \<in> {1..<length (symtab si)}. i \<in> set xs \<longleftrightarrow> sysv_bucket si i = b)"

lemma elf_lookup_loop_chain:
  assumes "wf_sysv si" "0 \<notin> set name" "sysv_chain si fuel n = Some xs"
  shows "elf_lookup_loop si name verneed fuel n = Ok (find (sym_matches si name verneed) xs)" "set xs \<subseteq> {1..<length (symtab si)}"
proof -
  have "elf_lookup_loop si name verneed fuel n = Ok (find (sym_matches si name verneed) xs) \<and> set xs \<subseteq> {1..<length (symtab si)}"
    using assms(3)
  proof (induction fuel arbitrary: n xs)
    case (Suc fuel)
    show ?case
    proof (cases "n = 0")
      case False
      then obtain ys where ys: "sysv_chain si fuel (chain si ! unat n) = Some ys" "xs = unat n # ys" "unat n < length (chain si)"
        using Suc(2) by (auto split: if_splits)
      have n: "unat n < length (symtab si)" "1 \<le> unat n"
        using assms(1) ys(3) False by (simp_all add: wf_sysv_def unat_gt_0 Suc_le_eq)
      then have "symbol_is si name verneed (unat n) = Ok (sym_matches si name verneed (unat n))"
        using assms(1,2) by (intro symbol_is_matches) (simp_all add: wf_sysv_def)
      then show ?thesis
        using Suc(1) [OF ys(1)] ys(2,3) False n by (simp add: nth_res_def)
    qed (use Suc in simp)
  qed (simp split: if_splits)
  then show "elf_lookup_loop si name verneed fuel n = Ok (find (sym_matches si name verneed) xs)" "set xs \<subseteq> {1..<length (symtab si)}"
    by auto
qed

lemma elf_lookup_eq_find:
  assumes "wf_sysv si" "0 \<notin> set name" "find_verdef_version_index si vi = Ok v"
  obtains xs where "elf_lookup si name vi = Ok (find (sym_matches si name v) xs)"
    "\<And>i. i \<in> set xs \<longleftrightarrow> i \<in> {1..<length (symtab si)} \<and> sysv_bucket si i = hash_bucket (calculate_elf_hash name) (nbucket si)"
proof -
  let ?b = "hash_bucket (calculate_elf_hash name) (nbucket si)"
  have b: "?b < nbucket si" "length (bucket si) = nbucket si"
    using assms(1) hash_bucket_less [of "nbucket si"] by (simp_all add: wf_sysv_def)
  have "case sysv_chain si (length (chain si)) (bucket si ! ?b) of None \<Rightarrow> False
      | Some xs \<Rightarrow> \<forall>i \<in> {1..<length (symtab si)}. i \<in> set xs \<longleftrightarrow> sysv_bucket si i = ?b"
    using assms(1) b(1) unfolding wf_sysv_def by (meson atLeastLessThan_iff zero_le)
  then obtain xs where xs: "sysv_chain si (length (chain si)) (bucket si ! ?b) = Some xs"
    "\<forall>i \<in> {1..<length (symtab si)}. i \<in> set xs \<longleftrightarrow> sysv_bucket si i = ?b"
    by (auto split: option.splits)
  show ?thesis
  proof (rule that)
    show "elf_lookup si name vi = Ok (find (sym_matches si name v) xs)"
      using elf_lookup_loop_chain(1) [OF assms(1,2) xs(1)] assms(3) b
      by (simp add: elf_lookup_def Let_def bucket_at_def nth_res_def)
    show "i \<in> set xs \<longleftrightarrow> i \<in> {1..<length (symtab si)} \<and> sysv_bucket si i = ?b" for i
      using elf_lookup_loop_chain(2) [OF assms(1,2) xs(1)] xs(2) by blast
  qed
qed

section \<open>Properties\<close>

text \<open>
  C10: The GNU hash lookup is correct. For a library whose GNU hash table describes its symbols from
  \<open>symndx\<close> on, \<open>gnu_lookup\<close> reads no table out of bounds and returns the first of these symbols that has
  the name and the wanted version and is defined and visible, or none if there is no such symbol: the
  Bloom filter, the buckets and the chains never hide or add a symbol.
\<close>

theorem gnu_lookup_finds:
  assumes "wf_gnu symndx si" "0 \<notin> set name" "find_verdef_version_index si vi = Ok v"
  shows "gnu_lookup si name vi = Ok (find (sym_matches si name v) [symndx..<length (symtab si)])"
  by (rule gnu_lookup_eq_find [OF assms])

definition sample_sym :: "u32 \<Rightarrow> elf_sym" where
  "sample_sym name = \<lparr>st_name = name, st_info = 0x12, st_shndx = 7, st_value = 0x1000, st_size = 8\<rparr>"

text \<open>A library that defines \<open>cos\<close>, \<open>tan\<close> and \<open>sin\<close>.\<close>

definition sample_lib :: soinfo where
  "sample_lib = \<lparr>gnu_hash_flag = True, strtab = [0, 99, 111, 115, 0, 116, 97, 110, 0, 115, 105, 110, 0],
     symtab = [\<lparr>st_name = 0, st_info = 0, st_shndx = 0, st_value = 0, st_size = 0\<rparr>, sample_sym 1, sample_sym 5, sample_sym 9],
     versym = None, gnu_nbucket = 2, gnu_bucket = [1, 3], gnu_chain = [0, 0xb8866ca, 0xb88ad49, 0xb88aa0f],
     gnu_maskwords = 0, gnu_shift2 = 6, gnu_bloom_filter = [0x20010008008500],
     nbucket = 1, bucket = [3], chain = [0, 0, 1, 2],
     verdef_at = None, vda_name_at = (\<lambda>_. 0), verdef_cnt = 0, load_bias = 0\<rparr>"

lemma sample_lib_wf: "wf_gnu 1 sample_lib"
  by code_simp

theorem gnu_lookup_finds_witness: "gnu_lookup sample_lib [116, 97, 110] None = Ok (Some 2)"
proof -
  have "find (sym_matches sample_lib [116, 97, 110] kVersymNotNeeded) [1..<length (symtab sample_lib)] = Some 2"
    by code_simp
  then show ?thesis
    using gnu_lookup_finds [OF sample_lib_wf, of "[116, 97, 110]" None kVersymNotNeeded] by (simp add: find_verdef_version_index_def)
qed

text \<open>
  The System V lookup is correct: on a well-formed table it ends and returns a symbol exactly when the
  library has one with the name and the wanted version that is defined and visible, and the returned
  symbol is such a symbol.
\<close>

lemma elf_lookup_finds:
  assumes "wf_sysv si" "0 \<notin> set name" "find_verdef_version_index si vi = Ok v"
  shows "\<exists>r. elf_lookup si name vi = Ok r \<and>
    (case r of None \<Rightarrow> \<forall>i \<in> {1..<length (symtab si)}. \<not> sym_matches si name v i
     | Some n \<Rightarrow> n \<in> {1..<length (symtab si)} \<and> sym_matches si name v n)"
proof -
  obtain xs where xs: "elf_lookup si name vi = Ok (find (sym_matches si name v) xs)"
    "\<And>i. i \<in> set xs \<longleftrightarrow> i \<in> {1..<length (symtab si)} \<and> sysv_bucket si i = hash_bucket (calculate_elf_hash name) (nbucket si)"
    by (rule elf_lookup_eq_find [OF assms]) blast
  have m: "sysv_bucket si i = hash_bucket (calculate_elf_hash name) (nbucket si)" if "sym_matches si name v i" for i
    using that by (simp add: sym_matches_def sysv_bucket_def)
  show ?thesis
  proof (cases "find (sym_matches si name v) xs")
    case None
    then have "\<not> sym_matches si name v i" if "i \<in> {1..<length (symtab si)}" for i
      using xs(2) [of i] m [of i] that by (auto simp: find_None_iff)
    then show ?thesis using xs(1) None by simp
  next
    case (Some n)
    then have "n \<in> set xs" "sym_matches si name v n"
      by (auto simp: find_Some_iff)
    then show ?thesis using xs(1) xs(2) [of n] Some by simp
  qed
qed

text \<open>
  C11: A lookup list searches its libraries in order. However often the DT_SYMBOLIC library of a list has
  been set, \<open>soinfo_do_lookup\<close> gives what the libraries' own lookups give when they are asked one after the
  other: first the DT_SYMBOLIC library, if there is one, then the global and then the local group. In
  particular the fast path is only taken when every library has a GNU hash table.
\<close>

theorem do_lookup_in_order:
  assumes "length gs + length ls + 2 < 2 ^ 64" "0 \<notin> set name"
    "\<forall>si \<in> set ((case s of None \<Rightarrow> [] | Some si \<Rightarrow> [si]) @ gs @ ls). lib_ok vi si"
  shows "\<exists>l. set_each (ss @ [s]) (group_lookup_list debug gs ls) = Ok l \<and>
    soinfo_do_lookup name vi l = search_libs name vi ((case s of None \<Rightarrow> [] | Some si \<Rightarrow> [si]) @ gs @ ls)"
  using set_each_holds [OF group_holds, of ss s debug gs ls] holds_lookup [of debug s "gs @ ls" _ name vi] assms by fastforce

theorem do_lookup_in_order_witness:
  "\<exists>l. set_each [None, Some sample_lib] (group_lookup_list False [sample_lib\<lparr>gnu_hash_flag := False\<rparr>] []) = Ok l \<and>
    soinfo_do_lookup [116, 97, 110] None l = Ok (Some (sample_lib, 2))"
proof -
  have "lib_ok None (sample_lib\<lparr>gnu_hash_flag := False\<rparr>)" "lib_ok None sample_lib"
    using sample_lib_wf by (auto simp: lib_ok_def find_verdef_version_index_def)
  moreover have "find_symbol_by_name sample_lib [116, 97, 110] None = Ok (Some 2)"
    by code_simp
  ultimately show ?thesis
    using do_lookup_in_order [of "[sample_lib\<lparr>gnu_hash_flag := False\<rparr>]" "[]" "[116, 97, 110]" "Some sample_lib" None "[None]" False]
    by auto
qed

end
