(* ===== verification/Grp_Pwd_File.thy ===== *)
theory Grp_Pwd_File
  imports Strtol
begin

text \<open>
  The passwd and group files of the partitions: libc/bionic/grp_pwd_file.cpp.

  A file is the list of its characters; it ends with a newline, or \<open>DoMmap\<close> rejects it. A pointer into the
  file is the rest of the file from there on, so \<open>end\<close>, the pointer to the final newline, is the rest of
  length one. The system fills the last page of a mapping with zeros, which is what the end of the list
  reads as. Opening and mapping the file is not modelled; a file that cannot be mapped is \<open>None\<close>.
\<close>

abbreviation COLON :: u32 where "COLON \<equiv> 0x3a"
abbreviation NEWLINE :: u32 where "NEWLINE \<equiv> 0x0a"

definition kGrpPwdBufferSize :: nat where "kGrpPwdBufferSize = 32"

section \<open>Fields\<close>

text \<open>The string that is left in the destination buffer of size \<open>max\<close>.\<close>

fun CopyFieldToString :: "u32 list \<Rightarrow> nat \<Rightarrow> u32 list" where
  "CopyFieldToString [] mx = []"
| "CopyFieldToString (c # source) mx =
     (if c \<noteq> COLON \<and> c \<noteq> NEWLINE \<and> mx > 1 then c # CopyFieldToString source (mx - 1) else [])"

text \<open>The result of \<open>strtoul\<close> is converted to the 32 bits of \<open>uid_t\<close>.\<close>

definition FieldToUid :: "u32 list option \<Rightarrow> u32 option" where
  "FieldToUid field =
     (case field of
        None \<Rightarrow> None
      | Some f \<Rightarrow>
          (case strtoul f 0 of (result, end_ptr, err) \<Rightarrow>
             if err \<noteq> None \<or> length end_ptr = length f \<or> unit_at end_ptr \<noteq> COLON then None
             else Some (word_of_int result)))"

section \<open>Lines\<close>

fun skip_line :: "u32 list \<Rightarrow> u32 list" where
  "skip_line [] = []"
| "skip_line (c # position) = (if position \<noteq> [] \<and> c \<noteq> NEWLINE then skip_line position else position)"

fun parse_fields :: "u32 list \<Rightarrow> nat \<Rightarrow> u32 list option list \<Rightarrow> u32 list \<times> u32 list option list" where
  "parse_fields [] fields_written fields = ([], fields)"
| "parse_fields (c # position) fields_written fields =
     (if position \<noteq> [] \<and> fields_written < length fields then
        (if c = NEWLINE then (position, fields)
         else if c = COLON then parse_fields position (fields_written + 1) (fields[fields_written := Some position])
         else parse_fields position fields_written fields)
      else (skip_line (c # position), fields))"

text \<open>One past the end of the line, and the fields; those that the line does not have keep their values.\<close>

definition ParseLine :: "u32 list \<Rightarrow> u32 list option list \<Rightarrow> u32 list \<times> u32 list option list" where
  "ParseLine start fields = parse_fields start 1 (fields[0 := Some start])"

lemma skip_line_shorter: "s \<noteq> [] \<Longrightarrow> length (skip_line s) < length s"
  by (induction s) (auto simp: less_SucI)

lemma parse_fields_shorter: "s \<noteq> [] \<Longrightarrow> length (fst (parse_fields s n fs)) < length s"
proof (induction s n fs rule: parse_fields.induct)
  case (2 c position n fs)
  then show ?case
    using skip_line_shorter [of "c # position"] by (auto simp: less_SucI simp del: skip_line.simps)
qed simp

lemma ParseLine_shorter: "s \<noteq> [] \<Longrightarrow> length (fst (ParseLine s fs)) < length s"
  by (simp add: ParseLine_def parse_fields_shorter)

lemma ParseLine_less: "ParseLine s fs = (s', fs') \<Longrightarrow> Suc 0 < length s \<Longrightarrow> length s' < length s"
  using ParseLine_shorter [of s fs] by (cases s) auto

function find_line :: "u32 list option \<Rightarrow> (u32 list option list \<Rightarrow> bool) \<Rightarrow> u32 list \<Rightarrow> u32 list option list \<Rightarrow> u32 list option list option" where
  "find_line required_prefix predicate line_beginning fields =
     (if length line_beginning > 1 then
        case ParseLine line_beginning fields of (line_beginning', fields) \<Rightarrow>
          if (case required_prefix of None \<Rightarrow> False | Some p \<Rightarrow> take (length p) (the (fields ! 0)) \<noteq> p)
          then find_line required_prefix predicate line_beginning' fields
          else if predicate fields then Some fields
          else find_line required_prefix predicate line_beginning' fields
      else None)"
  by auto
termination
  by (relation "measure (\<lambda>(p, q, s, fs). length s)") (auto dest: ParseLine_less split: prod.splits)

declare find_line.simps [simp del]

text \<open>The fields of the line object are all null before the first line.\<close>

definition MmapFile_Find :: "u32 list option \<Rightarrow> u32 list option \<Rightarrow> nat \<Rightarrow> (u32 list option list \<Rightarrow> bool) \<Rightarrow> u32 list option list option" where
  "MmapFile_Find file required_prefix num_fields predicate =
     (case file of None \<Rightarrow> None | Some s \<Rightarrow> find_line required_prefix predicate s (replicate num_fields None))"

definition id_predicate :: "u32 \<Rightarrow> u32 list option list \<Rightarrow> bool" where
  "id_predicate uid fields = (FieldToUid (fields ! 2) = Some uid)"

fun match_name :: "u32 list \<Rightarrow> u32 list \<Rightarrow> bool" where
  "match_name (c # line_name) (m # name) =
     (if c \<noteq> NEWLINE \<and> c \<noteq> COLON then (if c \<noteq> m then False else match_name line_name name) else False)"
| "match_name line_name [] = (unit_at line_name = COLON)"
| "match_name [] (m # name) = False"

definition name_predicate :: "u32 list \<Rightarrow> u32 list option list \<Rightarrow> bool" where
  "name_predicate name fields = (case fields ! 0 of None \<Rightarrow> False | Some line_name \<Rightarrow> match_name line_name name)"

section \<open>Records\<close>

record passwd =
  pw_name :: "u32 list"
  pw_uid :: u32
  pw_gid :: u32
  pw_dir :: "u32 list"
  pw_shell :: "u32 list"

record grp =
  gr_name :: "u32 list"
  gr_gid :: u32

definition ToPasswdState :: "u32 list option list \<Rightarrow> passwd option" where
  "ToPasswdState fs =
     (case (fs ! 0, fs ! 5, fs ! 6) of
        (Some name, Some dir, Some shell) \<Rightarrow>
          (case (FieldToUid (fs ! 2), FieldToUid (fs ! 3)) of
             (Some uid, Some gid) \<Rightarrow>
               Some \<lparr>pw_name = CopyFieldToString name kGrpPwdBufferSize, pw_uid = uid, pw_gid = gid,
                     pw_dir = CopyFieldToString dir kGrpPwdBufferSize, pw_shell = CopyFieldToString shell kGrpPwdBufferSize\<rparr>
           | _ \<Rightarrow> None)
      | _ \<Rightarrow> None)"

definition ToGroupState :: "u32 list option list \<Rightarrow> grp option" where
  "ToGroupState fs =
     (case (fs ! 0, fs ! 2) of
        (Some name, Some gid) \<Rightarrow>
          (case FieldToUid (fs ! 2) of
             Some gid \<Rightarrow> Some \<lparr>gr_name = CopyFieldToString name kGrpPwdBufferSize, gr_gid = gid\<rparr>
           | None \<Rightarrow> None)
      | _ \<Rightarrow> None)"

text \<open>A partition's file with the prefix its names must have.\<close>

type_synonym db_file = "u32 list option \<times> u32 list option"

definition bind_line :: "u32 list option list option \<Rightarrow> (u32 list option list \<Rightarrow> 'a option) \<Rightarrow> 'a option" where
  "bind_line line f = (case line of None \<Rightarrow> None | Some fs \<Rightarrow> f fs)"

definition PasswdFile_FindById :: "db_file \<Rightarrow> u32 \<Rightarrow> passwd option" where
  "PasswdFile_FindById f uid = bind_line (MmapFile_Find (fst f) (snd f) 7 (id_predicate uid)) ToPasswdState"

definition PasswdFile_FindByName :: "db_file \<Rightarrow> u32 list \<Rightarrow> passwd option" where
  "PasswdFile_FindByName f name = bind_line (MmapFile_Find (fst f) (snd f) 7 (name_predicate name)) ToPasswdState"

definition GroupFile_FindById :: "db_file \<Rightarrow> u32 \<Rightarrow> grp option" where
  "GroupFile_FindById f gid = bind_line (MmapFile_Find (fst f) (snd f) 4 (id_predicate gid)) ToGroupState"

definition GroupFile_FindByName :: "db_file \<Rightarrow> u32 list \<Rightarrow> grp option" where
  "GroupFile_FindByName f name = bind_line (MmapFile_Find (fst f) (snd f) 4 (name_predicate name)) ToGroupState"


section \<open>Reading a number\<close>

lemma decimal_first: "0 < n \<Longrightarrow> unit_at (decimal n) \<noteq> 0x30"
proof (induction n rule: decimal.induct)
  case (1 n)
  show ?case
  proof (cases "n < 10")
    case True
    then have "n \<in> {1, 2, 3, 4, 5, 6, 7, 8, 9}"
      using 1(2) by auto
    then show ?thesis
      by (subst decimal.simps) (auto simp: unit_at_def)
  next
    case False
    then have "unit_at (decimal n) = unit_at (decimal (n div 10))"
      using decimal_not_Nil [of "n div 10"] by (subst decimal.simps) (auto simp: unit_at_def split: list.splits)
    then show ?thesis
      using 1(1) [OF False] False by simp
  qed
qed

lemma decimal_0: "decimal 0 = [0x30]"
  by (subst decimal.simps) simp

lemma decimal_strtoul:
  assumes "n < 2 ^ 64" "\<not> is_digit_of 10 (unit_at r)" "base = 10 \<or> base = 0 \<and> unit_at r = COLON"
  shows "strtoul (decimal n @ r) base = (int n, r, None)"
proof -
  obtain c q where d: "decimal n = c # q"
    using decimal_not_Nil [of n] by (cases "decimal n") auto
  have c: "48 \<le> unat c" "unat c \<le> 57"
    using decimal_digits [of n] d by simp_all
  have "\<not> isspace c" "c \<noteq> 0x2d" "c \<noteq> 0x2b"
    using c by (auto simp: isspace_def word_le_nat_alt)
  then have sign: "read_sign (dropWhile isspace (decimal n @ r)) = (False, decimal n @ r)"
    by (simp add: d read_sign_def unit_at_def)
  let ?b = "if base = 0 \<and> n = 0 then 8 else 10 :: int"
  have prefix: "read_prefix base (decimal n @ r) = (?b, decimal n @ r)"
    using assms(3)
  proof
    assume "base = 0 \<and> unit_at r = COLON"
    then show ?thesis
      using decimal_first [of n]
      by (cases "n = 0") (auto simp: read_prefix_def decimal_0 unit_at_def d Let_def split: list.splits)
  qed (simp add: read_prefix_def)
  have digs: "takeWhile (is_digit_of ?b) (decimal n @ r) = decimal n" "dropWhile (is_digit_of ?b) (decimal n @ r) = r"
  proof -
    have "\<not> is_digit_of ?b (unit_at r)"
      using assms(2) by (auto simp: is_digit_of_def split: option.splits)
    moreover have "\<forall>x \<in> set (decimal n). is_digit_of ?b x"
      using decimal_digits [of n] by (cases "n = 0") (auto simp: decimal_0 is_digit_of_def digit_value_def isdigit_def ctype_in_range_def)
    ultimately show "takeWhile (is_digit_of ?b) (decimal n @ r) = decimal n" "dropWhile (is_digit_of ?b) (decimal n @ r) = r"
      by (cases r; simp add: unit_at_def takeWhile_append dropWhile_append)+
  qed
  have p: "parse_sign (decimal n @ r) = False" "parse_base base (decimal n @ r) = ?b" "parse_digits base (decimal n @ r) = decimal n"
    "parse_rest base (decimal n @ r) = r"
    using sign prefix digs by (simp_all add: parse_sign_def parse_base_def parse_digits_def parse_rest_def)
  have "parse_value base (decimal n @ r) = int n"
    unfolding parse_value_def p using decimal_value [of n] by (cases "n = 0") (simp_all add: decimal_0 add_digit_def)
  then show ?thesis
    using StrToI_parse [of base 0 "2 ^ 64 - 1" "decimal n @ r"] assms(1,3) p decimal_not_Nil [of n]
    by (auto simp: strtoul_def clamp_result_def)
qed

text \<open>An id of more than 32 bits is cut to 32 bits, so that 4294967296 is read as the id of root.\<close>

lemma FieldToUid_wraps: "n < 2 ^ 64 \<Longrightarrow> FieldToUid (Some (decimal n @ COLON # r)) = Some (of_nat n)"
proof -
  assume "n < 2 ^ 64"
  then have "strtoul (decimal n @ COLON # r) 0 = (int n, COLON # r, None)"
    using decimal_strtoul [of n "COLON # r" 0] by (simp add: unit_at_def is_digit_of_def digit_value_def isdigit_def
        isalpha_def ctype_in_range_def tolower_bit_def)
  then show ?thesis
    using decimal_not_Nil [of n] by (simp add: FieldToUid_def unit_at_def)
qed

lemma FieldToUid_decimal: "FieldToUid (Some (decimal (unat u) @ COLON # r)) = Some u"
  using FieldToUid_wraps [of "unat u" r] unsigned_less [of u, where 'a = nat] by simp


section \<open>Well-formed files\<close>

text \<open>An entry of a passwd file, and its line.\<close>

record entry =
  e_name :: "u32 list"
  e_password :: "u32 list"
  e_uid :: u32
  e_gid :: u32
  e_gecos :: "u32 list"
  e_dir :: "u32 list"
  e_shell :: "u32 list"

definition plain :: "u32 list \<Rightarrow> bool" where
  "plain s \<longleftrightarrow> COLON \<notin> set s \<and> NEWLINE \<notin> set s"

definition line_rest :: "entry \<Rightarrow> u32 list \<Rightarrow> u32 list list" where
  "line_rest e r =
     (let f6 = e_shell e @ NEWLINE # r; f5 = e_dir e @ COLON # f6; f4 = e_gecos e @ COLON # f5;
          f3 = decimal (unat (e_gid e)) @ COLON # f4; f2 = decimal (unat (e_uid e)) @ COLON # f3;
          f1 = e_password e @ COLON # f2; f0 = e_name e @ COLON # f1
      in [f0, f1, f2, f3, f4, f5, f6])"

definition print_entry :: "entry \<Rightarrow> u32 list \<Rightarrow> u32 list" where
  "print_entry e r = line_rest e r ! 0"

definition print_file :: "entry list \<Rightarrow> u32 list" where
  "print_file es = foldr print_entry es []"

definition entry_ok :: "u32 list option \<Rightarrow> entry \<Rightarrow> bool" where
  "entry_ok required_prefix e \<longleftrightarrow>
     plain (e_name e) \<and> plain (e_password e) \<and> plain (e_gecos e) \<and> plain (e_dir e) \<and> plain (e_shell e) \<and>
     (case required_prefix of None \<Rightarrow> True | Some p \<Rightarrow> take (length p) (e_name e) = p)"

text \<open>What a lookup returns for it: the strings cut to the size of the buffers.\<close>

definition entry_passwd :: "entry \<Rightarrow> passwd" where
  "entry_passwd e = \<lparr>pw_name = take 31 (e_name e), pw_uid = e_uid e, pw_gid = e_gid e,
     pw_dir = take 31 (e_dir e), pw_shell = take 31 (e_shell e)\<rparr>"

lemma CopyFieldToString_plain:
  "plain f \<Longrightarrow> c = COLON \<or> c = NEWLINE \<Longrightarrow> CopyFieldToString (f @ c # r) (Suc n) = take n f"
proof (induction f arbitrary: n)
  case (Cons d f)
  then show ?case by (cases n) (auto simp: plain_def)
qed auto

lemma skip_line_plain: "NEWLINE \<notin> set f \<Longrightarrow> skip_line (f @ NEWLINE # r) = r"
  by (induction f) auto

lemma parse_fields_colon:
  "plain f \<Longrightarrow> w < length fs \<Longrightarrow> s \<noteq> [] \<Longrightarrow> parse_fields (f @ COLON # s) w fs = parse_fields s (w + 1) (fs[w := Some s])"
  by (induction f) (auto simp: plain_def)

lemma parse_fields_end: "plain f \<Longrightarrow> parse_fields (f @ NEWLINE # r) (length fs) fs = (r, fs)"
  using skip_line_plain [of f r] by (cases f) (auto simp: plain_def)

lemma plain_decimal: "plain (decimal n)"
  using decimal_digits [of n] by (fastforce simp: plain_def)

lemma list7: "length fs = 7 \<Longrightarrow> \<exists>a b c d e f g. fs = [a, b, c, d, e, f, g]"
  by (auto simp: length_Suc_conv numeral_eq_Suc)

lemma ParseLine_entry:
  assumes "entry_ok p e" "length fs = 7"
  shows "ParseLine (print_entry e r) fs = (r, map Some (line_rest e r))"
proof -
  note pl = assms(1) [unfolded entry_ok_def]
  obtain a b c d e' f g where fs: "fs = [a, b, c, d, e', f, g]"
    using list7 [OF assms(2)] by blast
  show ?thesis
    using pl parse_fields_end [of "e_shell e" r "map Some (line_rest e r)"]
    unfolding ParseLine_def print_entry_def fs
    by (simp add: line_rest_def Let_def parse_fields_colon plain_decimal numeral_eq_Suc)
qed

lemma match_name_plain: "plain n \<Longrightarrow> match_name (n @ COLON # r) name \<longleftrightarrow> n = name"
proof (induction n arbitrary: name)
  case Nil
  then show ?case by (cases name) (auto simp: unit_at_def)
next
  case (Cons c n)
  then show ?case by (cases name) (auto simp: plain_def unit_at_def)
qed

lemma entry_predicates:
  assumes "entry_ok p e"
  shows "name_predicate name (map Some (line_rest e r)) \<longleftrightarrow> e_name e = name"
    "id_predicate uid (map Some (line_rest e r)) \<longleftrightarrow> e_uid e = uid"
    "ToPasswdState (map Some (line_rest e r)) = Some (entry_passwd e)"
  using assms CopyFieldToString_plain [of _ COLON _ 31] CopyFieldToString_plain [of _ NEWLINE _ 31]
  by (simp_all add: entry_ok_def name_predicate_def id_predicate_def ToPasswdState_def line_rest_def Let_def match_name_plain
      FieldToUid_decimal entry_passwd_def kGrpPwdBufferSize_def)

lemma entry_prefix:
  "entry_ok (Some p) e \<Longrightarrow> take (length p) (line_rest e r ! 0) = p"
  by (auto simp: entry_ok_def line_rest_def Let_def take_append)
    (metis append_take_drop_id append_eq_append_conv length_append length_take min.absorb_iff2 nat_le_linear)

text \<open>One line of the search. What follows the line is arbitrary.\<close>

lemma find_line_step:
  assumes "entry_ok p e" "length fs = 7" "P (map Some (line_rest e r)) \<longleftrightarrow> q"
  shows "find_line p P (print_entry e r) fs = (if q then Some (map Some (line_rest e r)) else find_line p P r (map Some (line_rest e r)))"
proof -
  have len: "1 < length (print_entry e r)"
    by (simp add: print_entry_def line_rest_def Let_def)
  have "\<not> (case p of None \<Rightarrow> False | Some q \<Rightarrow> take (length q) (the (map Some (line_rest e r) ! 0)) \<noteq> q)"
    using entry_prefix [of _ e r] assms(1) by (auto simp: line_rest_def Let_def split: option.splits)
  then show ?thesis
    using len assms(3) ParseLine_entry [OF assms(1,2), of r] by (subst find_line.simps) simp
qed

lemma length_line_rest: "length (map Some (line_rest e r)) = 7"
  by (simp add: line_rest_def Let_def)

lemma find_line_entries:
  assumes "\<forall>e \<in> set es. entry_ok p e" "length fs = 7" "\<And>e r. entry_ok p e \<Longrightarrow> P (map Some (line_rest e r)) \<longleftrightarrow> Q e"
  shows "bind_line (find_line p P (print_file es) fs) ToPasswdState = map_option entry_passwd (find Q es)"
  using assms(1,2)
proof (induction es arbitrary: fs)
  case Nil
  then show ?case by (subst find_line.simps) (simp add: print_file_def bind_line_def)
next
  case (Cons e es)
  have ok: "entry_ok p e" using Cons.prems(1) by simp
  have "print_file (e # es) = print_entry e (print_file es)" by (simp add: print_file_def)
  then show ?case
    using Cons.IH [OF _ length_line_rest] Cons.prems(1) entry_predicates(3) [OF ok] find_line_step [where P = P, OF ok Cons.prems(2) assms(3) [OF ok]]
    by (simp add: bind_line_def)
qed

text \<open>Lines that do not match leave the pointers to the fields of the last one behind.\<close>

lemma find_line_skip:
  assumes "\<forall>e \<in> set es. entry_ok p e \<and> \<not> Q e" "es \<noteq> []" "length fs = 7"
    "\<And>e r. entry_ok p e \<Longrightarrow> P (map Some (line_rest e r)) \<longleftrightarrow> Q e"
  shows "find_line p P (foldr print_entry es t) fs = find_line p P t (map Some (line_rest (last es) t))"
  using assms(1,2,3)
proof (induction es arbitrary: fs)
  case (Cons e es)
  have ok: "entry_ok p e" "\<not> Q e" using Cons.prems(1) by simp_all
  show ?case
    using Cons.IH [OF _ _ length_line_rest] Cons.prems(1) ok(2) find_line_step [where P = P, OF ok(1) Cons.prems(3) assms(4) [OF ok(1)]]
    by (cases "es = []") simp_all
qed simp

lemma find_line_short:
  assumes "plain name" "length fs = 7" "case p of None \<Rightarrow> True | Some q \<Rightarrow> take (length q) name = q"
  shows "find_line p (name_predicate name) (name @ [COLON, NEWLINE]) fs =
    Some (fs[0 := Some (name @ [COLON, NEWLINE]), 1 := Some [NEWLINE]])"
proof -
  have pl: "ParseLine (name @ [COLON, NEWLINE]) fs = ([], fs[0 := Some (name @ [COLON, NEWLINE]), 1 := Some [NEWLINE]])"
    using parse_fields_colon [OF assms(1), of 1 "fs[0 := Some (name @ [COLON, NEWLINE])]" "[NEWLINE]"] assms(2)
    by (simp add: ParseLine_def)
  have pre: "take (length q) (name @ [COLON, NEWLINE]) = q" if "take (length q) name = q" for q
    using that by (metis append_take_drop_id append.assoc append_eq_conv_conj)
  have nm: "name_predicate name (fs[0 := Some (name @ [COLON, NEWLINE]), 1 := Some [NEWLINE]])"
    using assms(1,2) match_name_plain [of name "[NEWLINE]" name] by (simp add: name_predicate_def)
  show ?thesis
    using pl nm assms(2,3) pre by (subst find_line.simps) (auto split: option.splits)
qed

lemma ToPasswdState_stale:
  assumes "entry_ok p e" "plain name"
  shows "ToPasswdState ((map Some (line_rest e r))[0 := Some (name @ COLON # x), 1 := y]) = Some (entry_passwd (e\<lparr>e_name := name\<rparr>))"
  using assms CopyFieldToString_plain [of _ COLON _ 31] CopyFieldToString_plain [of _ NEWLINE _ 31]
  by (simp add: entry_ok_def ToPasswdState_def line_rest_def Let_def FieldToUid_decimal entry_passwd_def kGrpPwdBufferSize_def)

section \<open>Properties\<close>


definition codes :: "string \<Rightarrow> u32 list" where
  "codes s = map of_char s"

definition sample_entry :: "string \<Rightarrow> u32 \<Rightarrow> entry" where
  "sample_entry name uid = \<lparr>e_name = codes name, e_password = [], e_uid = uid, e_gid = uid, e_gecos = [], e_dir = codes ''/'', e_shell = codes ''/bin/sh''\<rparr>"


text \<open>
  A line with too few fields is not rejected. The pointers to the fields are not reset between lines, so
  a name with nothing but a colon behind it, on the last line, is a user with the ids, the directory and the shell
  of the line before, whatever the complete lines before it are.
\<close>

lemma passwd_file_stale_fields:
  assumes "\<forall>e \<in> set es. entry_ok required_prefix e \<and> e_name e \<noteq> name" "es \<noteq> []" "plain name"
    and "case required_prefix of None \<Rightarrow> True | Some p \<Rightarrow> take (length p) name = p"
  shows "PasswdFile_FindByName (Some (foldr print_entry es (name @ [COLON, NEWLINE])), required_prefix) name =
    Some (entry_passwd ((last es)\<lparr>e_name := name\<rparr>))"
proof -
  have ok: "entry_ok required_prefix (last es)" using assms(1,2) by simp
  have "find_line required_prefix (name_predicate name) (foldr print_entry es (name @ [COLON, NEWLINE])) (replicate 7 None) =
      find_line required_prefix (name_predicate name) (name @ [COLON, NEWLINE]) (map Some (line_rest (last es) (name @ [COLON, NEWLINE])))"
    by (rule find_line_skip [where Q = "\<lambda>e. e_name e = name"]) (use assms(1,2) entry_predicates(1) in auto)
  then show ?thesis
    using find_line_short [OF assms(3) length_line_rest assms(4)] ToPasswdState_stale [OF ok assms(3)]
    by (simp add: PasswdFile_FindByName_def MmapFile_Find_def bind_line_def)
qed

end
