(* ===== verification/Grp_Pwd.thy ===== *)
theory Grp_Pwd
  imports Grp_Pwd_File
begin

text \<open>
  Users and groups: libc/bionic/grp_pwd.cpp. The numbers of the Android ids come from
  android_filesystem_config.h of another project, and the table of the fixed ids is generated; both are
  parameters, the fields of a configuration. Strings are lists of character codes, \<open>end\<close> of the code is
  the rest of the name. \<open>unsigned long\<close> has 64 bits.
\<close>

record id_config =
  AID_APP_START :: u32
  AID_APP_END :: u32
  AID_CACHE_GID_START :: u32
  AID_CACHE_GID_END :: u32
  AID_EXT_GID_START :: u32
  AID_EXT_GID_END :: u32
  AID_EXT_CACHE_GID_START :: u32
  AID_EXT_CACHE_GID_END :: u32
  AID_SHARED_GID_START :: u32
  AID_SHARED_GID_END :: u32
  AID_ISOLATED_START :: u32
  AID_ISOLATED_END :: u32
  AID_USER_OFFSET :: u32
  AID_OVERFLOWUID :: u32
  AID_OEM_RESERVED_START :: u32
  AID_OEM_RESERVED_END :: u32
  AID_OEM_RESERVED_2_START :: u32
  AID_OEM_RESERVED_2_END :: u32
  AID_SYSTEM_RESERVED_START :: u32
  AID_SYSTEM_EXT_RESERVED_END :: u32
  AID_EVERYBODY :: u32
  secondary_user_platform_ids :: "u32 list"
  android_ids :: "(u32 list \<times> u32) list"
  first_api_level :: "u32 list option"
  passwd_files :: "db_file list"
  group_files :: "db_file list"

section \<open>Ids\<close>

definition find_android_id_info :: "id_config \<Rightarrow> u32 \<Rightarrow> (u32 list \<times> u32) option" where
  "find_android_id_info c uid = find (\<lambda>i. snd i = uid) (android_ids c)"

definition find_android_id_info_name :: "id_config \<Rightarrow> u32 list \<Rightarrow> (u32 list \<times> u32) option" where
  "find_android_id_info_name c name = find (\<lambda>i. fst i = name) (android_ids c)"

definition user_ranges :: "id_config \<Rightarrow> (u32 \<times> u32) list" where
  "user_ranges c = [(AID_APP_START c, AID_APP_END c), (AID_ISOLATED_START c, AID_ISOLATED_END c)]"

definition group_ranges :: "id_config \<Rightarrow> (u32 \<times> u32) list" where
  "group_ranges c =
     [(AID_APP_START c, AID_APP_END c), (AID_CACHE_GID_START c, AID_CACHE_GID_END c), (AID_EXT_GID_START c, AID_EXT_GID_END c),
      (AID_EXT_CACHE_GID_START c, AID_EXT_CACHE_GID_END c), (AID_SHARED_GID_START c, AID_SHARED_GID_END c),
      (AID_ISOLATED_START c, AID_ISOLATED_END c)]"

definition ranges :: "id_config \<Rightarrow> bool \<Rightarrow> (u32 \<times> u32) list" where
  "ranges c is_group = (if is_group then group_ranges c else user_ranges c)"

definition platform_id_secondary_user_allowed :: "id_config \<Rightarrow> u32 \<Rightarrow> bool" where
  "platform_id_secondary_user_allowed c uid = (uid \<in> set (secondary_user_platform_ids c))"

definition is_valid_app_id :: "id_config \<Rightarrow> u32 \<Rightarrow> bool \<Rightarrow> bool" where
  "is_valid_app_id c uid is_group =
     (let appid = uid mod AID_USER_OFFSET c in
      if appid = AID_OVERFLOWUID c then False
      else if appid < fst (ranges c is_group ! 0) \<and> platform_id_secondary_user_allowed c appid then True
      else if appid \<ge> AID_SHARED_GID_START c \<and> appid \<le> AID_SHARED_GID_END c \<and> appid \<noteq> uid then False
      else list_ex (\<lambda>(start, e). appid \<ge> start \<and> appid \<le> e) (ranges c is_group))"

text \<open>The first gap between two consecutive ranges that the id is in.\<close>

fun next_range :: "u32 \<Rightarrow> (u32 \<times> u32) list \<Rightarrow> u32 option" where
  "next_range uid ((s0, e0) # (s1, e1) # rs) = (if uid > e0 \<and> uid < s1 then Some s1 else next_range uid ((s1, e1) # rs))"
| "next_range uid _ = None"

definition get_next_app_id :: "id_config \<Rightarrow> u32 \<Rightarrow> bool \<Rightarrow> u32" where
  "get_next_app_id c current_id is_group =
     (let rs = ranges c is_group in
      if current_id < fst (rs ! 0) then fst (rs ! 0)
      else let incremented_id = current_id + 1 in
        case next_range incremented_id rs of
          Some start \<Rightarrow> start
        | None \<Rightarrow> if incremented_id > snd (last rs) then - 1 else incremented_id)"

section \<open>Names\<close>

definition snprintf32 :: "u32 list \<Rightarrow> u32 list" where
  "snprintf32 s = take (kGrpPwdBufferSize - 1) s"

definition app_name :: "string \<Rightarrow> u32 \<Rightarrow> u32 list \<Rightarrow> u32 list" where
  "app_name sep userid rest = codes ''u'' @ decimal (unat userid) @ codes sep @ rest"

text \<open>The text that the code prints; the buffer stays empty for an id that is not in the table.\<close>

definition print_app_name_from_uid :: "id_config \<Rightarrow> u32 \<Rightarrow> u32 list" where
  "print_app_name_from_uid c uid =
     (let appid = uid mod AID_USER_OFFSET c; userid = uid div AID_USER_OFFSET c in
      if appid \<ge> AID_ISOLATED_START c then snprintf32 (app_name ''_i'' userid (decimal (unat (appid - AID_ISOLATED_START c))))
      else if appid < AID_APP_START c then
        (case find_android_id_info c appid of Some (name, aid) \<Rightarrow> snprintf32 (app_name ''_'' userid name) | None \<Rightarrow> [])
      else snprintf32 (app_name ''_a'' userid (decimal (unat (appid - AID_APP_START c)))))"

definition print_app_name_from_gid :: "id_config \<Rightarrow> u32 \<Rightarrow> u32 list" where
  "print_app_name_from_gid c gid =
     (let appid = gid mod AID_USER_OFFSET c; userid = gid div AID_USER_OFFSET c in
      if appid \<ge> AID_ISOLATED_START c then snprintf32 (app_name ''_i'' userid (decimal (unat (appid - AID_ISOLATED_START c))))
      else if userid = 0 \<and> appid \<ge> AID_SHARED_GID_START c \<and> appid \<le> AID_SHARED_GID_END c then
        snprintf32 (codes ''all_a'' @ decimal (unat (appid - AID_SHARED_GID_START c)))
      else if appid \<ge> AID_EXT_CACHE_GID_START c \<and> appid \<le> AID_EXT_CACHE_GID_END c then
        snprintf32 (app_name ''_a'' userid (decimal (unat (appid - AID_EXT_CACHE_GID_START c)) @ codes ''_ext_cache''))
      else if appid \<ge> AID_EXT_GID_START c \<and> appid \<le> AID_EXT_GID_END c then
        snprintf32 (app_name ''_a'' userid (decimal (unat (appid - AID_EXT_GID_START c)) @ codes ''_ext''))
      else if appid \<ge> AID_CACHE_GID_START c \<and> appid \<le> AID_CACHE_GID_END c then
        snprintf32 (app_name ''_a'' userid (decimal (unat (appid - AID_CACHE_GID_START c)) @ codes ''_cache''))
      else if appid < AID_APP_START c then
        (case find_android_id_info c appid of Some (name, aid) \<Rightarrow> snprintf32 (app_name ''_'' userid name) | None \<Rightarrow> [])
      else snprintf32 (app_name ''_a'' userid (decimal (unat (appid - AID_APP_START c)))))"

text \<open>\<open>strtoul\<close> in base 10, with the value as an \<open>unsigned long\<close>.\<close>

definition read_ulong :: "u32 list \<Rightarrow> u64 \<times> u32 list" where
  "read_ulong s = (case strtoul s 10 of (v, end_ptr, err) \<Rightarrow> (word_of_int v, end_ptr))"

text \<open>The part of \<open>app_id_from_name\<close> that reads the app id: \<open>None\<close> is an error.\<close>

definition parse_app_id :: "id_config \<Rightarrow> bool \<Rightarrow> bool \<Rightarrow> u32 list \<Rightarrow> (u64 \<times> u32 list) option" where
  "parse_app_id c is_group is_shared_gid e =
     (if unit_at (drop 1 e) = 0x61 \<and> isdigit (unit_at (drop 2 e)) then
        (case read_ulong (drop 2 e) of (v, e) \<Rightarrow>
          if is_shared_gid then
            (let appid = v + ucast (AID_SHARED_GID_START c) in
             if appid > ucast (AID_SHARED_GID_END c) then None else Some (appid, e))
          else if is_group then
            (if e = codes ''_ext_cache'' then Some (v + ucast (AID_EXT_CACHE_GID_START c), drop 10 e)
             else if e = codes ''_ext'' then Some (v + ucast (AID_EXT_GID_START c), drop 4 e)
             else if e = codes ''_cache'' then Some (v + ucast (AID_CACHE_GID_START c), drop 6 e)
             else Some (v + ucast (AID_APP_START c), e))
          else Some (v + ucast (AID_APP_START c), e))
      else if unit_at (drop 1 e) = 0x69 \<and> isdigit (unit_at (drop 2 e)) then
        (case read_ulong (drop 2 e) of (v, e) \<Rightarrow> Some (v + ucast (AID_ISOLATED_START c), e))
      else
        (case find_android_id_info_name c (drop 1 e) of
           Some (name, aid) \<Rightarrow> if platform_id_secondary_user_allowed c aid then Some (ucast aid, drop (length name + 1) e) else None
         | None \<Rightarrow> Some (0, e)))"

text \<open>The result 0 is the error ENOENT.\<close>

definition app_id_from_name :: "id_config \<Rightarrow> u32 list \<Rightarrow> bool \<Rightarrow> u32" where
  "app_id_from_name c name is_group =
     (let start =
        (if is_group \<and> unit_at name = 0x61 \<and> unit_at (drop 1 name) = 0x6c \<and> unit_at (drop 2 name) = 0x6c
         then Some (0, drop 3 name, True)
         else if unit_at name = 0x75 \<and> isdigit (unit_at (drop 1 name))
         then (case read_ulong (drop 1 name) of (userid, e) \<Rightarrow> Some (userid, e, False))
         else None) in
      case start of
        None \<Rightarrow> 0
      | Some (userid, e, is_shared_gid) \<Rightarrow>
          if unit_at e \<noteq> 0x5f \<or> unit_at (drop 1 e) = 0 then 0
          else
            (case parse_app_id c is_group is_shared_gid e of
               None \<Rightarrow> 0
             | Some (appid, e) \<Rightarrow>
                 if unit_at e \<noteq> 0 then 0
                 else if userid > 1000 then 0
                 else if appid \<ge> ucast (AID_USER_OFFSET c) then 0
                 else ucast (appid + userid * ucast (AID_USER_OFFSET c))))"

section \<open>OEM ids\<close>

definition device_launched_before_api_29 :: "id_config \<Rightarrow> bool" where
  "device_launched_before_api_29 c =
     (case first_api_level c of
        None \<Rightarrow> False
      | Some v \<Rightarrow> if v = [] then False else atoi v \<noteq> 0 \<and> atoi v < 29)"

definition is_oem_id :: "id_config \<Rightarrow> u32 \<Rightarrow> bool" where
  "is_oem_id c uid =
     (if device_launched_before_api_29 c \<and> uid \<ge> AID_OEM_RESERVED_START c \<and> uid < AID_EVERYBODY c \<and> find_android_id_info c uid = None
      then True
      else (uid \<ge> AID_OEM_RESERVED_START c \<and> uid \<le> AID_OEM_RESERVED_END c) \<or>
           (uid \<ge> AID_OEM_RESERVED_2_START c \<and> uid \<le> AID_OEM_RESERVED_2_END c))"

text \<open>\<open>sscanf\<close> with \<open>oem_%u\<close> stores the low 32 bits of the number and ignores what follows it.\<close>

definition oem_id_from_name :: "id_config \<Rightarrow> u32 list \<Rightarrow> u32" where
  "oem_id_from_name c name =
     (if take 4 name \<noteq> codes ''oem_'' then 0
      else (case strtoumax (drop 4 name) 10 of (v, e, err) \<Rightarrow>
        if length e = length (drop 4 name) then 0
        else let uid = word_of_int v in if is_oem_id c uid then uid else 0))"

fun first_some :: "('a \<Rightarrow> 'b option) \<Rightarrow> 'a list \<Rightarrow> 'b option" where
  "first_some f [] = None"
| "first_some f (x # xs) = (case f x of Some y \<Rightarrow> Some y | None \<Rightarrow> first_some f xs)"

definition oem_id_to_passwd :: "id_config \<Rightarrow> u32 \<Rightarrow> passwd option" where
  "oem_id_to_passwd c uid =
     (case first_some (\<lambda>f. PasswdFile_FindById f uid) (passwd_files c) of
        Some pw \<Rightarrow> Some pw
      | None \<Rightarrow>
          if \<not> is_oem_id c uid then None
          else Some \<lparr>pw_name = snprintf32 (codes ''oem_'' @ decimal (unat uid)), pw_uid = uid, pw_gid = uid,
                     pw_dir = codes ''/'', pw_shell = codes ''/bin/sh''\<rparr>)"

definition oem_id_to_group :: "id_config \<Rightarrow> u32 \<Rightarrow> grp option" where
  "oem_id_to_group c gid =
     (case first_some (\<lambda>f. GroupFile_FindById f gid) (group_files c) of
        Some gr \<Rightarrow> Some gr
      | None \<Rightarrow>
          if \<not> is_oem_id c gid then None
          else Some \<lparr>gr_name = snprintf32 (codes ''oem_'' @ decimal (unat gid)), gr_gid = gid\<rparr>)"

section \<open>Lookups\<close>

definition android_iinfo_to_passwd :: "u32 list \<times> u32 \<Rightarrow> passwd" where
  "android_iinfo_to_passwd iinfo =
     \<lparr>pw_name = snprintf32 (fst iinfo), pw_uid = snd iinfo, pw_gid = snd iinfo, pw_dir = codes ''/'', pw_shell = codes ''/bin/sh''\<rparr>"

definition android_iinfo_to_group :: "u32 list \<times> u32 \<Rightarrow> grp" where
  "android_iinfo_to_group iinfo = \<lparr>gr_name = snprintf32 (fst iinfo), gr_gid = snd iinfo\<rparr>"

definition app_id_to_passwd :: "id_config \<Rightarrow> u32 \<Rightarrow> passwd option" where
  "app_id_to_passwd c uid =
     (if uid < AID_APP_START c \<or> \<not> is_valid_app_id c uid False then None
      else Some \<lparr>pw_name = print_app_name_from_uid c uid, pw_uid = uid, pw_gid = uid,
                 pw_dir = (if uid mod AID_USER_OFFSET c < AID_APP_START c then codes ''/'' else codes ''/data''),
                 pw_shell = codes ''/bin/sh''\<rparr>)"

definition app_id_to_group :: "id_config \<Rightarrow> u32 \<Rightarrow> grp option" where
  "app_id_to_group c gid =
     (if gid < AID_APP_START c \<or> \<not> is_valid_app_id c gid True then None
      else Some \<lparr>gr_name = print_app_name_from_gid c gid, gr_gid = gid\<rparr>)"

definition or_else :: "'a option \<Rightarrow> 'a option \<Rightarrow> 'a option" where
  "or_else x y = (case x of Some v \<Rightarrow> Some v | None \<Rightarrow> y)"

definition getpwuid :: "id_config \<Rightarrow> u32 \<Rightarrow> passwd option" where
  "getpwuid c uid =
     or_else (map_option android_iinfo_to_passwd (find_android_id_info c uid))
       (or_else (oem_id_to_passwd c uid) (app_id_to_passwd c uid))"

definition getpwnam :: "id_config \<Rightarrow> u32 list \<Rightarrow> passwd option" where
  "getpwnam c login =
     or_else (map_option android_iinfo_to_passwd (find_android_id_info_name c login))
       (or_else (first_some (\<lambda>f. PasswdFile_FindByName f login) (passwd_files c))
          (or_else (oem_id_to_passwd c (oem_id_from_name c login)) (app_id_to_passwd c (app_id_from_name c login False))))"

definition getgrgid :: "id_config \<Rightarrow> u32 \<Rightarrow> grp option" where
  "getgrgid c gid =
     or_else (map_option android_iinfo_to_group (find_android_id_info c gid))
       (or_else (oem_id_to_group c gid) (app_id_to_group c gid))"

definition getgrnam :: "id_config \<Rightarrow> u32 list \<Rightarrow> grp option" where
  "getgrnam c name =
     or_else (map_option android_iinfo_to_group (find_android_id_info_name c name))
       (or_else (first_some (\<lambda>f. GroupFile_FindByName f name) (group_files c))
          (or_else (oem_id_to_group c (oem_id_from_name c name)) (app_id_to_group c (app_id_from_name c name True))))"

text \<open>All users are in one group: the result, the count and the first element of the array.\<close>

definition getgrouplist :: "u32 \<Rightarrow> int \<Rightarrow> int \<times> int \<times> u32 option" where
  "getgrouplist gid ngroups = (if ngroups < 1 then (-1, 1, None) else (1, 1, Some gid))"

section \<open>Enumeration\<close>

text \<open>
  \<open>getpwent_idx\<close> is an \<open>ssize_t\<close>, of 64 bits on LP64 targets and of 32 bits elsewhere; an \<open>id_t\<close> is an
  unsigned number of 32 bits.
\<close>

definition id_to_ssize :: "bool \<Rightarrow> u32 \<Rightarrow> int" where
  "id_to_ssize lp64 uid = (if lp64 then uint uid else sint uid)"

text \<open>The search of a range of ids for the first one that is in the files, and the index after it.\<close>

function ent_search :: "(u32 \<Rightarrow> 'a option) \<Rightarrow> int \<Rightarrow> int \<Rightarrow> int \<Rightarrow> 'a option \<times> int" where
  "ent_search to_ent offset idx e =
     (if idx < e then
        (case to_ent (word_of_int (idx + offset)) of Some r \<Rightarrow> (Some r, idx + 1) | None \<Rightarrow> ent_search to_ent offset (idx + 1) e)
      else (None, idx))"
  by auto
termination
  by (relation "measure (\<lambda>(f, offset, idx, e). nat (e - idx))") auto

declare ent_search.simps [simp del]

definition getent :: "bool \<Rightarrow> id_config \<Rightarrow> bool \<Rightarrow> (u32 list \<times> u32 \<Rightarrow> 'a) \<Rightarrow> (u32 \<Rightarrow> 'a option) \<Rightarrow> (u32 \<Rightarrow> 'a option) \<Rightarrow> int \<Rightarrow> 'a option \<times> int" where
  "getent lp64 c is_group of_iinfo of_oem of_app idx =
     (if idx < 0 then (None, idx)
      else
        let end0 = int (length (android_ids c));
            end1 = end0 + (uint (AID_OEM_RESERVED_END c) - uint (AID_OEM_RESERVED_START c) + 1);
            end2 = end1 + (uint (AID_OEM_RESERVED_2_END c) - uint (AID_OEM_RESERVED_2_START c) + 1);
            end3 = end2 + (uint (AID_SYSTEM_EXT_RESERVED_END c) - uint (AID_SYSTEM_RESERVED_START c) + 1) in
        if idx < end0 then (Some (of_iinfo (android_ids c ! nat idx)), idx + 1)
        else if idx < end1 then (of_oem (word_of_int (idx - end0 + uint (AID_OEM_RESERVED_START c))), idx + 1)
        else if idx < end2 then (of_oem (word_of_int (idx - end1 + uint (AID_OEM_RESERVED_2_START c))), idx + 1)
        else
          (case ent_search of_oem (uint (AID_SYSTEM_RESERVED_START c) - end2) idx end3 of
             (Some r, idx) \<Rightarrow> (Some r, idx)
           | (None, idx) \<Rightarrow>
               let idx = id_to_ssize lp64 (get_next_app_id c (word_of_int idx) is_group) in
               if idx \<noteq> - 1 then (of_app (word_of_int idx), idx) else (None, idx)))"

definition getpwent :: "bool \<Rightarrow> id_config \<Rightarrow> int \<Rightarrow> passwd option \<times> int" where
  "getpwent lp64 c idx = getent lp64 c False android_iinfo_to_passwd (oem_id_to_passwd c) (app_id_to_passwd c) idx"

definition getgrent :: "bool \<Rightarrow> id_config \<Rightarrow> int \<Rightarrow> grp option \<times> int" where
  "getgrent lp64 c idx = getent lp64 c True android_iinfo_to_group (oem_id_to_group c) (app_id_to_group c) idx"

end
