(* ===== verification/Grp_Pwd_Spec.thy ===== *)
theory Grp_Pwd_Spec
  imports Grp_Pwd
begin

text \<open>
  Properties of the user and group database: the names of app ids are read back, and what becomes of an
  enumeration that has reached its end.
\<close>

section \<open>The documented configuration\<close>

text \<open>The numbers of the Android ids, as documented for apps, isolated processes and OEM users.\<close>

definition documented_aids :: "id_config \<Rightarrow> bool" where
  "documented_aids c \<longleftrightarrow>
     AID_APP_START c = 10000 \<and> AID_APP_END c = 19999 \<and> AID_CACHE_GID_START c = 20000 \<and> AID_CACHE_GID_END c = 29999 \<and>
     AID_EXT_GID_START c = 30000 \<and> AID_EXT_GID_END c = 39999 \<and> AID_EXT_CACHE_GID_START c = 40000 \<and> AID_EXT_CACHE_GID_END c = 49999 \<and>
     AID_SHARED_GID_START c = 50000 \<and> AID_SHARED_GID_END c = 59999 \<and> AID_ISOLATED_START c = 90000 \<and> AID_ISOLATED_END c = 99999 \<and>
     AID_USER_OFFSET c = 100000 \<and> AID_OVERFLOWUID c = 65534 \<and> AID_OEM_RESERVED_START c = 2900 \<and> AID_OEM_RESERVED_END c = 2999 \<and>
     AID_OEM_RESERVED_2_START c = 5000 \<and> AID_OEM_RESERVED_2_END c = 5999 \<and> AID_SYSTEM_RESERVED_START c = 6000 \<and>
     AID_SYSTEM_EXT_RESERVED_END c = 7999 \<and> AID_EVERYBODY c = 9997"

text \<open>The platform ids of secondary users are in the generated table, with names that do not look like app ids.\<close>

definition platform_name_ok :: "id_config \<Rightarrow> u32 \<Rightarrow> bool" where
  "platform_name_ok c i =
     (i < 10000 \<and>
      (case find_android_id_info c i of
         None \<Rightarrow> False
       | Some (name, aid) \<Rightarrow>
           aid = i \<and> find_android_id_info_name c name = Some (name, i) \<and> length name \<le> 24 \<and> unit_at name \<noteq> 0 \<and>
           \<not> ((unit_at name = 0x61 \<or> unit_at name = 0x69) \<and> isdigit (unit_at (drop 1 name)))))"

definition platform_names_ok :: "id_config \<Rightarrow> bool" where
  "platform_names_ok c \<longleftrightarrow> (\<forall>i \<in> set (secondary_user_platform_ids c). platform_name_ok c i)"

section \<open>Reading the names of app ids\<close>

lemma length_decimal: "n < 10 ^ k \<Longrightarrow> 0 < k \<Longrightarrow> length (decimal n) \<le> k"
proof (induction k arbitrary: n)
  case (Suc k)
  show ?case
  proof (cases "n < 10")
    case True
    then show ?thesis by (subst decimal.simps) simp
  next
    case False
    then have "n div 10 < 10 ^ k" "0 < k"
      using Suc(2) by (auto simp: less_mult_imp_div_less mult.commute intro: gr0I)
    then show ?thesis
      using Suc(1) [of "n div 10"] False by (subst decimal.simps) simp
  qed
qed simp

lemma isdigit_decimal: "isdigit (unit_at (decimal n @ r))"
  using decimal_head [of n] decimal_not_Nil [of n]
  by (cases "decimal n") (auto simp: unit_at_def isdigit_def word_le_nat_alt)

definition ends_number :: "u32 list \<Rightarrow> bool" where
  "ends_number r \<longleftrightarrow> r = [] \<or> hd r = 0x5f"

lemma read_ulong_decimal:
  assumes "n < 2 ^ 32" "ends_number r"
  shows "read_ulong (decimal n @ r) = (of_nat n, r)"
proof -
  have "\<not> is_digit_of 10 (unit_at r)"
    using assms(2) by (cases r) (auto simp: ends_number_def unit_at_def is_digit_of_def digit_value_def isdigit_def isalpha_def
        ctype_in_range_def tolower_bit_def)
  then show ?thesis
    using decimal_strtoul [of n r 10] assms(1) by (simp add: read_ulong_def)
qed

text \<open>A number as the code stores it after it has checked the bounds.\<close>

lemma id_result:
  assumes "a < 100000" "m \<le> 1000"
  shows "\<not> (of_nat m :: u64) > 1000" "\<not> (of_nat a :: u64) \<ge> ucast (100000 :: u32)"
    "ucast ((of_nat a :: u64) + of_nat m * ucast (100000 :: u32)) = (of_nat (a + m * 100000) :: u32)"
proof -
  have c: "ucast (100000 :: u32) = (100000 :: u64)"
    by simp
  show "\<not> (of_nat m :: u64) > 1000"
    using assms(2) by (simp add: word_less_nat_alt unat_of_nat)
  show "\<not> (of_nat a :: u64) \<ge> ucast (100000 :: u32)"
    using assms(1) unfolding c by (simp add: word_le_nat_alt unat_of_nat)
  have "(of_nat a :: u64) + of_nat m * 100000 = of_nat (a + m * 100000)"
    by simp
  moreover have "unat (of_nat (a + m * 100000) :: u64) = a + m * 100000"
    using assms by (simp only: unat_of_nat) simp
  ultimately show "ucast ((of_nat a :: u64) + of_nat m * ucast (100000 :: u32)) = (of_nat (a + m * 100000) :: u32)"
    unfolding c by (metis of_nat_unat)
qed

lemma app_id_from_u:
  assumes "AID_USER_OFFSET c = 100000" "m \<le> 1000" "x \<noteq> 0"
    "parse_app_id c g False (0x5f # x # q) = Some (of_nat a, [])" "a < 100000"
  shows "app_id_from_name c (0x75 # decimal m @ 0x5f # x # q) g = of_nat (a + m * 100000)"
proof -
  have "read_ulong (decimal m @ 0x5f # x # q) = (of_nat m, 0x5f # x # q)"
    using assms(2) by (intro read_ulong_decimal) (auto simp: ends_number_def)
  then show ?thesis
    using isdigit_decimal [of m "0x5f # x # q"] assms id_result [OF assms(5,2)]
    by (simp add: app_id_from_name_def unit_at_def [of "_ # _"] unit_at_def [of "[]"])
qed

lemma parse_app_a:
  assumes "n < 2 ^ 32" "ends_number s"
  shows "parse_app_id c g sh (0x5f # 0x61 # decimal n @ s) =
    (if sh then
       (let appid = of_nat n + ucast (AID_SHARED_GID_START c) in if appid > ucast (AID_SHARED_GID_END c) then None else Some (appid, s))
     else if g then
       (if s = codes ''_ext_cache'' then Some (of_nat n + ucast (AID_EXT_CACHE_GID_START c), drop 10 s)
        else if s = codes ''_ext'' then Some (of_nat n + ucast (AID_EXT_GID_START c), drop 4 s)
        else if s = codes ''_cache'' then Some (of_nat n + ucast (AID_CACHE_GID_START c), drop 6 s)
        else Some (of_nat n + ucast (AID_APP_START c), s))
     else Some (of_nat n + ucast (AID_APP_START c), s))"
  using read_ulong_decimal [OF assms] isdigit_decimal [of n s]
  by (simp add: parse_app_id_def unit_at_def [of "_ # _"])

lemma parse_app_i:
  assumes "n < 2 ^ 32"
  shows "parse_app_id c g sh (0x5f # 0x69 # decimal n) = Some (of_nat n + ucast (AID_ISOLATED_START c), [])"
  using read_ulong_decimal [OF assms, of "[]"] isdigit_decimal [of n "[]"]
  by (simp add: parse_app_id_def unit_at_def [of "_ # _"] ends_number_def)

lemma parse_app_platform:
  assumes "platform_names_ok c" "i \<in> set (secondary_user_platform_ids c)" "find_android_id_info c i = Some (name, aid)"
  shows "parse_app_id c g False (0x5f # name) = Some (ucast i, [])" "name \<noteq> []" "hd name \<noteq> 0" "length name \<le> 24" "i < 10000"
  using assms by (auto simp: platform_names_ok_def platform_name_ok_def parse_app_id_def platform_id_secondary_user_allowed_def
      unit_at_def split: list.splits dest!: bspec)


lemma snprintf32_all: "length s \<le> 31 \<Longrightarrow> snprintf32 s = s"
  by (simp add: snprintf32_def kGrpPwdBufferSize_def)

lemma app_name_all:
  assumes "unat u \<le> 1000" "length rest \<le> 24" "length sep \<le> 2"
  shows "snprintf32 (app_name sep u rest) = 0x75 # decimal (unat u) @ codes sep @ rest"
proof -
  have "length (decimal (unat u)) \<le> 4"
    using assms(1) by (intro length_decimal) auto
  then show ?thesis
    using assms(2,3) by (subst snprintf32_all) (simp_all add: app_name_def codes_def)
qed

lemma sep_codes: "codes ''_a'' = [0x5f, 0x61]" "codes ''_i'' = [0x5f, 0x69]" "codes ''_'' = [0x5f]"
  by (simp_all add: codes_def)

lemma sub_decimal_short: "unat (i :: u32) < 100000 \<Longrightarrow> s \<le> i \<Longrightarrow> length (decimal (unat (i - s))) \<le> 5"
  by (intro length_decimal) (simp_all add: unat_sub)

lemma sub_add: "s \<le> i \<Longrightarrow> (of_nat (unat (i - s)) :: u64) + ucast s = of_nat (unat (i :: u32))"
proof -
  assume "s \<le> i"
  then have "unat i = unat (i - s) + unat s"
    by (simp add: unat_sub word_le_nat_alt)
  then show ?thesis
    by (metis of_nat_add of_nat_unat)
qed

lemma id_parts:
  fixes uid :: u32
  shows "unat (uid mod 100000) < 100000" "of_nat (unat (uid mod 100000) + unat (uid div 100000) * 100000) = uid"
    "unat (uid div 100000) = unat uid div 100000"
proof -
  have m: "unat (uid mod 100000) = unat uid mod 100000" and d: "unat (uid div 100000) = unat uid div 100000"
    by (simp_all add: unat_mod unat_div)
  then show "unat (uid mod 100000) < 100000" "unat (uid div 100000) = unat uid div 100000"
    by simp_all
  have "unat uid mod 100000 + unat uid div 100000 * 100000 = unat uid"
    by simp
  then show "of_nat (unat (uid mod 100000) + unat (uid div 100000) * 100000) = uid"
    unfolding m d by simp
qed

lemma read_back:
  assumes "AID_USER_OFFSET c = 100000" "unat (uid div 100000) \<le> 1000" "x \<noteq> 0"
    "parse_app_id c g False (0x5f # x # q) = Some (of_nat (unat (uid mod 100000)), [])"
  shows "app_id_from_name c (0x75 # decimal (unat (uid div 100000)) @ 0x5f # x # q) g = uid"
  using app_id_from_u [OF assms id_parts(1)] id_parts(2) [of uid] by simp

lemma read_back_name:
  assumes "AID_USER_OFFSET c = 100000" "unat (uid div 100000) \<le> 1000" "sep = ''_a'' \<or> sep = ''_i''" "length rest \<le> 24"
    "parse_app_id c g False (codes sep @ rest) = Some (of_nat (unat (uid mod 100000)), [])"
  shows "app_id_from_name c (snprintf32 (app_name sep (uid div 100000) rest)) g = uid"
proof -
  have "snprintf32 (app_name sep (uid div 100000) rest) = 0x75 # decimal (unat (uid div 100000)) @ codes sep @ rest"
    using assms(2-4) by (intro app_name_all) auto
  then show ?thesis
    using assms(3,5) read_back [OF assms(1,2), where x = "0x61" and g = g and q = rest] read_back [OF assms(1,2), where x = "0x69" and g = g and q = rest] by (auto simp: sep_codes)
qed

lemma sub_small: "unat (i - s :: u32) < 2 ^ 32"
  using unsigned_less [of "i - s", where 'a = nat] by simp

text \<open>Each kind of name, for an app id from the start of its range on.\<close>

lemma read_back_app:
  assumes "AID_USER_OFFSET c = 100000" "unat (uid div 100000) \<le> 1000" "start \<le> uid mod 100000" "ends_number suffix" "length suffix \<le> 10"
    "parse_app_id c g False (codes ''_a'' @ decimal (unat (uid mod 100000 - start)) @ suffix) =
       Some (of_nat (unat (uid mod 100000 - start)) + ucast start, [])"
  shows "app_id_from_name c (snprintf32 (app_name ''_a'' (uid div 100000) (decimal (unat (uid mod 100000 - start)) @ suffix))) g = uid"
  using sub_decimal_short [OF id_parts(1) assms(3)] assms(5,6) sub_add [OF assms(3)]
  by (intro read_back_name [OF assms(1,2)]) auto

lemma read_back_isolated:
  assumes "AID_USER_OFFSET c = 100000" "unat (uid div 100000) \<le> 1000" "AID_ISOLATED_START c \<le> uid mod 100000"
  shows "app_id_from_name c (snprintf32 (app_name ''_i'' (uid div 100000) (decimal (unat (uid mod 100000 - AID_ISOLATED_START c))))) g = uid"
  using sub_decimal_short [OF id_parts(1) assms(3)] sub_add [OF assms(3)] parse_app_i [OF sub_small]
  by (intro read_back_name [OF assms(1,2)]) (auto simp: sep_codes)

lemma read_back_platform:
  assumes "AID_USER_OFFSET c = 100000" "unat (uid div 100000) \<le> 1000" "platform_names_ok c"
    "uid mod 100000 \<in> set (secondary_user_platform_ids c)" "find_android_id_info c (uid mod 100000) = Some (name, aid)"
  shows "app_id_from_name c (snprintf32 (app_name ''_'' (uid div 100000) name)) g = uid"
proof -
  note p = parse_app_platform [OF assms(3-5)]
  have "snprintf32 (app_name ''_'' (uid div 100000) name) = 0x75 # decimal (unat (uid div 100000)) @ 0x5f # hd name # tl name"
    using app_name_all [OF assms(2) p(4), of "''_''"] p(2) by (simp add: sep_codes)
  moreover have "(ucast (uid mod 100000) :: u64) = of_nat (unat (uid mod 100000))"
    by (metis of_nat_unat)
  ultimately show ?thesis
    using read_back [OF assms(1,2) p(3), where g = g and q = "tl name"] p(1,2) by simp
qed

lemma shared_bound: "k \<le> 59999 \<Longrightarrow> \<not> (of_nat k :: u64) > ucast (59999 :: u32)"
  by (simp add: word_less_nat_alt unat_of_nat)

lemma read_back_shared:
  assumes "documented_aids c" "uid div 100000 = 0" "50000 \<le> uid mod 100000" "uid mod 100000 \<le> 59999"
  shows "app_id_from_name c (snprintf32 (codes ''all_a'' @ decimal (unat (uid mod 100000 - 50000)))) True = uid"
proof -
  let ?n = "unat (uid mod 100000 - 50000)"
  have "snprintf32 (codes ''all_a'' @ decimal ?n) = [0x61, 0x6c, 0x6c, 0x5f, 0x61] @ decimal ?n"
    using sub_decimal_short [OF id_parts(1) assms(3)] by (subst snprintf32_all) (simp_all add: codes_def)
  moreover have v: "(of_nat ?n :: u64) + ucast (50000 :: u32) = of_nat (unat (uid mod 100000))"
    by (rule sub_add [OF assms(3)])
  moreover have "\<not> (of_nat (unat (uid mod 100000)) :: u64) > ucast (59999 :: u32)"
    using assms(4) by (intro shared_bound) (simp add: word_le_nat_alt)
  ultimately have "parse_app_id c True True (0x5f # 0x61 # decimal ?n) = Some (of_nat (unat (uid mod 100000)), [])"
    using parse_app_a [OF sub_small, of "[]" c True True] assms(1) by (simp add: ends_number_def documented_aids_def Let_def)
  moreover have "of_nat (unat (uid mod 100000)) = uid"
    using id_parts(2) [of uid] assms(2) by simp
  ultimately show ?thesis
    using id_result [OF id_parts(1) [of uid], of 0] assms(1) \<open>snprintf32 _ = _\<close>
    by (simp add: app_id_from_name_def unit_at_def documented_aids_def)
qed


lemma ends_suffix: "ends_number []" "ends_number (codes ''_ext_cache'')" "ends_number (codes ''_ext'')" "ends_number (codes ''_cache'')"
  by (simp_all add: ends_number_def codes_def)

lemma suffix_codes: "codes ''_ext_cache'' \<noteq> codes ''_ext''" "codes ''_ext_cache'' \<noteq> codes ''_cache''" "codes ''_ext'' \<noteq> codes ''_cache''"
  "[] \<noteq> codes ''_ext_cache''" "[] \<noteq> codes ''_ext''" "[] \<noteq> codes ''_cache''"
  "length (codes ''_ext_cache'') = 10" "length (codes ''_ext'') = 4" "length (codes ''_cache'') = 6"
  by (simp_all add: codes_def)

lemmas parse_suffix = parse_app_a [OF sub_small ends_suffix(1)] parse_app_a [OF sub_small ends_suffix(2)]
  parse_app_a [OF sub_small ends_suffix(3)] parse_app_a [OF sub_small ends_suffix(4)]

lemma aid_simps:
  assumes "documented_aids c"
  shows "AID_APP_START c = 10000" "AID_APP_END c = 19999" "AID_CACHE_GID_START c = 20000" "AID_CACHE_GID_END c = 29999"
    "AID_EXT_GID_START c = 30000" "AID_EXT_GID_END c = 39999" "AID_EXT_CACHE_GID_START c = 40000" "AID_EXT_CACHE_GID_END c = 49999"
    "AID_SHARED_GID_START c = 50000" "AID_SHARED_GID_END c = 59999" "AID_ISOLATED_START c = 90000" "AID_ISOLATED_END c = 99999"
    "AID_USER_OFFSET c = 100000" "AID_OVERFLOWUID c = 65534"
  using assms by (simp_all add: documented_aids_def)

lemma read_back_plain:
  assumes "documented_aids c" "unat (uid div 100000) \<le> 1000" "10000 \<le> uid mod 100000"
  shows "app_id_from_name c (snprintf32 (app_name ''_a'' (uid div 100000) (decimal (unat (uid mod 100000 - 10000))))) g = uid"
proof -
  have "parse_app_id c g False (codes ''_a'' @ decimal (unat (uid mod 100000 - 10000)) @ []) =
      Some (of_nat (unat (uid mod 100000 - 10000)) + ucast (10000 :: u32), [])"
    unfolding sep_codes append_Cons append_Nil parse_suffix(1) aid_simps [OF assms(1)]
    using suffix_codes(4-6) by (simp only: if_False if_cancel)
  then show ?thesis
    using read_back_app [OF aid_simps(13) [OF assms(1)] assms(2,3) ends_suffix(1)] by (simp only: append_Nil2 list.size(3) zero_le)
qed

lemma read_back_cache:
  assumes "documented_aids c" "unat (uid div 100000) \<le> 1000" "20000 \<le> uid mod 100000"
  shows "app_id_from_name c (snprintf32 (app_name ''_a'' (uid div 100000) (decimal (unat (uid mod 100000 - 20000)) @ codes ''_cache''))) True = uid"
proof (rule read_back_app [OF aid_simps(13) [OF assms(1)] assms(2,3) ends_suffix(4)])
  show "parse_app_id c True False (codes ''_a'' @ decimal (unat (uid mod 100000 - 20000)) @ codes ''_cache'') =
      Some (of_nat (unat (uid mod 100000 - 20000)) + ucast (20000 :: u32), [])"
    unfolding sep_codes append_Cons append_Nil parse_suffix(4) aid_simps [OF assms(1)]
    using suffix_codes suffix_codes [symmetric] by (simp only: if_True if_False drop_all order_refl refl simp_thms)
qed (simp add: codes_def)

lemma read_back_ext:
  assumes "documented_aids c" "unat (uid div 100000) \<le> 1000" "30000 \<le> uid mod 100000"
  shows "app_id_from_name c (snprintf32 (app_name ''_a'' (uid div 100000) (decimal (unat (uid mod 100000 - 30000)) @ codes ''_ext''))) True = uid"
proof (rule read_back_app [OF aid_simps(13) [OF assms(1)] assms(2,3) ends_suffix(3)])
  show "parse_app_id c True False (codes ''_a'' @ decimal (unat (uid mod 100000 - 30000)) @ codes ''_ext'') =
      Some (of_nat (unat (uid mod 100000 - 30000)) + ucast (30000 :: u32), [])"
    unfolding sep_codes append_Cons append_Nil parse_suffix(3) aid_simps [OF assms(1)]
    using suffix_codes suffix_codes [symmetric] by (simp only: if_True if_False drop_all order_refl refl simp_thms)
qed (simp add: codes_def)

lemma read_back_ext_cache:
  assumes "documented_aids c" "unat (uid div 100000) \<le> 1000" "40000 \<le> uid mod 100000"
  shows "app_id_from_name c (snprintf32 (app_name ''_a'' (uid div 100000) (decimal (unat (uid mod 100000 - 40000)) @ codes ''_ext_cache''))) True = uid"
proof (rule read_back_app [OF aid_simps(13) [OF assms(1)] assms(2,3) ends_suffix(2)])
  show "parse_app_id c True False (codes ''_a'' @ decimal (unat (uid mod 100000 - 40000)) @ codes ''_ext_cache'') =
      Some (of_nat (unat (uid mod 100000 - 40000)) + ucast (40000 :: u32), [])"
    unfolding sep_codes append_Cons append_Nil parse_suffix(2) aid_simps [OF assms(1)]
    using suffix_codes suffix_codes [symmetric] by (simp only: if_True if_False drop_all order_refl refl simp_thms)
qed (simp add: codes_def)

lemma uid_read_back:
  assumes "documented_aids c" "platform_names_ok c" "unat (uid div 100000) \<le> 1000" "app_id_to_passwd c uid = Some pw"
  shows "app_id_from_name c (pw_name pw) False = uid"
proof -
  note a = aid_simps [OF assms(1)]
  have valid: "is_valid_app_id c uid False" and pw: "pw_name pw = print_app_name_from_uid c uid"
    using assms(4) by (auto simp: app_id_to_passwd_def split: if_splits)
  show ?thesis
  proof (cases "uid mod 100000 < 10000")
    case True
    then have sec: "uid mod 100000 \<in> set (secondary_user_platform_ids c)"
      using valid by (auto simp: is_valid_app_id_def ranges_def user_ranges_def a platform_id_secondary_user_allowed_def Let_def
          word_less_nat_alt word_le_nat_alt split: if_splits)
    then obtain name aid where n: "find_android_id_info c (uid mod 100000) = Some (name, aid)"
      using assms(2) by (auto simp: platform_names_ok_def platform_name_ok_def split: option.splits dest!: bspec)
    have "\<not> 90000 \<le> uid mod 100000"
      using True by (simp add: word_less_nat_alt word_le_nat_alt)
    then have "print_app_name_from_uid c uid = snprintf32 (app_name ''_'' (uid div 100000) name)"
      using True n by (simp add: print_app_name_from_uid_def a Let_def)
    then show ?thesis
      using read_back_platform [OF a(13) assms(3,2) sec n] pw by simp
  next
    case False
    then have ge: "10000 \<le> uid mod 100000"
      by simp
    show ?thesis
      using read_back_plain [OF assms(1,3) ge, of False] read_back_isolated [OF a(13) assms(3), of False] ge False
      unfolding pw by (auto simp: print_app_name_from_uid_def a Let_def)
  qed
qed


lemma if_prop: "(b \<Longrightarrow> P x) \<Longrightarrow> (\<not> b \<Longrightarrow> P y) \<Longrightarrow> P (if b then x else y)"
  by simp

lemma gid_read_back:
  assumes "documented_aids c" "platform_names_ok c" "unat (gid div 100000) \<le> 1000" "app_id_to_group c gid = Some gr"
  shows "app_id_from_name c (gr_name gr) True = gid"
proof -
  note a = aid_simps [OF assms(1)]
  have valid: "is_valid_app_id c gid True" and gr: "gr_name gr = print_app_name_from_gid c gid"
    using assms(4) by (auto simp: app_id_to_group_def split: if_splits)
  show ?thesis
  proof (cases "gid mod 100000 < 10000")
    case True
    then have sec: "gid mod 100000 \<in> set (secondary_user_platform_ids c)"
      using valid by (auto simp: is_valid_app_id_def ranges_def group_ranges_def a platform_id_secondary_user_allowed_def Let_def
          word_less_nat_alt word_le_nat_alt split: if_splits)
    then obtain name aid where n: "find_android_id_info c (gid mod 100000) = Some (name, aid)"
      using assms(2) by (auto simp: platform_names_ok_def platform_name_ok_def split: option.splits dest!: bspec)
    have "\<not> 90000 \<le> gid mod 100000" "\<not> 50000 \<le> gid mod 100000" "\<not> 40000 \<le> gid mod 100000" "\<not> 30000 \<le> gid mod 100000"
      "\<not> 20000 \<le> gid mod 100000"
      using True by (simp_all add: word_less_nat_alt word_le_nat_alt)
    then have "print_app_name_from_gid c gid = snprintf32 (app_name ''_'' (gid div 100000) name)"
      using True n by (simp add: print_app_name_from_gid_def a Let_def)
    then show ?thesis
      using read_back_platform [OF a(13) assms(3,2) sec n] gr by simp
  next
    case False
    then have ge: "10000 \<le> gid mod 100000"
      by simp
    note forms = read_back_plain [OF assms(1,3) ge] read_back_isolated [OF a(13) assms(3), unfolded a] read_back_shared [OF assms(1)]
      read_back_cache [OF assms(1,3)] read_back_ext [OF assms(1,3)] read_back_ext_cache [OF assms(1,3)]
    show ?thesis
      unfolding gr print_app_name_from_gid_def a Let_def
      by (rule if_prop [where P = "\<lambda>n. app_id_from_name c n True = gid"] | (use False forms in blast))+
  qed
qed

section \<open>Properties\<close>

text \<open>
  C28: The names that are made for app ids are read back. For every user up to 1000 and every id of an app,
  of an isolated process or of a platform user, the name in the passwd entry that the id gives is translated
  by \<open>app_id_from_name\<close> into that id again, and so is the name in the group entry, for the cache, external
  and shared groups of an app as well.
\<close>

theorem app_name_roundtrip:
  assumes "documented_aids c" "platform_names_ok c" "unat i div 100000 \<le> 1000"
  shows "(app_id_to_passwd c i = Some pw \<longrightarrow> app_id_from_name c (pw_name pw) False = i) \<and>
    (app_id_to_group c i = Some gr \<longrightarrow> app_id_from_name c (gr_name gr) True = i)"
  using uid_read_back [OF assms(1,2)] gid_read_back [OF assms(1,2)] assms(3) unfolding id_parts(3) [symmetric] by blast

definition sample_config :: id_config where
  "sample_config = \<lparr>AID_APP_START = 10000, AID_APP_END = 19999, AID_CACHE_GID_START = 20000, AID_CACHE_GID_END = 29999,
     AID_EXT_GID_START = 30000, AID_EXT_GID_END = 39999, AID_EXT_CACHE_GID_START = 40000, AID_EXT_CACHE_GID_END = 49999,
     AID_SHARED_GID_START = 50000, AID_SHARED_GID_END = 59999, AID_ISOLATED_START = 90000, AID_ISOLATED_END = 99999,
     AID_USER_OFFSET = 100000, AID_OVERFLOWUID = 65534, AID_OEM_RESERVED_START = 2900, AID_OEM_RESERVED_END = 2999,
     AID_OEM_RESERVED_2_START = 5000, AID_OEM_RESERVED_2_END = 5999, AID_SYSTEM_RESERVED_START = 6000,
     AID_SYSTEM_EXT_RESERVED_END = 7999, AID_EVERYBODY = 9997, secondary_user_platform_ids = [1000, 1001],
     android_ids = [(codes ''root'', 0), (codes ''system'', 1000), (codes ''radio'', 1001)], first_api_level = None,
     passwd_files = [], group_files = []\<rparr>"

lemma sample_config_ok: "documented_aids sample_config" "platform_names_ok sample_config"
  by code_simp+

theorem app_name_roundtrip_witness:
  "\<exists>pw. app_id_to_passwd sample_config 1010042 = Some pw \<and> pw_name pw = codes ''u10_a42'' \<and>
    app_id_from_name sample_config (pw_name pw) False = 1010042"
proof -
  have "case app_id_to_passwd sample_config 1010042 of None \<Rightarrow> False | Some pw \<Rightarrow> pw_name pw = codes ''u10_a42''"
    by code_simp
  then obtain pw where "app_id_to_passwd sample_config 1010042 = Some pw" "pw_name pw = codes ''u10_a42''"
    by (auto split: option.splits)
  then show ?thesis
    using app_name_roundtrip [OF sample_config_ok, of 1010042 pw] by simp
qed

text \<open>
  A number of more than 64 bits of range wraps when the start of the range is added: the name of an app
  with a huge number is the system user of user 1.
\<close>

lemma app_id_wraps: "app_id_from_name sample_config (codes ''u1_a18446744073709542616'') False = 101000"
  by code_simp

text \<open>
  C38: On 64-bit targets an enumeration does not stop at its end. \<open>get_next_app_id\<close> returns -1 as an unsigned
  number of 32 bits, and \<open>getpwent_idx\<close> has 64 bits, so the test for -1 never holds: after the last user
  \<open>getpwent\<close> returns null twice and then starts again with the first entry. On 32-bit targets it stays at
  the end.
\<close>

theorem getpwent_restarts:
  assumes "documented_aids c" "\<forall>i \<in> set (secondary_user_platform_ids c). i < 10000" "android_ids c \<noteq> []" "length (android_ids c) \<le> 10000"
  shows "getpwent True c 99999 = (None, 4294967295) \<and> getpwent True c 4294967295 = (None, 0) \<and>
    getpwent True c 0 = (Some (android_iinfo_to_passwd (hd (android_ids c))), 1) \<and>
    getpwent False c 99999 = (None, - 1) \<and> getpwent False c (- 1) = (None, - 1)"
proof -
  note a = aid_simps [OF assms(1)]
  have oem: "AID_OEM_RESERVED_START c = 2900" "AID_OEM_RESERVED_END c = 2999" "AID_OEM_RESERVED_2_START c = 5000"
    "AID_OEM_RESERVED_2_END c = 5999" "AID_SYSTEM_RESERVED_START c = 6000" "AID_SYSTEM_EXT_RESERVED_END c = 7999"
    using assms(1) by (simp_all add: documented_aids_def)
  have "67295 \<notin> set (secondary_user_platform_ids c)"
    using assms(2) by auto
  then have none: "app_id_to_passwd c (- 1) = None" "app_id_to_passwd c 0 = None"
    by (simp_all add: app_id_to_passwd_def is_valid_app_id_def a ranges_def user_ranges_def platform_id_secondary_user_allowed_def Let_def)
  have nxt: "get_next_app_id c 99999 False = - 1" "get_next_app_id c (- 1) False = 0"
    by (simp_all add: get_next_app_id_def ranges_def user_ranges_def a Let_def)
  have m: "(4294967295 :: u32) = - 1" "uint (- 1 :: u32) = 4294967295" "sint (- 1 :: u32) = - 1"
    by (simp, simp add: uint_word_ariths, simp)
  have search: "ent_search f offset idx e = (None, idx)" if "e \<le> idx" for f :: "u32 \<Rightarrow> passwd option" and offset idx e
    using that by (subst ent_search.simps) simp
  have l: "int (length (android_ids c)) \<le> 10000" "0 < int (length (android_ids c))"
    using assms(3,4) by simp_all
  show ?thesis
    using l none nxt assms(3)
    by (simp add: getpwent_def getent_def oem Let_def search id_to_ssize_def hd_conv_nth m)
qed

theorem getpwent_restarts_witness:
  "getpwent True sample_config 4294967295 = (None, 0) \<and> getpwent True sample_config 0 = (Some (android_iinfo_to_passwd (codes ''root'', 0)), 1)"
proof -
  have "\<forall>i \<in> set (secondary_user_platform_ids sample_config). i < 10000" "android_ids sample_config \<noteq> []"
    "length (android_ids sample_config) \<le> 10000" "hd (android_ids sample_config) = (codes ''root'', 0)"
    by (simp_all add: sample_config_def)
  then show ?thesis
    using getpwent_restarts [OF sample_config_ok(1)] by simp
qed

end
