(* ===== verification/Spec2Isabelle.thy ===== *)
theory Spec2Isabelle
  imports Prop_Area_Spec Wide_Strings Utf16 Property_Service Property_Prefix Linker_Config_Spec Rwlock_Spec Semaphore_Spec Linker_Packed_Relocs Linker_Memtag
    Linker_Symbols_Spec Grp_Pwd_Spec
begin

text \<open>
  A verification library for bionic, Android's C library and dynamic linker. File names below are
  relative to src/.

  \<^bold>\<open>Parts of the program and how they interact.\<close>
  The property service (libc/system_properties) keeps the properties of the system in shared memory: a
  \<open>SystemProperties\<close> object asks a \<open>Contexts\<close> object which area holds a name, and a \<open>prop_area\<close> is a trie of
  names with records. The dynamic linker (linker) reads its configuration, expands and resolves paths,
  searches symbols in the hash tables of the libraries, applies packed and relative relocations and tags global
  variables. The C library proper (libc/bionic) is taken with its character classes and number parsing, its
  multibyte conversions, its user and group database, and two of its synchronisation primitives, the
  read-write lock and the semaphore, which rely on the futex timeouts. The components are independent of each
  other except that number parsing serves the linker configuration and the group database, and that
  the contexts use the character classes.

  \<^bold>\<open>Conventions.\<close>
  \<^item> A struct or class is a record, an enumeration or tagged union a datatype; a method takes the state and
    returns the new one. Machine integers are words (\<open>u8\<close>, \<open>u16\<close>, \<open>u32\<close>, \<open>u64\<close> of Bionic_Prelude), with \<open>unat\<close>, \<open>uint\<close>
    and \<open>sint\<close> as their readings; \<open>size_t\<close>, \<open>long\<close> and addresses have 64 bits. Where plain \<open>char\<close> matters its
    signedness is a parameter.
  \<^item> The result type \<open>res\<close> has the cases \<open>Ok\<close>, \<open>Abort\<close> (the program is stopped on purpose, as by CHECK) and \<open>Undef\<close>
    (undefined behaviour: an access out of bounds, a null pointer, a shift that is too wide, a signed
    overflow). Conversions and areas use \<open>option\<close> for the same purpose; each theory says which. A C string
    is the list of its characters before the terminator.
  \<^item> Code outside the sources is a parameter: results of system calls and clocks (\<open>sysenv\<close>, \<open>fsenv\<close>, \<open>base_env\<close>),
    the property_info_parser library, the string functions of android-base, the iteration order of a hash table,
    the generated table of Android ids (\<open>id_config\<close>), the instruction that chooses a memory tag.

  \<^bold>\<open>The theories.\<close>
  \<^descr>[Bionic_Prelude] type synonyms, C strings and the string functions the sources call, alignment, the
    type \<open>res\<close>, and the lemmas on them that all components share. Interleaving: counting threads, and one thread
    against the others.
  \<^descr>[Prop_Area, Prop_Trie, Prop_Area_Spec] \<open>prop_info\<close> and \<open>prop_area\<close> (prop_info.cpp, prop_area.cpp): \<open>allocate_obj\<close>,
    \<open>find_prop_trie_node\<close>, \<open>find_property\<close>, \<open>pa_find\<close>, \<open>pa_add\<close>, \<open>pa_foreach\<close> on a heap of objects indexed by offset.
    The state is the record \<open>prop_area\<close>. Prop_Trie relates the offsets to a tree. Shown: the invariant \<open>wf_area\<close> is
    kept; \<open>add\<close> is a map update on what \<open>find\<close> returns, \<open>find\<close> always returns, \<open>foreach\<close> visits each record once,
    and a record keeps its place and content. The contract is the locale \<open>property_store\<close>, interpreted as
    \<open>area_store\<close> on these operations.
  \<^descr>[Property_Contexts, Property_Prefix] mapping of area files, \<open>ContextNode\<close>, and the three kinds of contexts
    (context_node.cpp, contexts_serialized.cpp, contexts_split.cpp, contexts_pre_split.h). Files are in a \<open>world\<close>
    from paths to areas. Shown for \<open>ContextsSplit\<close>: from any file in the property_contexts format, given by the
    grammar \<open>contexts_file\<close>, a name is routed to the listed entry with the longest prefix.
  \<^descr>[System_Properties, Property_Records, Property_Service] every operation of system_properties.cpp, the appcompat
    overrides included. Shown: with the invariant of Property_Service, \<open>Add\<close>, \<open>Update\<close>, \<open>Find\<close>, \<open>Get\<close> and \<open>ReadCallback\<close>
    are the operations of a map from names to values with a counter of changes, for single requests and for histories of
    requests (locale \<open>property_machine\<close>, interpreted as \<open>service\<close>); and that a repeated override keeps the old length.
  \<^descr>[Ctype, Strtol] ctype.h, strcasecmp and strncasecmp (casecmp.cpp), and the parsers of strtol.cpp as instances
    of \<open>StrToI\<close>. Shown: the classes are their documented ranges, the comparisons are lexicographic in the case-folded
    characters, the decimal form of a number is read back, and what a binary prefix without a binary digit does.
  \<^descr>[Utf8, Utf8_Bits, Utf8_Codec, Utf8_Scan, Utf8_Spec, Wide_Strings, Utf16] mbrtoc32.cpp, c32rtomb.cpp, mbrtoc16.cpp,
    c16rtomb.cpp and the conversions of wchar.cpp on the four-byte \<open>mbstate\<close>. Shown: \<open>mbrtoc32\<close> is a reference
    scanner however its input is cut, both directions of the round trip for characters and strings, no overrun and no
    cut character on truncation, the UTF-16 round trip, and the code points for which it fails.
  \<^descr>[Linker_Utils] linker_utils.cpp and page.h: paths are brought into a normal form, parameters are expanded
    without rescanning, zip paths are split at the first separator, sums are exact, pages are rounded.
  \<^descr>[Linker_Config, Linker_Config_Parse, Linker_Config_Spec] linker_config.cpp. Shown: the parser selects the section of
    the binary and accumulates its properties; reading always returns, leaves nothing behind on failure and a
    consistent set of namespaces and links on success, and does not depend on the order of a hash table.
  \<^descr>[Linker_Symbols, Linker_Symbols_Spec] linker_soinfo.cpp, linker_gnu_hash.h, the version definitions of linker.cpp. Shown:
    the GNU lookup finds the first matching symbol of a well-formed table, the System V lookup some matching symbol, and a
    lookup list is searched in order on its fast and its general path.
  \<^descr>[Linker_Leb128, Linker_Packed_Relocs, Linker_Memtag] linker_sleb128.h, linker_reloc_iterators.h, \<open>relocate_relr\<close> and
    \<open>tag_globals\<close> of linker.cpp. Shown: decoding is the inverse of encoding for LEB128 numbers, packed relocations, relative
    relocations and variable descriptors; with a shared RELRO every sixteenth variable gets tag zero.
  \<^descr>[Time_Conversions, Rwlock, Rwlock_State, Rwlock_Inv, Rwlock_Moves, Rwlock_Pres, Rwlock_Live, Rwlock_Spec]
    bionic_time_conversions.cpp, bionic_futex.cpp and pthread_rwlock.cpp. A thread has a program point
    (\<open>rw_pc\<close>) before each access to the lock, \<open>sys_step\<close> lets one thread take one step, \<open>rw_reach\<close> is
    reachability. Shown: exclusion of readers and writers, no lost wake-up without timeouts, and a run with a timeout
    that loses one.
  \<^descr>[Semaphore, Semaphore_Spec] semaphore.cpp in the same way. Shown: waits never exceed the initial value and
    the posts, no waiter sleeps on an available semaphore unless a wake-up is under way, and the count stays valid.
  \<^descr>[Grp_Pwd_File, Grp_Pwd, Grp_Pwd_Spec] grp_pwd_file.cpp and grp_pwd.cpp. Shown: lookup in a passwd file finds the
    first entry, the names of app ids are translated back, a short line takes fields of the line before, and the
    enumeration of users starts again after its end on 64-bit targets.

  \<^bold>\<open>Bounds and fuel.\<close>
  Searches of an area are a \<open>partial_function\<close>, and \<open>wf_area\<close> implies that they return. Loops of the linker and of
  the parsers end by a measure. The only fuel is in \<open>elf_lookup_loop\<close>, the number of entries of the chain
  table: a chain that is longer is a cycle, on which the code does not return, and the model gives \<open>Undef\<close>; a
  well-formed table never runs out (\<open>elf_lookup_finds\<close>). The concurrent models have fewer than $2^{32}$ threads, so that the counters
  of pending threads do not wrap; the absence of lost wake-ups for the lock is shown for fewer than $2^{32}$
  steps, since its 32-bit wake-up serial could come back to an old value after that many. Names of app ids are
  read back for user numbers up to 1000.

  \<^bold>\<open>Not modelled.\<close>
  The interleaving of a property writer with readers (operations of the service run one at a time) and the memory
  orders of the atomic operations; logging; loading of libraries and run-time namespaces; stdio, memory allocation, threads and
  the other synchronisation primitives; wrappers of system calls; imported code (time zones, DNS, the BSD
  directories, libm), assembly and generated headers. The property area is a typed heap, in which objects are equal
  or disjoint; allocation of heap memory by the C++ library does not fail.
\<close>

end
